(* ===== verification/Prelude.thy ===== *)
theory Prelude
  imports Main "HOL-Library.Word"
begin

unbundle bit_operations_syntax

text \<open>
  Shared vocabulary of the development: the machine integer types of the crate, the
  result and poll types, and generic lemmas on words, lists and big-endian byte codecs.

  Conventions. A Rust \<open>Result<T, E>\<close> is the sum \<open>'e + 'a\<close> (\<open>Inl\<close> the error). A panic
  is \<open>None\<close> of an option. \<open>usize\<close> is \<open>nat\<close> for lengths and counters held in memory; where a
  \<open>u64\<close> is cast to \<open>usize\<close> the target is taken to be 64-bit, so the cast is \<open>unat\<close>, and
  \<open>usize::MAX\<close> is \<open>2^64 - 1\<close>.
\<close>

type_synonym u8 = "8 word"
type_synonym u16 = "16 word"
type_synonym u32 = "32 word"
type_synonym u64 = "64 word"
type_synonym bytes = "u8 list"

named_theorems wire_simps \<open>encoders and decoders of the wire formats\<close>

text \<open>The outcome of polling a future once.\<close>

datatype 'a poll = Pending | Ready 'a

definition usize_max :: nat where
  "usize_max = 2 ^ 64 - 1"

definition saturating_add :: "nat \<Rightarrow> nat \<Rightarrow> nat" where
  "saturating_add a b = min (a + b) usize_max"

lemma saturating_add_bounds:
  "saturating_add a b \<le> usize_max"
  "a \<le> usize_max \<Longrightarrow> a \<le> saturating_add a b"
  by (auto simp: saturating_add_def)

lemma unat_of_nat_u64: "n < 2 ^ 64 \<Longrightarrow> unat (of_nat n :: u64) = n"
  by (simp add: unsigned_of_nat take_bit_nat_eq_self)

subsection \<open>Bytes of strings\<close>

text \<open>\<open>b"..."\<close> literals: the bytes of an ASCII string.\<close>

definition bytes_of :: "string \<Rightarrow> bytes" where
  "bytes_of s = map (\<lambda>c. of_nat (of_char c)) s"

text \<open>
  A \<open>String\<close> is the byte sequence of its UTF-8 encoding. \<open>utf8_valid\<close> is the check of
  \<open>String::from_utf8\<close>: well-formed sequences of the Unicode standard (no overlong forms, no
  surrogates, nothing above U+10FFFF).
\<close>

type_synonym utf8_string = bytes

definition in_range :: "nat \<Rightarrow> nat \<Rightarrow> u8 \<Rightarrow> bool" where
  "in_range lo hi b \<longleftrightarrow> lo \<le> unat b \<and> unat b \<le> hi"

fun utf8_valid :: "bytes \<Rightarrow> bool" where
  "utf8_valid [] = True"
| "utf8_valid (a # bs) =
     (if unat a < 128 then utf8_valid bs
      else case bs of
        [] \<Rightarrow> False
      | b # bs2 \<Rightarrow>
          (if in_range 194 223 a then in_range 128 191 b \<and> utf8_valid bs2
           else case bs2 of
             [] \<Rightarrow> False
           | c # bs3 \<Rightarrow>
               (if in_range 224 239 a then
                  in_range (if a = 224 then 160 else 128) (if a = 237 then 159 else 191) b \<and>
                  in_range 128 191 c \<and> utf8_valid bs3
                else case bs3 of
                  [] \<Rightarrow> False
                | d # bs4 \<Rightarrow>
                    in_range 240 244 a \<and>
                    in_range (if a = 240 then 144 else 128) (if a = 244 then 143 else 191) b \<and>
                    in_range 128 191 c \<and> in_range 128 191 d \<and> utf8_valid bs4)))"

definition from_utf8 :: "bytes \<Rightarrow> utf8_string option" where
  "from_utf8 bs = (if utf8_valid bs then Some bs else None)"

text \<open>
  \<open>String::from_utf8_lossy\<close>: every maximal prefix of a well-formed sequence that is not one becomes
  the replacement character U+FFFD.
\<close>

definition replacement_char :: bytes where
  "replacement_char = [239, 191, 189]"

fun utf8_lossy :: "bytes \<Rightarrow> utf8_string" where
  "utf8_lossy [] = []"
| "utf8_lossy (a # bs) =
     (if unat a < 128 then a # utf8_lossy bs
      else case bs of
        [] \<Rightarrow> replacement_char
      | b # bs2 \<Rightarrow>
          (if in_range 194 223 a then
             (if in_range 128 191 b then a # b # utf8_lossy bs2 else replacement_char @ utf8_lossy bs)
           else if in_range 224 239 a then
             (if in_range (if a = 224 then 160 else 128) (if a = 237 then 159 else 191) b then
                (case bs2 of
                   [] \<Rightarrow> replacement_char
                 | c # bs3 \<Rightarrow>
                     (if in_range 128 191 c then a # b # c # utf8_lossy bs3
                      else replacement_char @ utf8_lossy bs2))
              else replacement_char @ utf8_lossy bs)
           else if in_range 240 244 a then
             (if in_range (if a = 240 then 144 else 128) (if a = 244 then 143 else 191) b then
                (case bs2 of
                   [] \<Rightarrow> replacement_char
                 | c # bs3 \<Rightarrow>
                     (if in_range 128 191 c then
                        (case bs3 of
                           [] \<Rightarrow> replacement_char
                         | d # bs4 \<Rightarrow>
                             (if in_range 128 191 d then a # b # c # d # utf8_lossy bs4
                              else replacement_char @ utf8_lossy bs3))
                      else replacement_char @ utf8_lossy bs2))
              else replacement_char @ utf8_lossy bs)
           else replacement_char @ utf8_lossy bs))"

lemma length_bytes_of [simp]: "length (bytes_of s) = length s"
  by (simp add: bytes_of_def)

subsection \<open>Big-endian integers\<close>

definition u16_to_be_bytes :: "u16 \<Rightarrow> bytes" where
  "u16_to_be_bytes w = [ucast (drop_bit 8 w), ucast w]"

definition u16_from_be_bytes :: "u8 \<Rightarrow> u8 \<Rightarrow> u16" where
  "u16_from_be_bytes a b = push_bit 8 (ucast a) OR ucast b"

definition u32_to_be_bytes :: "u32 \<Rightarrow> bytes" where
  "u32_to_be_bytes w =
     [ucast (drop_bit 24 w), ucast (drop_bit 16 w), ucast (drop_bit 8 w), ucast w]"

definition u32_from_be_bytes :: "u8 \<Rightarrow> u8 \<Rightarrow> u8 \<Rightarrow> u8 \<Rightarrow> u32" where
  "u32_from_be_bytes a b c d =
     push_bit 24 (ucast a) OR push_bit 16 (ucast b) OR push_bit 8 (ucast c) OR ucast d"

lemma length_be_bytes [simp]:
  "length (u16_to_be_bytes w) = 2" "length (u32_to_be_bytes v) = 4"
  by (simp_all add: u16_to_be_bytes_def u32_to_be_bytes_def)

lemma u16_be_roundtrip [wire_simps]:
  "u16_from_be_bytes (ucast (drop_bit 8 w)) (ucast w) = w"
  unfolding u16_from_be_bytes_def by (rule bit_eqI) (auto simp: bit_simps)

lemma u32_be_roundtrip [wire_simps]:
  "u32_from_be_bytes (ucast (drop_bit 24 w)) (ucast (drop_bit 16 w))
     (ucast (drop_bit 8 w)) (ucast w) = w"
  unfolding u32_from_be_bytes_def
proof (rule bit_eqI)
  fix n assume "possible_bit TYPE(u32) n"
  then consider "n < 8" | "8 \<le> n" "n < 16" | "16 \<le> n" "n < 24" | "24 \<le> n" "n < 32"
    by fastforce
  then show "bit (push_bit 24 (ucast (ucast (drop_bit 24 w) :: u8)) OR
      push_bit 16 (ucast (ucast (drop_bit 16 w) :: u8)) OR
      push_bit 8 (ucast (ucast (drop_bit 8 w) :: u8)) OR ucast (ucast w :: u8) :: u32) n = bit w n"
    by cases (auto simp: bit_simps)
qed

lemma bit_u8_high [simp]: "8 \<le> n \<Longrightarrow> \<not> bit (b :: u8) n"
  using bit_imp_le_length [of b n] by auto

lemma u16_be_roundtrip' [wire_simps]:
  "u16_to_be_bytes (u16_from_be_bytes a b) = [a, b]"
  unfolding u16_from_be_bytes_def u16_to_be_bytes_def
  by (auto intro!: bit_eqI simp: bit_simps)

lemma u32_be_roundtrip' [wire_simps]:
  "u32_to_be_bytes (u32_from_be_bytes a b c d) = [a, b, c, d]"
  unfolding u32_from_be_bytes_def u32_to_be_bytes_def
  by (auto intro!: bit_eqI simp: bit_simps)

subsection \<open>Shifts by seven bits\<close>

lemma unat_drop_bit_7: "unat (drop_bit 7 (v :: u64)) = unat v div 128"
  by (simp add: drop_bit_eq_div unat_div)

lemma drop_bit_7_less: "drop_bit 7 v \<noteq> 0 \<Longrightarrow> unat (drop_bit 7 v) < unat (v :: u64)"
proof -
  assume "drop_bit 7 v \<noteq> 0"
  then have "unat v div 128 \<noteq> 0"
    by (metis unat_drop_bit_7 unat_eq_zero)
  then show ?thesis by (simp add: unat_drop_bit_7)
qed

end
