(* ===== verification/BTree.thy ===== *)
theory BTree
  imports Prelude
begin

text \<open>
  The crate keeps its tables in \<open>alloc::collections::BTreeMap\<close> and relies on its iteration in
  key order (\<open>streams.iter_mut()\<close> in \<open>write_next\<close>). A table is modelled by the list of its
  entries in key order. Locale \<open>ordered_map\<close> is the contract of the collection, interpreted on
  these lists.
\<close>

type_synonym ('k, 'v) btree = "('k \<times> 'v) list"

definition bt_empty :: "('k, 'v) btree" where
  "bt_empty = []"

definition bt_get :: "('k, 'v) btree \<Rightarrow> 'k \<Rightarrow> 'v option" where
  "bt_get m k = map_of m k"

fun bt_insert :: "'k::linorder \<Rightarrow> 'v \<Rightarrow> ('k, 'v) btree \<Rightarrow> ('k, 'v) btree" where
  "bt_insert k v [] = [(k, v)]"
| "bt_insert k v ((k', v') # m) =
     (if k < k' then (k, v) # (k', v') # m
      else if k = k' then (k, v) # m
      else (k', v') # bt_insert k v m)"

definition bt_remove :: "'k \<Rightarrow> ('k, 'v) btree \<Rightarrow> ('k, 'v) btree" where
  "bt_remove k m = filter (\<lambda>e. fst e \<noteq> k) m"

definition bt_len :: "('k, 'v) btree \<Rightarrow> nat" where
  "bt_len m = length m"

definition bt_sorted :: "('k::linorder, 'v) btree \<Rightarrow> bool" where
  "bt_sorted m \<longleftrightarrow> sorted_wrt (<) (map fst m)"

locale ordered_map =
  fixes empty :: 'm
    and get :: "'m \<Rightarrow> 'k::linorder \<Rightarrow> 'v option"
    and insert :: "'k \<Rightarrow> 'v \<Rightarrow> 'm \<Rightarrow> 'm"
    and remove :: "'k \<Rightarrow> 'm \<Rightarrow> 'm"
    and entries :: "'m \<Rightarrow> ('k \<times> 'v) list"
    and invar :: "'m \<Rightarrow> bool"
  assumes get_empty: "get empty k = None"
    and get_insert: "get (insert k v m) k' = (if k' = k then Some v else get m k')"
    and get_remove: "get (remove k m) k' = (if k' = k then None else get m k')"
    and invar_empty: "invar empty"
    and invar_insert: "invar m \<Longrightarrow> invar (insert k v m)"
    and invar_remove: "invar m \<Longrightarrow> invar (remove k m)"
    and entries_get: "invar m \<Longrightarrow> (k, v) \<in> set (entries m) \<longleftrightarrow> get m k = Some v"
    and entries_ordered: "invar m \<Longrightarrow> sorted_wrt (<) (map fst (entries m))"
begin

lemma get_update_same: "get (insert k v (insert k w m)) k' = get (insert k v m) k'"
  by (simp add: get_insert)

lemma card_entries: "invar m \<Longrightarrow> card {k. get m k \<noteq> None} = length (entries m)"
proof -
  assume inv: "invar m"
  have "{k. get m k \<noteq> None} = set (map fst (entries m))"
    using entries_get [OF inv] by (force simp: image_iff)
  moreover have "distinct (map fst (entries m))"
    using entries_ordered [OF inv] strict_sorted_iff by blast
  ultimately show ?thesis by (metis distinct_card length_map)
qed

end

lemma bt_get_insert [simp]:
  "bt_get (bt_insert k v m) k' = (if k' = k then Some v else bt_get m k')"
  unfolding bt_get_def by (induction k v m rule: bt_insert.induct) auto

lemma bt_get_remove [simp]:
  "bt_get (bt_remove k m) k' = (if k' = k then None else bt_get m k')"
  unfolding bt_get_def bt_remove_def by (induction m) auto

lemma bt_get_empty [simp]: "bt_get bt_empty k = None" "bt_get [] k = None"
  by (simp_all add: bt_get_def bt_empty_def)

lemma fst_set_bt_insert: "fst ` set (bt_insert k v m) = insert k (fst ` set m)"
  by (induction k v m rule: bt_insert.induct) auto

lemma bt_sorted_empty [simp]: "bt_sorted bt_empty" "bt_sorted []"
  by (simp_all add: bt_sorted_def bt_empty_def)

lemma bt_sorted_insert [simp, intro]: "bt_sorted m \<Longrightarrow> bt_sorted (bt_insert k v m)"
proof (induction k v m rule: bt_insert.induct)
  case (2 k v k' v' m)
  have "fst ` set (bt_insert k v m) = insert k (fst ` set m)" by (rule fst_set_bt_insert)
  with 2 show ?case by (fastforce simp: bt_sorted_def)
qed (simp add: bt_sorted_def)

lemma bt_sorted_remove [simp, intro]: "bt_sorted m \<Longrightarrow> bt_sorted (bt_remove k m)"
  unfolding bt_sorted_def bt_remove_def by (induction m) auto

lemma bt_sorted_distinct: "bt_sorted m \<Longrightarrow> distinct (map fst m)"
  unfolding bt_sorted_def using strict_sorted_iff by blast

interpretation bt: ordered_map bt_empty bt_get bt_insert bt_remove "\<lambda>m. m" bt_sorted
proof unfold_locales
  fix m :: "('k::linorder, 'v) btree" and k v
  assume "bt_sorted m"
  then show "(k, v) \<in> set m \<longleftrightarrow> bt_get m k = Some v"
    unfolding bt_get_def by (simp add: bt_sorted_distinct)
qed (auto simp: bt_sorted_def [symmetric])

lemma bt_len_remove_le: "bt_len (bt_remove k m) \<le> bt_len m"
  by (simp add: bt_len_def bt_remove_def)

lemma bt_len_insert: "bt_sorted m \<Longrightarrow>
    bt_len (bt_insert k v m) = (if bt_get m k = None then Suc (bt_len m) else bt_len m)"
proof -
  have "k \<notin> fst ` set m \<Longrightarrow> length (bt_insert k v m) = Suc (length m)"
    by (induction k v m rule: bt_insert.induct) auto
  moreover have "bt_sorted m \<Longrightarrow> k \<in> fst ` set m \<Longrightarrow> length (bt_insert k v m) = length m"
    unfolding bt_sorted_def by (induction k v m rule: bt_insert.induct) auto
  moreover have "k \<in> fst ` set m \<longleftrightarrow> bt_get m k \<noteq> None"
    by (simp add: bt_get_def map_of_eq_None_iff)
  ultimately show "bt_sorted m \<Longrightarrow> ?thesis" by (simp add: bt_len_def)
qed

end
