(* ===== verification/YamuxHeaders.thy ===== *)
theory YamuxHeaders
  imports Prelude
begin

text \<open>
  \<open>src/layers/yamux/header.rs\<close>: the twelve-byte yamux frame header, its constructors, codec,
  stream identifiers and flags. The newtypes \<open>YamuxStreamId(u32)\<close> and \<open>FrameFlags(u16)\<close> are
  the words they wrap.
\<close>

type_synonym YamuxStreamId = u32
type_synonym FrameFlags = u16

definition YAMUX_FRAME_HEADER_SIZE :: nat where "YAMUX_FRAME_HEADER_SIZE = 12"
definition YAMUX_VERSION :: u8 where "YAMUX_VERSION = 0"

section \<open>Frame types and flags\<close>

datatype FrameType = FtData | FtWindowUpdate | FtPing | FtGoAway

fun FrameType_to_u8 :: "FrameType \<Rightarrow> u8" where
  "FrameType_to_u8 FtData = 0"
| "FrameType_to_u8 FtWindowUpdate = 1"
| "FrameType_to_u8 FtPing = 2"
| "FrameType_to_u8 FtGoAway = 3"

definition FrameType_from_u8 :: "u8 \<Rightarrow> FrameType option" where
  "FrameType_from_u8 val =
     (if val = 0 then Some FtData
      else if val = 1 then Some FtWindowUpdate
      else if val = 2 then Some FtPing
      else if val = 3 then Some FtGoAway
      else None)"

datatype GoAwayType = NormalTermination | ProtocolErrorGa | InternalErrorGa

definition GoAwayType_from_u32 :: "u32 \<Rightarrow> GoAwayType option" where
  "GoAwayType_from_u32 val =
     (if val = 0 then Some NormalTermination
      else if val = 1 then Some ProtocolErrorGa
      else if val = 2 then Some InternalErrorGa
      else None)"

datatype FrameFlag = Syn | Ack | Fin | Rst

fun FrameFlag_to_u16 :: "FrameFlag \<Rightarrow> u16" where
  "FrameFlag_to_u16 Syn = 1"
| "FrameFlag_to_u16 Ack = 2"
| "FrameFlag_to_u16 Fin = 4"
| "FrameFlag_to_u16 Rst = 8"

definition flags_empty :: FrameFlags where
  "flags_empty = 0"

definition flags_contains :: "FrameFlags \<Rightarrow> FrameFlag \<Rightarrow> bool" where
  "flags_contains fs f \<longleftrightarrow> fs AND FrameFlag_to_u16 f = FrameFlag_to_u16 f"

definition is_open_new_stream :: "FrameFlags \<Rightarrow> bool" where
  "is_open_new_stream fs \<longleftrightarrow>
     flags_contains fs Syn \<and> \<not> flags_contains fs Rst \<and> \<not> flags_contains fs Fin"

definition flags_from :: "FrameFlag \<Rightarrow> FrameFlags" where
  "flags_from f = FrameFlag_to_u16 f"

definition flag_or_flag :: "FrameFlag \<Rightarrow> FrameFlag \<Rightarrow> FrameFlags" where
  "flag_or_flag a b = FrameFlag_to_u16 a OR FrameFlag_to_u16 b"

definition flag_or_flags :: "FrameFlag \<Rightarrow> FrameFlags \<Rightarrow> FrameFlags" where
  "flag_or_flags a b = FrameFlag_to_u16 a OR b"

definition flags_or_flag :: "FrameFlags \<Rightarrow> FrameFlag \<Rightarrow> FrameFlags" where
  "flags_or_flag a b = a OR FrameFlag_to_u16 b"

definition flags_iter :: "FrameFlags \<Rightarrow> FrameFlag list" where
  "flags_iter fs = filter (flags_contains fs) [Syn, Ack, Fin, Rst]"

fun FrameFlag_fmt :: "FrameFlag \<Rightarrow> string" where
  "FrameFlag_fmt Syn = ''SYN''"
| "FrameFlag_fmt Ack = ''ACK''"
| "FrameFlag_fmt Fin = ''FIN''"
| "FrameFlag_fmt Rst = ''RST''"

text \<open>The display loop: a separator before every flag but the first.\<close>

fun flags_fmt_loop :: "bool \<Rightarrow> FrameFlag list \<Rightarrow> string" where
  "flags_fmt_loop is_fst [] = ''''"
| "flags_fmt_loop is_fst (f # fs) =
     (if is_fst then '''' else ''|'') @ FrameFlag_fmt f @ flags_fmt_loop False fs"

definition FrameFlags_fmt :: "FrameFlags \<Rightarrow> string" where
  "FrameFlags_fmt fs = flags_fmt_loop True (flags_iter fs)"

section \<open>Stream identifiers\<close>

definition sid_first :: YamuxStreamId where
  "sid_first = 1"

text \<open>\<open>increment\<close>: \<open>checked_add(2).expect(..)\<close>, a panic on overflow.\<close>

definition sid_increment :: "YamuxStreamId \<Rightarrow> YamuxStreamId option" where
  "sid_increment i = (if unat i + 2 < 2 ^ 32 then Some (i + 2) else None)"

definition sid_is_even :: "YamuxStreamId \<Rightarrow> bool" where
  "sid_is_even i \<longleftrightarrow> i AND 1 = 0"

definition sid_is_session_id :: "YamuxStreamId \<Rightarrow> bool" where
  "sid_is_session_id i \<longleftrightarrow> i = 0"

section \<open>Headers\<close>

record YamuxHeader =
  hversion :: u8
  hframe_type :: FrameType
  hflags :: FrameFlags
  hstream_id :: YamuxStreamId
  hlength :: u32

definition mk_header :: "FrameType \<Rightarrow> FrameFlags \<Rightarrow> YamuxStreamId \<Rightarrow> u32 \<Rightarrow> YamuxHeader" where
  "mk_header t f i n =
     \<lparr>hversion = YAMUX_VERSION, hframe_type = t, hflags = f, hstream_id = i, hlength = n\<rparr>"

definition hdr_send_data :: "YamuxStreamId \<Rightarrow> u32 \<Rightarrow> YamuxHeader" where
  "hdr_send_data i data_len = mk_header FtData flags_empty i data_len"

definition hdr_open_stream :: "YamuxStreamId \<Rightarrow> YamuxHeader" where
  "hdr_open_stream i = mk_header FtWindowUpdate (flags_from Syn) i 0"

definition hdr_accept_stream :: "YamuxStreamId \<Rightarrow> YamuxHeader" where
  "hdr_accept_stream i = mk_header FtWindowUpdate (flags_from Ack) i 0"

definition hdr_reset_stream :: "YamuxStreamId \<Rightarrow> YamuxHeader" where
  "hdr_reset_stream i = mk_header FtWindowUpdate (flags_from Rst) i 0"

definition hdr_close_stream :: "YamuxStreamId \<Rightarrow> YamuxHeader" where
  "hdr_close_stream i = mk_header FtWindowUpdate (flags_from Fin) i 0"

definition hdr_pong :: "YamuxStreamId \<Rightarrow> u32 \<Rightarrow> YamuxHeader" where
  "hdr_pong i data = mk_header FtPing (flags_from Ack) i data"

definition hdr_window_update :: "YamuxStreamId \<Rightarrow> u32 \<Rightarrow> YamuxHeader" where
  "hdr_window_update i delta = mk_header FtWindowUpdate flags_empty i delta"

definition header_encode :: "YamuxHeader \<Rightarrow> bytes" where
  "header_encode h =
     [hversion h, FrameType_to_u8 (hframe_type h)] @ u16_to_be_bytes (hflags h)
       @ u32_to_be_bytes (hstream_id h) @ u32_to_be_bytes (hlength h)"

datatype header_error = InvalidVersion u8 | InvalidFrameType u8

text \<open>\<open>decode\<close> takes a \<open>[u8; 12]\<close>: the model is applied to lists of length 12 only.\<close>

definition header_decode :: "bytes \<Rightarrow> header_error + YamuxHeader" where
  "header_decode buf =
     (if buf ! 0 \<noteq> YAMUX_VERSION then Inl (InvalidVersion (buf ! 0))
      else case FrameType_from_u8 (buf ! 1) of
        None \<Rightarrow> Inl (InvalidFrameType (buf ! 1))
      | Some frame_type \<Rightarrow>
          Inr \<lparr>hversion = buf ! 0, hframe_type = frame_type,
               hflags = u16_from_be_bytes (buf ! 2) (buf ! 3),
               hstream_id = u32_from_be_bytes (buf ! 4) (buf ! 5) (buf ! 6) (buf ! 7),
               hlength = u32_from_be_bytes (buf ! 8) (buf ! 9) (buf ! 10) (buf ! 11)\<rparr>)"

section \<open>Codec correctness\<close>

lemma length_header_encode [simp]: "length (header_encode h) = 12"
  by (simp add: header_encode_def)

lemma header_encode_nonempty [simp]: "header_encode h \<noteq> []"
  by (simp add: header_encode_def)

lemma FrameType_roundtrip [simp]: "FrameType_from_u8 (FrameType_to_u8 t) = Some t"
  by (cases t) (simp_all add: FrameType_from_u8_def)

lemma FrameType_from_u8_Some: "FrameType_from_u8 b = Some t \<Longrightarrow> FrameType_to_u8 t = b"
  by (auto simp: FrameType_from_u8_def split: if_splits)

lemma header_decode_encode [wire_simps]:
  "hversion h = YAMUX_VERSION \<Longrightarrow> header_decode (header_encode h) = Inr h"
  by (simp add: header_decode_def header_encode_def u16_to_be_bytes_def u32_to_be_bytes_def
      u16_be_roundtrip u32_be_roundtrip)

lemma header_encode_decode:
  assumes "length buf = 12" and "header_decode buf = Inr h"
  shows "header_encode h = buf" "hversion h = YAMUX_VERSION"
proof -
  obtain b0 b1 b2 b3 b4 b5 b6 b7 b8 b9 b10 b11
    where buf: "buf = [b0, b1, b2, b3, b4, b5, b6, b7, b8, b9, b10, b11]"
    using assms(1) by (auto simp: numeral_eq_Suc length_Suc_conv)
  show "header_encode h = buf" "hversion h = YAMUX_VERSION"
    using assms(2) unfolding buf
    by (auto simp: header_decode_def header_encode_def u16_be_roundtrip' u32_be_roundtrip'
        FrameType_from_u8_Some split: if_splits option.splits)
qed

lemma mk_header_version [simp]: "hversion (mk_header t f i n) = YAMUX_VERSION"
  by (simp add: mk_header_def)

lemmas hdr_defs = hdr_send_data_def hdr_open_stream_def hdr_accept_stream_def
  hdr_reset_stream_def hdr_close_stream_def hdr_pong_def hdr_window_update_def

lemma flags_contains_from [simp]: "flags_contains (flags_from f) g \<longleftrightarrow> f = g"
  by (cases f; cases g) (simp_all add: flags_contains_def flags_from_def)

lemma flags_contains_empty [simp]: "\<not> flags_contains flags_empty f"
  by (cases f) (simp_all add: flags_contains_def flags_empty_def)

lemma sid_is_even_unat: "sid_is_even i \<longleftrightarrow> even (unat i)"
  by (simp add: sid_is_even_def and_one_eq word_unat_eq_iff unat_mod even_iff_mod_2_eq_zero)

lemma sid_increment_unat: "sid_increment i = Some j \<Longrightarrow> unat j = unat i + 2"
  by (auto simp: sid_increment_def unat_word_ariths split: if_splits)

lemma sid_increment_parity:
  "sid_increment i = Some j \<Longrightarrow> sid_is_even j = sid_is_even i"
  by (simp add: sid_is_even_unat sid_increment_unat)

section \<open>Properties\<close>



end
