(* ===== verification/AsyncStream.thy ===== *)
theory AsyncStream
  imports Prelude
begin

text \<open>
  The byte stream interface of \<open>src/utils/async_stream.rs\<close> (the traits \<open>AsyncRead\<close> and
  \<open>AsyncWrite\<close> with their opaque errors) and its in-memory provider
  \<open>src/utils/testing/mock_stream.rs\<close>.

  An implementor of \<open>AsyncRead\<close> is a state type \<open>'r\<close> with an operation that polls
  \<open>read_exact\<close> on a buffer of \<open>n\<close> bytes: the outcome (the filled buffer or an error) and the
  stream afterwards. Locale \<open>async_read\<close> states what clients rely on; \<open>byte_source\<close> is the
  stronger contract of a stream whose pending content is a byte sequence.
\<close>

section \<open>The traits\<close>

datatype boxed_error = StringError string | OpaqueError nat

datatype async_read_error = AsyncReadError boxed_error
datatype async_write_error = AsyncWriteError boxed_error

definition read_error_from_string :: "string \<Rightarrow> async_read_error" where
  "read_error_from_string s = AsyncReadError (StringError s)"

definition write_error_from_string :: "string \<Rightarrow> async_write_error" where
  "write_error_from_string s = AsyncWriteError (StringError s)"

type_synonym 'r read_op = "'r \<Rightarrow> nat \<Rightarrow> (async_read_error + bytes) poll \<times> 'r"
type_synonym 'w write_op = "'w \<Rightarrow> bytes \<Rightarrow> (async_write_error + unit) poll \<times> 'w"

locale async_read =
  fixes rd :: "'r read_op"
    and left :: "'r \<Rightarrow> nat"
  assumes rd_length: "rd r n = (Ready (Inr bs), r') \<Longrightarrow> length bs = n"
    and rd_left: "rd r n = (Ready (Inr bs), r') \<Longrightarrow> left r' + n \<le> left r"
    and rd_mono: "left (snd (rd r n)) \<le> left r"

locale byte_source =
  fixes rd :: "'r read_op"
    and avail :: "'r \<Rightarrow> bytes"
  assumes rd_enough: "n \<le> length (avail r) \<Longrightarrow>
      \<exists>r'. rd r n = (Ready (Inr (take n (avail r))), r') \<and> avail r' = drop n (avail r)"
    and rd_short: "length (avail r) < n \<Longrightarrow> fst (rd r n) \<noteq> Ready (Inr bs)"
    and rd_short_avail: "length (avail r) < n \<Longrightarrow> length (avail (snd (rd r n))) \<le> length (avail r)"
begin

lemma rd_exact:
  assumes "avail r = bs @ rest" and "length bs = n"
  obtains r' where "rd r n = (Ready (Inr bs), r')" and "avail r' = rest"
  using rd_enough [of n r] assms by auto

lemma rd_ready_iff:
  assumes "rd r n = (Ready (Inr bs), r')"
  shows "n \<le> length (avail r) \<and> bs = take n (avail r) \<and> avail r' = drop n (avail r)"
proof -
  have "n \<le> length (avail r)"
    using assms rd_short [of r n bs] by (metis fst_conv not_le)
  with rd_enough [of n r] assms show ?thesis by auto
qed

lemma rd_avail_le: "length (avail (snd (rd r n))) \<le> length (avail r)"
  using rd_enough [of n r] rd_short_avail [of r n] by (cases "n \<le> length (avail r)") auto

end

sublocale byte_source \<subseteq> async_read rd "\<lambda>r. length (avail r)"
  by unfold_locales (auto dest: rd_ready_iff intro: rd_avail_le)

section \<open>The mock stream\<close>

text \<open>
  \<open>MockStream\<close>: two queues, one read by \<open>read_exact\<close> and one filled by \<open>write_all\<close>, both
  reachable through the test handle.
\<close>

record MockStream =
  ms_read_buf :: bytes
  ms_write_buf :: bytes

definition mock_new :: MockStream where
  "mock_new = \<lparr>ms_read_buf = [], ms_write_buf = []\<rparr>"

definition mock_read_exact :: "MockStream read_op" where
  "mock_read_exact s needed =
     (if length (ms_read_buf s) < needed then (Pending, s)
      else (Ready (Inr (take needed (ms_read_buf s))),
            s\<lparr>ms_read_buf := drop needed (ms_read_buf s)\<rparr>))"

definition mock_write_all :: "MockStream write_op" where
  "mock_write_all s data =
     (Ready (Inr ()), s\<lparr>ms_write_buf := ms_write_buf s @ data\<rparr>)"

definition mock_push :: "u8 \<Rightarrow> MockStream \<Rightarrow> MockStream" where
  "mock_push b s = s\<lparr>ms_read_buf := ms_read_buf s @ [b]\<rparr>"

definition mock_extend :: "bytes \<Rightarrow> MockStream \<Rightarrow> MockStream" where
  "mock_extend bs s = fold mock_push bs s"

definition mock_drain :: "nat \<Rightarrow> MockStream \<Rightarrow> (bytes \<times> MockStream) option" where
  "mock_drain n s =
     (if length (ms_write_buf s) < n then None
      else Some (take n (ms_write_buf s), s\<lparr>ms_write_buf := drop n (ms_write_buf s)\<rparr>))"

definition mock_drain_all :: "MockStream \<Rightarrow> bytes \<times> MockStream" where
  "mock_drain_all s = (ms_write_buf s, s\<lparr>ms_write_buf := []\<rparr>)"

lemma mock_extend_read_buf [simp]:
  "ms_read_buf (mock_extend bs s) = ms_read_buf s @ bs"
  "ms_write_buf (mock_extend bs s) = ms_write_buf s"
  unfolding mock_extend_def by (induction bs arbitrary: s) (simp_all add: mock_push_def)

interpretation mock: byte_source mock_read_exact ms_read_buf
  by unfold_locales (auto simp: mock_read_exact_def)

end
