(* ===== verification/Yamux.thy ===== *)
theory Yamux
  imports BTree YamuxHeaders AsyncStream
begin

text \<open>
  \<open>src/layers/yamux.rs\<close>, the session's state, the operations the layer above calls, and the
  read future \<open>read_next\<close> (the write future is in theory \<open>YamuxWrite\<close>, their joint execution
  in \<open>YamuxSession\<close>).

  \<open>SharedState\<close> is the record both futures borrow. The stored waker is the flag
  \<open>pending_write_waker\<close>: \<open>flush_writes\<close> takes and wakes it, which lets the executor poll the
  write future again. The read future is a state machine with three await points:
  \<open>AtTop\<close> (not yet awaiting), \<open>AtHeader\<close> (awaiting the twelve header bytes) and
  \<open>AtData\<close> (awaiting the payload of a data frame). One poll runs it until the stream is
  \<open>Pending\<close> or it returns; the loop is bounded by fuel, and \<open>read_next_returns\<close> shows that four
  units more than the number of bytes the stream can still deliver are always enough.
\<close>

section \<open>State\<close>

definition DEFAULT_WINDOW :: nat where "DEFAULT_WINDOW = 256 * 1024"
definition MAX_STREAMS :: nat where "MAX_STREAMS = 256"
definition MAX_FRAME_SIZE :: nat where "MAX_FRAME_SIZE = 512 * 1024"
definition MAX_SEND_SIZE :: nat where "MAX_SEND_SIZE = 64 * 1024"

datatype yamux_error =
    YAsyncRead async_read_error
  | YAsyncWrite async_write_error
  | YHeaderDecodeError header_error
  | YStreamNotFound YamuxStreamId
  | YDataSentAfterFin YamuxStreamId
  | YInvalidStreamId YamuxStreamId
  | YDuplicateStreamId YamuxStreamId
  | YFrameTooLarge nat
  | YServerInternalError
  | YServerProtocolError
  | YServerUnknownError u32

datatype OutputState = OpenedByRemote | OData nat | ClosedByRemote

record Output =
  out_stream_id :: YamuxStreamId
  out_state :: OutputState

abbreviation mk_output :: "YamuxStreamId \<Rightarrow> OutputState \<Rightarrow> Output" where
  "mk_output i s \<equiv> \<lparr>out_stream_id = i, out_state = s\<rparr>"

datatype OpenState = Open | FinByUs | FinByThem | Reset

fun set_fin_by_them :: "OpenState \<Rightarrow> OpenState" where
  "set_fin_by_them Open = FinByThem"
| "set_fin_by_them FinByThem = FinByThem"
| "set_fin_by_them Reset = Reset"
| "set_fin_by_them FinByUs = Reset"

fun set_fin_by_us :: "OpenState \<Rightarrow> OpenState" where
  "set_fin_by_us Open = FinByUs"
| "set_fin_by_us FinByUs = FinByUs"
| "set_fin_by_us Reset = Reset"
| "set_fin_by_us FinByThem = Reset"

datatype BufferedOutboundMessage =
    MAccept
  | MOpen
  | MData bytes
  | MWindowUpdate u32
  | MClose
  | MReset

record StreamState =
  send_window :: nat
  recv_window :: nat
  open_state :: OpenState
  outbound_buf :: "BufferedOutboundMessage list"

definition StreamState_new :: StreamState where
  "StreamState_new = \<lparr>send_window = DEFAULT_WINDOW, recv_window = DEFAULT_WINDOW,
     open_state = Open, outbound_buf = []\<rparr>"

record SharedState =
  streams :: "(YamuxStreamId, StreamState) btree"
  write_buf :: bytes
  output_buf :: "Output option"
  has_pending_writes :: bool
  pending_write_waker :: bool

definition SharedState_new :: SharedState where
  "SharedState_new = \<lparr>streams = bt_empty, write_buf = [], output_buf = None,
     has_pending_writes = False, pending_write_waker = False\<rparr>"

definition flush_writes :: "SharedState \<Rightarrow> SharedState" where
  "flush_writes sh = sh\<lparr>has_pending_writes := True, pending_write_waker := False\<rparr>"

definition get_stream :: "SharedState \<Rightarrow> YamuxStreamId \<Rightarrow> StreamState option" where
  "get_stream sh i = bt_get (streams sh) i"

definition set_stream :: "YamuxStreamId \<Rightarrow> StreamState \<Rightarrow> SharedState \<Rightarrow> SharedState" where
  "set_stream i s sh = sh\<lparr>streams := bt_insert i s (streams sh)\<rparr>"

definition push_msg :: "BufferedOutboundMessage \<Rightarrow> StreamState \<Rightarrow> StreamState" where
  "push_msg m s = s\<lparr>outbound_buf := outbound_buf s @ [m]\<rparr>"

section \<open>Operations of the layer above\<close>

text \<open>
  The part of \<open>YamuxSession\<close> these operations touch is the shared state and, for
  \<open>open_stream\<close>, the next stream identifier. \<open>None\<close> is the overflow panic of \<open>increment\<close>.
\<close>

definition yamux_open_stream ::
  "YamuxStreamId \<Rightarrow> SharedState \<Rightarrow> (YamuxStreamId \<times> YamuxStreamId \<times> SharedState) option" where
  "yamux_open_stream next_stream_id sh =
     (let stream_id = next_stream_id in
      case sid_increment next_stream_id of
        None \<Rightarrow> None
      | Some next' \<Rightarrow>
          (let stream = (case get_stream sh stream_id of
                           Some s \<Rightarrow> s | None \<Rightarrow> StreamState_new)
           in Some (stream_id, next',
                flush_writes (set_stream stream_id (push_msg MOpen stream) sh))))"

definition yamux_send_data ::
  "YamuxStreamId \<Rightarrow> bytes \<Rightarrow> SharedState \<Rightarrow> (yamux_error + unit) \<times> SharedState" where
  "yamux_send_data stream_id data sh =
     (case get_stream sh stream_id of
        None \<Rightarrow> (Inl (YStreamNotFound stream_id), sh)
      | Some stream \<Rightarrow>
          (let q = outbound_buf stream;
               append_new = flush_writes (set_stream stream_id (push_msg (MData data) stream) sh)
           in if q = [] then (Inr (), append_new)
              else case last q of
                MData buffered_data \<Rightarrow>
                  (Inr (), flush_writes (set_stream stream_id
                     (stream\<lparr>outbound_buf := butlast q @ [MData (buffered_data @ data)]\<rparr>) sh))
              | MAccept \<Rightarrow> (Inr (), append_new)
              | MOpen \<Rightarrow> (Inr (), append_new)
              | MWindowUpdate _ \<Rightarrow> (Inr (), append_new)
              | MClose \<Rightarrow> (Inl (YStreamNotFound stream_id), sh)
              | MReset \<Rightarrow> (Inl (YStreamNotFound stream_id), sh)))"

definition yamux_close_stream :: "YamuxStreamId \<Rightarrow> SharedState \<Rightarrow> SharedState" where
  "yamux_close_stream stream_id sh =
     (case get_stream sh stream_id of
        None \<Rightarrow> sh
      | Some stream \<Rightarrow>
          (if outbound_buf stream \<noteq> [] \<and> last (outbound_buf stream) = MClose then sh
           else flush_writes (set_stream stream_id (push_msg MClose stream) sh)))"

definition yamux_close_stream_immediately :: "YamuxStreamId \<Rightarrow> SharedState \<Rightarrow> SharedState" where
  "yamux_close_stream_immediately stream_id sh =
     (case get_stream sh stream_id of
        None \<Rightarrow> sh
      | Some stream \<Rightarrow>
          flush_writes (set_stream stream_id
            (stream\<lparr>open_state := set_fin_by_us (open_state stream), outbound_buf := [MClose]\<rparr>) sh))"

definition reset_stream_immediately_with_shared_state ::
  "YamuxStreamId \<Rightarrow> SharedState \<Rightarrow> SharedState" where
  "reset_stream_immediately_with_shared_state stream_id sh =
     (case get_stream sh stream_id of
        None \<Rightarrow> sh
      | Some stream \<Rightarrow>
          flush_writes (set_stream stream_id
            (stream\<lparr>open_state := Reset, outbound_buf := [MReset]\<rparr>) sh))"

definition yamux_reset_stream_immediately :: "YamuxStreamId \<Rightarrow> SharedState \<Rightarrow> SharedState" where
  "yamux_reset_stream_immediately stream_id sh =
     reset_stream_immediately_with_shared_state stream_id sh"

section \<open>Frame handlers of the read future\<close>

text \<open>A handler either loops around (\<open>Continue\<close>) or returns from \<open>read_next\<close>.\<close>

datatype loop_step = Continue | Return "yamux_error + Output option"

text \<open>\<open>Inr True\<close>: the stream was accepted and is in the table; \<open>Inr False\<close>: ignore the frame.\<close>

definition negotiate_new_stream_request ::
  "YamuxHeader \<Rightarrow> SharedState \<Rightarrow> (yamux_error + bool) \<times> SharedState" where
  "negotiate_new_stream_request hdr sh0 =
     (let sh = flush_writes sh0; stream_id = hstream_id hdr in
      if \<not> sid_is_even stream_id \<or> sid_is_session_id stream_id
        then (Inl (YInvalidStreamId stream_id), sh)
      else if MAX_STREAMS \<le> bt_len (streams sh)
        then (Inr False, sh\<lparr>write_buf := write_buf sh @ header_encode (hdr_reset_stream stream_id)\<rparr>)
      else if get_stream sh stream_id \<noteq> None
        then (Inl (YDuplicateStreamId stream_id), sh)
      else (Inr True, set_stream stream_id (push_msg MAccept StreamState_new) sh))"

text \<open>The stream a data or window update frame is about, and whether the frame opened it.\<close>

definition frame_stream ::
  "YamuxHeader \<Rightarrow> SharedState \<Rightarrow> (yamux_error + (StreamState \<times> bool) option) \<times> SharedState" where
  "frame_stream hdr sh =
     (if is_open_new_stream (hflags hdr) then
        (case negotiate_new_stream_request hdr sh of
           (Inl e, sh') \<Rightarrow> (Inl e, sh')
         | (Inr False, sh') \<Rightarrow> (Inr None, sh')
         | (Inr True, sh') \<Rightarrow>
             (Inr (map_option (\<lambda>s. (s, True)) (get_stream sh' (hstream_id hdr))), sh'))
      else (Inr (map_option (\<lambda>s. (s, False)) (get_stream sh (hstream_id hdr))), sh))"

text \<open>
  A data frame, after its payload was read: bookkeeping on the stream (window, RST, FIN,
  window update), then the output.
\<close>

definition data_bookkeeping ::
  "YamuxHeader \<Rightarrow> StreamState \<Rightarrow> SharedState \<Rightarrow> SharedState" where
  "data_bookkeeping hdr stream0 sh =
     (let stream_id = hstream_id hdr; flags = hflags hdr; data_len = unat (hlength hdr);
          stream = stream0\<lparr>recv_window := recv_window stream0 - data_len\<rparr>;
          closed = Some (mk_output stream_id ClosedByRemote)
      in if flags_contains flags Rst then
           sh\<lparr>streams := bt_remove stream_id (streams sh), output_buf := closed\<rparr>
         else if flags_contains flags Fin then
           (set_stream stream_id (stream\<lparr>open_state := FinByThem\<rparr>) sh)\<lparr>output_buf := closed\<rparr>
         else if recv_window stream < MAX_FRAME_SIZE div 2 then
           (let delta = MAX_FRAME_SIZE - recv_window stream
            in flush_writes (set_stream stream_id
                 (push_msg (MWindowUpdate (of_nat delta))
                   (stream\<lparr>recv_window := recv_window stream + delta\<rparr>)) sh))
         else set_stream stream_id stream sh)"

definition handle_data :: "YamuxHeader \<Rightarrow> SharedState \<Rightarrow> loop_step \<times> SharedState" where
  "handle_data hdr sh0 =
     (let stream_id = hstream_id hdr; data_len = unat (hlength hdr) in
      case frame_stream hdr sh0 of
        (Inl e, sh) \<Rightarrow> (Return (Inl e), sh)
      | (Inr None, sh) \<Rightarrow> (Continue, sh)
      | (Inr (Some (stream, is_new)), sh) \<Rightarrow>
          (case open_state stream of
             FinByThem \<Rightarrow> (Return (Inl (YDataSentAfterFin stream_id)), sh)
           | Reset \<Rightarrow> (Continue, sh)
           | _ \<Rightarrow>
               (let sh' = data_bookkeeping hdr stream sh in
                if data_len = 0 \<and> is_new then
                  (Return (Inr (Some (mk_output stream_id OpenedByRemote))), sh')
                else if data_len = 0 then (Continue, sh')
                else if is_new then
                  (Return (Inr (Some (mk_output stream_id OpenedByRemote))),
                   sh'\<lparr>output_buf := Some (mk_output stream_id (OData data_len))\<rparr>)
                else (Return (Inr (Some (mk_output stream_id (OData data_len)))), sh'))))"

definition handle_window_update :: "YamuxHeader \<Rightarrow> SharedState \<Rightarrow> loop_step \<times> SharedState" where
  "handle_window_update hdr sh0 =
     (let stream_id = hstream_id hdr; flags = hflags hdr in
      case frame_stream hdr (flush_writes sh0) of
        (Inl e, sh) \<Rightarrow> (Return (Inl e), sh)
      | (Inr None, sh) \<Rightarrow> (Continue, sh)
      | (Inr (Some (stream0, is_new)), sh) \<Rightarrow>
          (if open_state stream0 = Reset then (Continue, sh)
           else
             let stream = stream0\<lparr>send_window :=
                            saturating_add (send_window stream0) (unat (hlength hdr))\<rparr>;
                 closed = Return (Inr (Some (mk_output stream_id ClosedByRemote)))
             in if flags_contains flags Rst then
                  (closed, sh\<lparr>streams := bt_remove stream_id (streams sh)\<rparr>)
                else if flags_contains flags Fin then
                  (closed, set_stream stream_id
                     (stream\<lparr>open_state := set_fin_by_them (open_state stream)\<rparr>) sh)
                else if is_new then
                  (Return (Inr (Some (mk_output stream_id OpenedByRemote))),
                   set_stream stream_id stream sh)
                else (Continue, set_stream stream_id stream sh)))"

definition handle_ping :: "YamuxHeader \<Rightarrow> SharedState \<Rightarrow> loop_step \<times> SharedState" where
  "handle_ping hdr sh =
     (let stream_id = hstream_id hdr in
      if \<not> sid_is_session_id stream_id
        then (Continue, reset_stream_immediately_with_shared_state stream_id sh)
      else (Continue, flush_writes
              (sh\<lparr>write_buf := write_buf sh @ header_encode (hdr_pong stream_id (hlength hdr))\<rparr>)))"

definition handle_goaway :: "YamuxHeader \<Rightarrow> SharedState \<Rightarrow> loop_step \<times> SharedState" where
  "handle_goaway hdr sh =
     (let stream_id = hstream_id hdr in
      if \<not> sid_is_session_id stream_id
        then (Continue, reset_stream_immediately_with_shared_state stream_id sh)
      else case GoAwayType_from_u32 (hlength hdr) of
          Some InternalErrorGa \<Rightarrow> (Return (Inl YServerInternalError), sh)
        | Some ProtocolErrorGa \<Rightarrow> (Return (Inl YServerProtocolError), sh)
        | None \<Rightarrow> (Return (Inl (YServerUnknownError (hlength hdr))), sh)
        | Some NormalTermination \<Rightarrow> (Return (Inr None), sh))"

text \<open>All frames but data frames act on the header alone.\<close>

definition handle_frame :: "YamuxHeader \<Rightarrow> SharedState \<Rightarrow> loop_step \<times> SharedState" where
  "handle_frame hdr sh =
     (case hframe_type hdr of
        FtData \<Rightarrow> handle_data hdr sh
      | FtWindowUpdate \<Rightarrow> handle_window_update hdr sh
      | FtPing \<Rightarrow> handle_ping hdr sh
      | FtGoAway \<Rightarrow> handle_goaway hdr sh)"

section \<open>The read future\<close>

datatype read_pc = AtTop | AtHeader | AtData YamuxHeader

record 'r ReadFuture =
  rf_pc :: read_pc
  rf_reader :: 'r
  rf_buf :: bytes

definition write_front :: "bytes \<Rightarrow> bytes \<Rightarrow> bytes" where
  "write_front bs buf = bs @ drop (length bs) buf"

text \<open>The outcome of running the future up to the next decision.\<close>

datatype read_step = RPending | RLoop | RReturn "yamux_error + Output option"

definition after_handler :: "loop_step \<Rightarrow> read_step" where
  "after_handler s = (case s of Continue \<Rightarrow> RLoop | Return r \<Rightarrow> RReturn r)"

definition read_at_top ::
  "'r ReadFuture \<Rightarrow> SharedState \<Rightarrow> read_step \<times> 'r ReadFuture \<times> SharedState" where
  "read_at_top f sh =
     (case output_buf sh of
        Some output \<Rightarrow> (RReturn (Inr (Some output)), f, sh\<lparr>output_buf := None\<rparr>)
      | None \<Rightarrow> (RLoop, f\<lparr>rf_pc := AtHeader\<rparr>, sh))"

definition read_at_header ::
  "'r read_op \<Rightarrow> 'r ReadFuture \<Rightarrow> SharedState \<Rightarrow> read_step \<times> 'r ReadFuture \<times> SharedState" where
  "read_at_header rd f sh =
     (case rd (rf_reader f) YAMUX_FRAME_HEADER_SIZE of
        (Pending, r) \<Rightarrow> (RPending, f\<lparr>rf_reader := r\<rparr>, sh)
      | (Ready (Inl e), r) \<Rightarrow> (RReturn (Inl (YAsyncRead e)), f\<lparr>rf_reader := r\<rparr>, sh)
      | (Ready (Inr hdr_buf), r) \<Rightarrow>
          (let f = f\<lparr>rf_reader := r\<rparr> in
           case header_decode hdr_buf of
             Inl e \<Rightarrow> (RReturn (Inl (YHeaderDecodeError e)), f, sh)
           | Inr hdr \<Rightarrow>
               (if hframe_type hdr = FtData then
                  (if MAX_FRAME_SIZE < unat (hlength hdr)
                   then (RReturn (Inl (YFrameTooLarge (unat (hlength hdr)))), f, sh)
                   else (RLoop, f\<lparr>rf_pc := AtData hdr\<rparr>, sh))
                else (case handle_frame hdr sh of
                        (st, sh') \<Rightarrow> (after_handler st, f\<lparr>rf_pc := AtTop\<rparr>, sh')))))"

definition read_at_data ::
  "'r read_op \<Rightarrow> YamuxHeader \<Rightarrow> 'r ReadFuture \<Rightarrow> SharedState
     \<Rightarrow> read_step \<times> 'r ReadFuture \<times> SharedState" where
  "read_at_data rd hdr f sh =
     (case rd (rf_reader f) (unat (hlength hdr)) of
        (Pending, r) \<Rightarrow> (RPending, f\<lparr>rf_reader := r\<rparr>, sh)
      | (Ready (Inl e), r) \<Rightarrow> (RReturn (Inl (YAsyncRead e)), f\<lparr>rf_reader := r\<rparr>, sh)
      | (Ready (Inr bs), r) \<Rightarrow>
          (case handle_frame hdr sh of
             (st, sh') \<Rightarrow> (after_handler st,
                f\<lparr>rf_pc := AtTop, rf_reader := r, rf_buf := write_front bs (rf_buf f)\<rparr>, sh')))"

definition read_advance ::
  "'r read_op \<Rightarrow> 'r ReadFuture \<Rightarrow> SharedState \<Rightarrow> read_step \<times> 'r ReadFuture \<times> SharedState" where
  "read_advance rd f sh =
     (case rf_pc f of
        AtTop \<Rightarrow> read_at_top f sh
      | AtHeader \<Rightarrow> read_at_header rd f sh
      | AtData hdr \<Rightarrow> read_at_data rd hdr f sh)"

text \<open>One poll of \<open>read_next\<close>: \<open>None\<close> only if the fuel runs out.\<close>

fun read_next ::
  "'r read_op \<Rightarrow> nat \<Rightarrow> 'r ReadFuture \<Rightarrow> SharedState
     \<Rightarrow> ((yamux_error + Output option) poll \<times> 'r ReadFuture \<times> SharedState) option" where
  "read_next rd 0 f sh = None"
| "read_next rd (Suc fuel) f sh =
     (case read_advance rd f sh of
        (RPending, f', sh') \<Rightarrow> Some (Pending, f', sh')
      | (RReturn r, f', sh') \<Rightarrow> Some (Ready r, f', sh')
      | (RLoop, f', sh') \<Rightarrow> read_next rd fuel f' sh')"

section \<open>The session invariant\<close>

text \<open>
  Every stream the remote may still send on has been granted a receive window between half a
  frame and a full frame; send windows stay in \<open>usize\<close>; no table entry is the session stream, and
  odd identifiers are ours, below the next one.
\<close>

definition stream_ok :: "StreamState \<Rightarrow> bool" where
  "stream_ok s \<longleftrightarrow> send_window s \<le> usize_max \<and>
     (open_state s = Open \<or> open_state s = FinByUs \<longrightarrow>
        DEFAULT_WINDOW \<le> recv_window s \<and> recv_window s \<le> MAX_FRAME_SIZE)"

definition id_ok :: "YamuxStreamId \<Rightarrow> YamuxStreamId \<Rightarrow> bool" where
  "id_ok next_id i \<longleftrightarrow> i \<noteq> 0 \<and> (sid_is_even i \<or> i < next_id)"

definition session_inv :: "YamuxStreamId \<Rightarrow> SharedState \<Rightarrow> bool" where
  "session_inv next_id sh \<longleftrightarrow>
     bt_sorted (streams sh) \<and> \<not> sid_is_even next_id \<and>
     (\<forall>i s. get_stream sh i = Some s \<longrightarrow> id_ok next_id i \<and> stream_ok s)"

lemma get_stream_simps [simp]:
  "get_stream (flush_writes sh) i = get_stream sh i"
  "get_stream (set_stream j s sh) i = (if i = j then Some s else get_stream sh i)"
  "get_stream (sh\<lparr>write_buf := w\<rparr>) i = get_stream sh i"
  "get_stream (sh\<lparr>output_buf := ob\<rparr>) i = get_stream sh i"
  "get_stream (sh\<lparr>streams := bt_remove j (streams sh)\<rparr>) i = (if i = j then None else get_stream sh i)"
  by (simp_all add: get_stream_def flush_writes_def set_stream_def)

lemma streams_simps [simp]:
  "streams (flush_writes sh) = streams sh"
  "streams (set_stream j s sh) = bt_insert j s (streams sh)"
  by (simp_all add: flush_writes_def set_stream_def)

lemma session_inv_frame [simp]:
  "session_inv n (flush_writes sh) = session_inv n sh"
  "session_inv n (sh\<lparr>write_buf := w\<rparr>) = session_inv n sh"
  "session_inv n (sh\<lparr>output_buf := ob\<rparr>) = session_inv n sh"
  by (simp_all add: session_inv_def)

lemma session_inv_set [intro]:
  "session_inv n sh \<Longrightarrow> id_ok n i \<Longrightarrow> stream_ok s \<Longrightarrow> session_inv n (set_stream i s sh)"
  by (simp add: session_inv_def)

lemma session_inv_remove [intro]:
  "session_inv n sh \<Longrightarrow> session_inv n (sh\<lparr>streams := bt_remove i (streams sh)\<rparr>)"
  by (auto simp: session_inv_def get_stream_def split: if_splits)

lemma session_inv_get:
  "session_inv n sh \<Longrightarrow> get_stream sh i = Some s \<Longrightarrow> id_ok n i \<and> stream_ok s"
  by (simp add: session_inv_def)

lemma stream_ok_push [simp]: "stream_ok (push_msg m s) = stream_ok s"
  by (simp add: stream_ok_def push_msg_def)

lemma stream_ok_outbound [simp]: "stream_ok (s\<lparr>outbound_buf := q\<rparr>) = stream_ok s"
  by (simp add: stream_ok_def)

lemma stream_ok_new [simp]: "stream_ok StreamState_new"
  by (simp add: stream_ok_def StreamState_new_def usize_max_def DEFAULT_WINDOW_def
      MAX_FRAME_SIZE_def)

lemma session_inv_new: "session_inv sid_first SharedState_new"
  by (simp add: session_inv_def SharedState_new_def sid_first_def sid_is_even_def get_stream_def)

lemma fin_state_simps [simp]:
  "set_fin_by_us st \<noteq> Open" "set_fin_by_us st \<noteq> FinByThem"
  "set_fin_by_them st \<noteq> Open" "set_fin_by_them st \<noteq> FinByUs"
  "set_fin_by_us st = FinByUs \<longleftrightarrow> st = Open \<or> st = FinByUs"
  by (cases st; simp)+

lemma session_inv_open_stream:
  assumes "session_inv n sh" and "yamux_open_stream n sh = Some (i, n', sh')"
  shows "session_inv n' sh' \<and> i = n"
proof -
  from assms(2) have n': "sid_increment n = Some n'" and i: "i = n"
    and sh': "sh' = flush_writes (set_stream n (push_msg MOpen
        (case get_stream sh n of Some s \<Rightarrow> s | None \<Rightarrow> StreamState_new)) sh)"
    by (auto simp: yamux_open_stream_def Let_def split: option.splits)
  have lt: "n < n'" using sid_increment_unat [OF n'] by (simp add: word_less_nat_alt)
  have mono: "id_ok n j \<Longrightarrow> id_ok n' j" for j
    using lt by (auto simp: id_ok_def)
  have "\<not> sid_is_even n" using assms(1) by (simp add: session_inv_def)
  then have "n \<noteq> 0" by (auto simp: sid_is_even_def)
  with lt have "id_ok n' n" by (simp add: id_ok_def)
  moreover have "session_inv n' sh"
    using assms(1) mono sid_increment_parity [OF n'] by (simp add: session_inv_def)
  moreover have "stream_ok (case get_stream sh n of Some s \<Rightarrow> s | None \<Rightarrow> StreamState_new)"
    using session_inv_get [OF assms(1)] by (auto split: option.splits)
  ultimately show ?thesis unfolding sh' i by auto
qed

lemma session_inv_send_data:
  assumes "session_inv n sh" shows "session_inv n (snd (yamux_send_data i d sh))"
  using assms session_inv_get [OF assms]
  by (auto simp: yamux_send_data_def Let_def split: option.splits BufferedOutboundMessage.splits)

lemma session_inv_close_stream:
  assumes "session_inv n sh" shows "session_inv n (yamux_close_stream i sh)"
  using assms session_inv_get [OF assms]
  by (auto simp: yamux_close_stream_def split: option.splits)

lemma session_inv_close_immediately:
  assumes "session_inv n sh" shows "session_inv n (yamux_close_stream_immediately i sh)"
  using assms session_inv_get [OF assms]
  by (auto simp: yamux_close_stream_immediately_def stream_ok_def split: option.splits
      intro!: session_inv_set)

lemma session_inv_reset:
  assumes "session_inv n sh"
  shows "session_inv n (reset_stream_immediately_with_shared_state i sh)"
  using assms session_inv_get [OF assms]
  by (auto simp: reset_stream_immediately_with_shared_state_def stream_ok_def
      split: option.splits intro!: session_inv_set)

lemma session_inv_negotiate:
  assumes "session_inv n sh" shows "session_inv n (snd (negotiate_new_stream_request hdr sh))"
  using assms
  by (auto simp: negotiate_new_stream_request_def Let_def id_ok_def sid_is_session_id_def
      intro!: session_inv_set)

lemma frame_stream_get:
  assumes "frame_stream hdr sh = (Inr (Some (s, is_new)), sh')"
  shows "get_stream sh' (hstream_id hdr) = Some s"
  using assms by (auto simp: frame_stream_def split: if_splits prod.splits sum.splits bool.splits)

lemma session_inv_frame_stream:
  assumes "session_inv n sh" shows "session_inv n (snd (frame_stream hdr sh))"
  using assms session_inv_negotiate [OF assms, of hdr]
  by (auto simp: frame_stream_def split: if_splits prod.splits sum.splits bool.splits)

lemma session_inv_bookkeeping:
  assumes "session_inv n sh" and "get_stream sh (hstream_id hdr) = Some s"
    and "open_state s = Open \<or> open_state s = FinByUs"
  shows "session_inv n (data_bookkeeping hdr s sh)"
proof -
  from session_inv_get [OF assms(1,2)] have ok: "id_ok n (hstream_id hdr)" "stream_ok s" by auto
  have half: "MAX_FRAME_SIZE div 2 = DEFAULT_WINDOW"
    by (simp add: MAX_FRAME_SIZE_def DEFAULT_WINDOW_def)
  show ?thesis
    using assms ok unfolding data_bookkeeping_def Let_def half
    by (auto simp: stream_ok_def push_msg_def DEFAULT_WINDOW_def MAX_FRAME_SIZE_def
        intro!: session_inv_set session_inv_remove)
qed

lemma session_inv_handle_data:
  assumes "session_inv n sh" shows "session_inv n (snd (handle_data hdr sh))"
proof -
  obtain res sh1 where fs: "frame_stream hdr sh = (res, sh1)" by force
  then have inv: "session_inv n sh1"
    using session_inv_frame_stream [OF assms, of hdr] by simp
  show ?thesis
  proof (cases "\<exists>s is_new. res = Inr (Some (s, is_new))")
    case True
    then obtain s is_new where res: "res = Inr (Some (s, is_new))" by blast
    have get: "get_stream sh1 (hstream_id hdr) = Some s"
      using frame_stream_get fs res by blast
    show ?thesis
      using fs res inv session_inv_bookkeeping [OF inv get]
      by (cases "open_state s") (auto simp: handle_data_def Let_def)
  next
    case False
    then have "res = Inr None \<or> (\<exists>e. res = Inl e)"
      by (metis option.exhaust prod.exhaust sum.exhaust)
    with fs inv show ?thesis by (auto simp: handle_data_def)
  qed
qed

lemma session_inv_handle_window_update:
  assumes "session_inv n sh" shows "session_inv n (snd (handle_window_update hdr sh))"
proof -
  obtain res sh1 where fs: "frame_stream hdr (flush_writes sh) = (res, sh1)" by force
  then have inv: "session_inv n sh1"
    using session_inv_frame_stream [of n "flush_writes sh" hdr] assms by simp
  show ?thesis
  proof (cases "\<exists>s is_new. res = Inr (Some (s, is_new))")
    case True
    then obtain s is_new where res: "res = Inr (Some (s, is_new))" by blast
    have "get_stream sh1 (hstream_id hdr) = Some s"
      using frame_stream_get fs res by blast
    from session_inv_get [OF inv this] show ?thesis
      using fs res inv saturating_add_bounds(1)
      by (auto simp: handle_window_update_def Let_def stream_ok_def
          intro!: session_inv_set session_inv_remove)
  next
    case False
    then have "res = Inr None \<or> (\<exists>e. res = Inl e)"
      by (metis option.exhaust prod.exhaust sum.exhaust)
    with fs inv show ?thesis by (auto simp: handle_window_update_def)
  qed
qed

lemma session_inv_handle_frame:
  assumes "session_inv n sh" shows "session_inv n (snd (handle_frame hdr sh))"
  using assms session_inv_handle_data [OF assms] session_inv_handle_window_update [OF assms]
    session_inv_reset [OF assms]
  by (auto simp: handle_frame_def handle_ping_def handle_goaway_def Let_def
      split: FrameType.splits option.splits GoAwayType.splits)

lemma session_inv_read_advance:
  assumes "session_inv n sh" and "read_advance rd f sh = (st, f', sh')"
  shows "session_inv n sh'"
  using assms session_inv_handle_frame [OF assms(1)]
  by (auto simp: read_advance_def read_at_top_def read_at_header_def read_at_data_def Let_def
      split: read_pc.splits option.splits prod.splits poll.splits sum.splits if_splits)
     (metis snd_conv)+

lemma session_inv_read_next:
  "session_inv n sh \<Longrightarrow> read_next rd fuel f sh = Some (res, f', sh') \<Longrightarrow> session_inv n sh'"
proof (induction fuel arbitrary: f sh)
  case (Suc fuel)
  obtain st f1 sh1 where adv: "read_advance rd f sh = (st, f1, sh1)"
    by (metis prod_cases3)
  with Suc session_inv_read_advance [OF Suc.prems(1) adv] show ?case
    by (cases st) auto
qed simp

section \<open>The read future returns\<close>

fun pc_rank :: "read_pc \<Rightarrow> nat" where
  "pc_rank AtTop = 2"
| "pc_rank AtHeader = 1"
| "pc_rank (AtData _) = 3"

context async_read
begin

lemma read_advance_decreases:
  assumes "read_advance rd f sh = (RLoop, f', sh')"
  shows "left (rf_reader f') + pc_rank (rf_pc f') < left (rf_reader f) + pc_rank (rf_pc f)"
  using assms
proof (cases "rf_pc f")
  case AtTop
  with assms show ?thesis
    by (auto simp: read_advance_def read_at_top_def split: option.splits)
next
  case AtHeader
  with assms obtain hdr_buf r where rd: "rd (rf_reader f) 12 = (Ready (Inr hdr_buf), r)"
    and f': "rf_reader f' = r" "pc_rank (rf_pc f') \<le> 3"
    by (auto simp: read_advance_def read_at_header_def YAMUX_FRAME_HEADER_SIZE_def Let_def
        split: prod.splits poll.splits sum.splits if_splits)
  from rd_left [OF rd] f' AtHeader show ?thesis by simp
next
  case (AtData hdr)
  with assms obtain bs r where rd: "rd (rf_reader f) (unat (hlength hdr)) = (Ready (Inr bs), r)"
    and f': "rf_reader f' = r" "rf_pc f' = AtTop"
    by (auto simp: read_advance_def read_at_data_def split: prod.splits poll.splits sum.splits)
  from rd_left [OF rd] f' AtData show ?thesis by simp
qed

lemma read_next_enough_fuel:
  "left (rf_reader f) + pc_rank (rf_pc f) < fuel \<Longrightarrow> \<exists>res. read_next rd fuel f sh = Some res"
proof (induction fuel arbitrary: f sh)
  case (Suc fuel)
  obtain st f1 sh1 where adv: "read_advance rd f sh = (st, f1, sh1)"
    by (metis prod_cases3)
  show ?case
  proof (cases st)
    case RLoop
    with read_advance_decreases [of f sh f1 sh1] adv Suc show ?thesis by auto
  qed (use adv in auto)
qed simp

end

section \<open>Frames, stream tables and counts\<close>

lemma bt_len_negotiate:
  "bt_sorted (streams sh) \<Longrightarrow>
   bt_len (streams (snd (negotiate_new_stream_request hdr sh))) \<le> max MAX_STREAMS (bt_len (streams sh))"
  by (auto simp: negotiate_new_stream_request_def Let_def bt_len_insert get_stream_def)

lemma frame_stream_len:
  assumes "bt_sorted (streams sh)" and "frame_stream hdr sh = (res, sh')"
  shows "bt_len (streams sh') \<le> max MAX_STREAMS (bt_len (streams sh))"
  using bt_len_negotiate [OF assms(1), of hdr] assms(2)
  by (auto simp: frame_stream_def split: if_splits prod.splits sum.splits bool.splits)

lemma bt_len_set_existing:
  "bt_sorted (streams sh) \<Longrightarrow> get_stream sh i = Some s \<Longrightarrow>
   bt_len (streams (set_stream i s' sh)) = bt_len (streams sh)"
  by (simp add: bt_len_insert get_stream_def)

lemma bt_len_reset:
  "bt_sorted (streams sh) \<Longrightarrow>
   bt_len (streams (reset_stream_immediately_with_shared_state i sh)) = bt_len (streams sh)"
  by (auto simp: reset_stream_immediately_with_shared_state_def bt_len_insert get_stream_def
      split: option.splits)

lemma bt_len_handle_frame:
  assumes "session_inv n sh"
  shows "bt_len (streams (snd (handle_frame hdr sh))) \<le> max MAX_STREAMS (bt_len (streams sh))"
proof -
  have sorted: "session_inv n sh' \<Longrightarrow> bt_sorted (streams sh')" for sh'
    by (simp add: session_inv_def)
  note inv1 = session_inv_frame_stream [OF assms, of hdr]
  note inv2 = session_inv_frame_stream [of n "flush_writes sh" hdr]
  have data: "bt_len (streams (snd (handle_data hdr sh))) \<le> max MAX_STREAMS (bt_len (streams sh))"
  proof -
    obtain res sh1 where fs: "frame_stream hdr sh = (res, sh1)" by force
    have le: "bt_len (streams sh1) \<le> max MAX_STREAMS (bt_len (streams sh))"
      using frame_stream_len [OF sorted [OF assms] fs] .
    have st: "bt_sorted (streams sh1)" using inv1 fs sorted by simp
    have "bt_len (streams (data_bookkeeping hdr s sh1)) \<le> bt_len (streams sh1)"
      if "get_stream sh1 (hstream_id hdr) = Some s" for s
      using that bt_len_remove_le [of "hstream_id hdr" "streams sh1"] st
      by (auto simp: data_bookkeeping_def Let_def bt_len_set_existing [simplified] get_stream_def
          bt_len_insert)
    with le fs frame_stream_get [of hdr sh] show ?thesis
      by (fastforce simp: handle_data_def Let_def split: sum.splits option.splits OpenState.splits)
  qed
  have window: "bt_len (streams (snd (handle_window_update hdr sh)))
      \<le> max MAX_STREAMS (bt_len (streams sh))"
  proof -
    obtain res sh1 where fs: "frame_stream hdr (flush_writes sh) = (res, sh1)" by force
    have le: "bt_len (streams sh1) \<le> max MAX_STREAMS (bt_len (streams sh))"
      using frame_stream_len [of "flush_writes sh" hdr] sorted [OF assms] fs by simp
    have st: "bt_sorted (streams sh1)" using inv2 assms fs sorted by simp
    show ?thesis
      using le fs frame_stream_get [of hdr "flush_writes sh"] st
        bt_len_remove_le [of "hstream_id hdr" "streams sh1"]
      by (auto simp: handle_window_update_def Let_def bt_len_insert get_stream_def
          split: sum.splits option.splits)
  qed
  show ?thesis
    using data window bt_len_reset [OF sorted [OF assms], of "hstream_id hdr"]
    by (auto simp: handle_frame_def handle_ping_def handle_goaway_def Let_def
        split: FrameType.splits option.splits GoAwayType.splits)
qed

section \<open>Delivery\<close>

lemma mock_read_prefix:
  "ms_read_buf r = bs @ rest \<Longrightarrow> length bs = n \<Longrightarrow>
   mock_read_exact r n = (Ready (Inr bs), r\<lparr>ms_read_buf := rest\<rparr>)"
  by (auto simp: mock_read_exact_def)

lemma u32_of_nat: "n \<le> MAX_FRAME_SIZE \<Longrightarrow> unat (of_nat n :: u32) = n"
  by (simp add: unsigned_of_nat take_bit_nat_eq_self MAX_FRAME_SIZE_def)

lemma read_header_advance:
  assumes "rf_pc f = AtHeader" and "ms_read_buf (rf_reader f) = header_encode h @ rest"
    and "hversion h = YAMUX_VERSION"
  shows "read_advance mock_read_exact f sh =
    (let f' = f\<lparr>rf_reader := (rf_reader f)\<lparr>ms_read_buf := rest\<rparr>\<rparr> in
     if hframe_type h = FtData then
       (if MAX_FRAME_SIZE < unat (hlength h)
        then (RReturn (Inl (YFrameTooLarge (unat (hlength h)))), f', sh)
        else (RLoop, f'\<lparr>rf_pc := AtData h\<rparr>, sh))
     else (after_handler (fst (handle_frame h sh)), f'\<lparr>rf_pc := AtTop\<rparr>, snd (handle_frame h sh)))"
  using mock_read_prefix [OF assms(2), of 12] assms(1,3)
  by (simp add: read_advance_def read_at_header_def YAMUX_FRAME_HEADER_SIZE_def
      header_decode_encode Let_def split: prod.splits)

lemma read_top_advance:
  "rf_pc f = AtTop \<Longrightarrow> output_buf sh = None \<Longrightarrow>
   read_advance rd f sh = (RLoop, f\<lparr>rf_pc := AtHeader\<rparr>, sh)"
  by (simp add: read_advance_def read_at_top_def)

lemma send_data_flags [simp]:
  "hflags (hdr_send_data i n) = flags_empty" "hstream_id (hdr_send_data i n) = i"
  "hlength (hdr_send_data i n) = n" "hframe_type (hdr_send_data i n) = FtData"
  "hversion (hdr_send_data i n) = YAMUX_VERSION"
  by (simp_all add: hdr_send_data_def mk_header_def)

lemma handle_plain_data:
  assumes "get_stream sh i = Some s" and "open_state s = Open \<or> open_state s = FinByUs"
    and "0 < n" and "n \<le> MAX_FRAME_SIZE"
  shows "handle_frame (hdr_send_data i (of_nat n)) sh =
    (Return (Inr (Some (mk_output i (OData n)))),
     data_bookkeeping (hdr_send_data i (of_nat n)) s sh)"
  using assms
  by (auto simp: handle_frame_def handle_data_def frame_stream_def is_open_new_stream_def
      u32_of_nat Let_def)

lemma bookkeeping_plain_data:
  assumes "n \<le> MAX_FRAME_SIZE"
  shows "\<exists>s'. get_stream (data_bookkeeping (hdr_send_data i (of_nat n)) s sh) i = Some s' \<and>
    MAX_FRAME_SIZE div 2 \<le> recv_window s' \<and>
    outbound_buf s' = outbound_buf s @
      (if recv_window s - n < MAX_FRAME_SIZE div 2
       then [MWindowUpdate (of_nat (MAX_FRAME_SIZE - (recv_window s - n)))] else [])"
proof (cases "recv_window s - n < MAX_FRAME_SIZE div 2")
  case True
  then have "recv_window s - n + (MAX_FRAME_SIZE - (recv_window s - n)) = MAX_FRAME_SIZE"
    by linarith
  with True show ?thesis
    by (simp add: data_bookkeeping_def u32_of_nat [OF assms] Let_def push_msg_def)
next
  case False
  then show ?thesis
    by (simp add: data_bookkeeping_def u32_of_nat [OF assms] Let_def)
qed

text \<open>
  (C19) Delivery of a data frame: when the next bytes on the wire are a data frame for a stream we
  know and on which the remote may still send, one poll returns that stream's identifier and the
  payload length, the payload is at the front of the inbound buffer, exactly the frame's bytes
  are consumed, and the remote keeps a receive window of at least half a frame: if the payload
  took it below that, a window update restoring it to a full frame is queued.
\<close>

theorem yamux_data_delivered:
  assumes "rf_pc f = AtTop" and "output_buf sh = None" and "get_stream sh i = Some s"
    and "open_state s = Open \<or> open_state s = FinByUs"
    and "payload \<noteq> []" and "length payload \<le> MAX_FRAME_SIZE"
    and wire: "ms_read_buf (rf_reader f) =
      header_encode (hdr_send_data i (of_nat (length payload))) @ payload @ rest"
    and "3 \<le> fuel"
  shows "\<exists>f' sh' s'.
    read_next mock_read_exact fuel f sh
      = Some (Ready (Inr (Some (mk_output i (OData (length payload))))), f', sh') \<and>
    take (length payload) (rf_buf f') = payload \<and> ms_read_buf (rf_reader f') = rest \<and>
    get_stream sh' i = Some s' \<and> MAX_FRAME_SIZE div 2 \<le> recv_window s' \<and>
    outbound_buf s' = outbound_buf s @
      (if recv_window s - length payload < MAX_FRAME_SIZE div 2
       then [MWindowUpdate (of_nat (MAX_FRAME_SIZE - (recv_window s - length payload)))] else [])"
proof -
  let ?n = "length payload" and ?h = "hdr_send_data i (of_nat (length payload))"
  let ?r = "(rf_reader f)\<lparr>ms_read_buf := payload @ rest\<rparr>"
  let ?f1 = "f\<lparr>rf_pc := AtHeader\<rparr>"
  let ?f2 = "f\<lparr>rf_pc := AtData ?h, rf_reader := ?r\<rparr>"
  let ?f3 = "f\<lparr>rf_pc := AtTop, rf_reader := ?r\<lparr>ms_read_buf := rest\<rparr>,
               rf_buf := write_front payload (rf_buf f)\<rparr>"
  let ?sh = "data_bookkeeping ?h s sh"
  have n: "unat (of_nat ?n :: u32) = ?n" using assms(6) by (rule u32_of_nat)
  have s1: "read_advance mock_read_exact f sh = (RLoop, ?f1, sh)"
    using assms(1,2) by (rule read_top_advance)
  have s2: "read_advance mock_read_exact ?f1 sh = (RLoop, ?f2, sh)"
    using read_header_advance [of ?f1 ?h "payload @ rest" sh] wire assms(6) n by simp
  have s3: "read_advance mock_read_exact ?f2 sh =
      (RReturn (Inr (Some (mk_output i (OData ?n)))), ?f3, ?sh)"
    using mock_read_prefix [of ?r payload rest ?n] handle_plain_data [OF assms(3,4), of ?n]
      assms(5,6) n
    by (simp add: read_advance_def read_at_data_def after_handler_def)
  obtain k where k: "fuel = Suc (Suc (Suc k))"
    using assms(8) by (metis Suc3_eq_add_3 le_Suc_ex)
  have run: "read_next mock_read_exact fuel f sh =
      Some (Ready (Inr (Some (mk_output i (OData ?n)))), ?f3, ?sh)"
    by (simp add: k s1 s2 s3)
  note bookkeeping_plain_data [OF assms(6), of i s sh]
  with run show ?thesis by (auto simp: write_front_def)
qed

theorem yamux_data_delivered_witness:
  "\<exists>f' sh'. read_next mock_read_exact 5
       \<lparr>rf_pc = AtTop, rf_reader = mock_extend (header_encode (hdr_send_data 2 3) @ [7, 8, 9]) mock_new,
        rf_buf = [0, 0, 0, 0]\<rparr>
       (set_stream 2 StreamState_new SharedState_new)
     = Some (Ready (Inr (Some (mk_output 2 (OData 3)))), f', sh') \<and>
     take 3 (rf_buf f') = [7, 8, 9]"
proof -
  let ?r = "mock_extend (header_encode (hdr_send_data 2 3) @ [7, 8, 9]) mock_new"
  let ?f = "\<lparr>rf_pc = AtTop, rf_reader = ?r, rf_buf = [0, 0, 0, 0]\<rparr> :: MockStream ReadFuture"
  let ?sh = "set_stream 2 StreamState_new SharedState_new"
  have "\<exists>f' sh' s'.
    read_next mock_read_exact 5 ?f ?sh
      = Some (Ready (Inr (Some (mk_output 2 (OData (length [7, 8, 9 :: u8]))))), f', sh') \<and>
    take (length [7, 8, 9 :: u8]) (rf_buf f') = [7, 8, 9] \<and> ms_read_buf (rf_reader f') = [] \<and>
    get_stream sh' 2 = Some s' \<and> MAX_FRAME_SIZE div 2 \<le> recv_window s' \<and>
    outbound_buf s' = outbound_buf StreamState_new @
      (if recv_window StreamState_new - length [7, 8, 9 :: u8] < MAX_FRAME_SIZE div 2
       then [MWindowUpdate (of_nat (MAX_FRAME_SIZE -
              (recv_window StreamState_new - length [7, 8, 9 :: u8])))] else [])"
    by (rule yamux_data_delivered)
       (simp_all add: StreamState_new_def SharedState_new_def set_stream_def MAX_FRAME_SIZE_def
          mock_new_def get_stream_def)
  then show ?thesis by (auto simp: numeral_3_eq_3)
qed

text \<open>
  Every poll of the read future comes back: with fuel for the bytes the stream can still
  deliver, the loop of \<open>read_next\<close> ends in a result or in \<open>Pending\<close>.
\<close>

theorem read_next_returns:
  "length (ms_read_buf (rf_reader f)) + 4 \<le> fuel \<Longrightarrow>
   \<exists>res. read_next mock_read_exact fuel f sh = Some res"
  by (rule mock.read_next_enough_fuel) (cases "rf_pc f"; simp)

theorem read_next_returns_witness:
  "\<exists>res. read_next mock_read_exact 6
     \<lparr>rf_pc = AtTop, rf_reader = mock_extend [0, 9] mock_new, rf_buf = []\<rparr> SharedState_new = Some res"
  by (rule read_next_returns) (simp add: mock_new_def)

text \<open>
  The two ways a remote can half-close a stream disagree on a stream we have already
  half-closed: FIN on a window update makes it \<open>Reset\<close> (closed on both sides), FIN on a data
  frame makes it \<open>FinByThem\<close>, forgetting that we closed our side.
\<close>

theorem fin_on_data_forgets_our_fin:
  assumes "get_stream sh i = Some s" and "open_state s = FinByUs"
  shows "map_option open_state (get_stream (snd (handle_frame
           (mk_header FtWindowUpdate (flags_from Fin) i 0) sh)) i) = Some Reset \<and>
         map_option open_state (get_stream (snd (handle_frame
           (mk_header FtData (flags_from Fin) i 0) sh)) i) = Some FinByThem"
  using assms
  by (simp add: handle_frame_def handle_window_update_def handle_data_def frame_stream_def
      is_open_new_stream_def data_bookkeeping_def mk_header_def Let_def)

theorem fin_on_data_forgets_our_fin_witness:
  "map_option open_state (get_stream (snd (handle_frame (mk_header FtData (flags_from Fin) 2 0)
     (set_stream 2 (StreamState_new\<lparr>open_state := FinByUs\<rparr>) SharedState_new))) 2) = Some FinByThem"
  using fin_on_data_forgets_our_fin
    [of "set_stream 2 (StreamState_new\<lparr>open_state := FinByUs\<rparr>) SharedState_new" 2
      "StreamState_new\<lparr>open_state := FinByUs\<rparr>"]
  by simp

end
