(* ===== verification/YamuxWrite.thy ===== *)
theory YamuxWrite
  imports Yamux
begin

text \<open>
  The write future of \<open>src/layers/yamux.rs\<close>. \<open>gather\<close> is the block of \<open>write_next\<close> that turns
  the streams' outbound queues into the bytes of one write; \<open>write_advance\<close> is the future as a
  state machine over its await points, and \<open>write_next\<close> one poll of it.

  A queued payload is a \<open>VecDeque<u8>\<close> and is read through \<open>as_slices\<close>, which splits the
  contents at a point that depends on the ring buffer's history: the parameter \<open>sl\<close> gives the
  length of the first slice for given contents, and every theorem holds for any \<open>sl\<close>.
  Emitted bytes are specified by parsing them back into frames (\<open>parse_wire\<close>) and reading the
  frames of one stream as a sequence of events, one per payload byte or control flag.
\<close>

section \<open>Sending one message of one stream\<close>

text \<open>
  The body of the \<open>for\<close> loop: the stream afterwards, the bytes to write, and whether the stream
  is to be removed.
\<close>

definition write_data ::
  "(bytes \<Rightarrow> nat) \<Rightarrow> YamuxStreamId \<Rightarrow> bytes \<Rightarrow> BufferedOutboundMessage list \<Rightarrow> StreamState
     \<Rightarrow> StreamState \<times> bytes \<times> bool" where
  "write_data sl stream_id outbound_data q stream =
     (let bytes_to_send = min (min (length outbound_data) (send_window stream)) MAX_SEND_SIZE in
      if bytes_to_send = 0
        then (stream\<lparr>outbound_buf := q @ [MData outbound_data]\<rparr>, [], False)
      else
        let a = take (sl outbound_data) outbound_data;
            b = drop (sl outbound_data) outbound_data;
            a_len = min bytes_to_send (length a);
            b_len = bytes_to_send - length a;
            bs = header_encode (hdr_send_data stream_id (of_nat a_len)) @ take a_len a @
                 (if 0 < b_len
                  then header_encode (hdr_send_data stream_id (of_nat b_len)) @ take b_len b
                  else []);
            q' = (if bytes_to_send \<noteq> length outbound_data
                  then MData (drop bytes_to_send outbound_data) # q else q)
        in (stream\<lparr>send_window := send_window stream - bytes_to_send, outbound_buf := q'\<rparr>,
            bs, False))"

definition write_one ::
  "(bytes \<Rightarrow> nat) \<Rightarrow> YamuxStreamId \<Rightarrow> StreamState \<Rightarrow> StreamState \<times> bytes \<times> bool" where
  "write_one sl stream_id stream =
     (case outbound_buf stream of
        [] \<Rightarrow> (stream, [], False)
      | msg # q \<Rightarrow>
          (let s = stream\<lparr>outbound_buf := q\<rparr> in
           case msg of
             MAccept \<Rightarrow> (s, header_encode (hdr_accept_stream stream_id), False)
           | MOpen \<Rightarrow> (s, header_encode (hdr_open_stream stream_id), False)
           | MClose \<Rightarrow> (s\<lparr>open_state := set_fin_by_us (open_state s)\<rparr>,
                        header_encode (hdr_close_stream stream_id), False)
           | MReset \<Rightarrow> (s, header_encode (hdr_reset_stream stream_id), True)
           | MWindowUpdate len \<Rightarrow> (s, header_encode (hdr_window_update stream_id len), False)
           | MData outbound_data \<Rightarrow> write_data sl stream_id outbound_data q s))"

section \<open>Passes over the streams\<close>

fun write_pass ::
  "(bytes \<Rightarrow> nat) \<Rightarrow> (YamuxStreamId, StreamState) btree
     \<Rightarrow> (YamuxStreamId, StreamState) btree \<times> bytes \<times> YamuxStreamId list" where
  "write_pass sl [] = ([], [], [])"
| "write_pass sl ((i, s) # m) =
     (case write_one sl i s of
        (s', bs, rm) \<Rightarrow>
          (case write_pass sl m of
             (m', bs', rms) \<Rightarrow> ((i, s') # m', bs @ bs', (if rm then [i] else []) @ rms)))"

fun msg_weight :: "BufferedOutboundMessage \<Rightarrow> nat" where
  "msg_weight (MData d) = Suc (length d)"
| "msg_weight _ = 1"

definition queue_weight :: "StreamState \<Rightarrow> nat" where
  "queue_weight s = sum_list (map msg_weight (outbound_buf s))"

definition streams_weight :: "(YamuxStreamId, StreamState) btree \<Rightarrow> nat" where
  "streams_weight m = sum_list (map (queue_weight \<circ> snd) m)"

lemma write_data_weight:
  assumes "write_data sl i d q s = (s', bs, rm)"
  shows "queue_weight s' \<le> Suc (length d) + sum_list (map msg_weight q) \<and>
    (bs \<noteq> [] \<longrightarrow> queue_weight s' < Suc (length d) + sum_list (map msg_weight q))"
proof (cases "min (min (length d) (send_window s)) MAX_SEND_SIZE = 0")
  case True
  with assms show ?thesis by (auto simp: write_data_def queue_weight_def)
next
  case False
  define n where "n = min (min (length d) (send_window s)) MAX_SEND_SIZE"
  have "0 < n" "n \<le> length d" using False by (auto simp: n_def)
  moreover have "outbound_buf s' = (if n \<noteq> length d then MData (drop n d) # q else q)"
    using assms False unfolding write_data_def Let_def n_def [symmetric] by auto
  ultimately show ?thesis by (auto simp: queue_weight_def)
qed

lemma write_one_weight:
  assumes "write_one sl i s = (s', bs, rm)"
  shows "queue_weight s' \<le> queue_weight s \<and> (bs \<noteq> [] \<longrightarrow> queue_weight s' < queue_weight s)"
proof (cases "outbound_buf s")
  case Nil
  with assms show ?thesis by (simp add: write_one_def)
next
  case (Cons msg q)
  show ?thesis
  proof (cases msg)
    case (MData d)
    with Cons assms write_data_weight [of sl i d q "s\<lparr>outbound_buf := q\<rparr>" s' bs rm]
    show ?thesis by (simp add: write_one_def queue_weight_def)
  qed (use Cons assms in \<open>auto simp: write_one_def queue_weight_def\<close>)
qed

lemma write_pass_weight:
  "write_pass sl m = (m', bs, rms) \<Longrightarrow>
   streams_weight m' \<le> streams_weight m \<and> (bs \<noteq> [] \<longrightarrow> streams_weight m' < streams_weight m)"
proof (induction sl m arbitrary: m' bs rms rule: write_pass.induct)
  case (2 sl i s m)
  obtain s' bs1 rm m1 bs2 rms2
    where "write_one sl i s = (s', bs1, rm)" "write_pass sl m = (m1, bs2, rms2)"
    by (metis prod_cases3)
  with 2 write_one_weight [of sl i s s' bs1 rm] show ?case
    by (fastforce simp: streams_weight_def)
qed simp

text \<open>The \<open>while\<close> loop: pass over the streams until a pass adds no bytes.\<close>

function write_loop ::
  "(bytes \<Rightarrow> nat) \<Rightarrow> (YamuxStreamId, StreamState) btree \<Rightarrow> bytes \<Rightarrow> YamuxStreamId list
     \<Rightarrow> (YamuxStreamId, StreamState) btree \<times> bytes \<times> YamuxStreamId list" where
  "write_loop sl m out rms =
     (case write_pass sl m of
        (m', bs, r) \<Rightarrow>
          (if bs = [] then (m', out, rms @ r)
           else write_loop sl m' (out @ bs) (rms @ r)))"
  by pat_completeness auto
termination
  by (relation "measure (\<lambda>(sl, m, out, rms). streams_weight m)")
     (auto dest!: write_pass_weight [OF sym])

declare write_loop.simps [simp del]

definition gather :: "(bytes \<Rightarrow> nat) \<Rightarrow> SharedState \<Rightarrow> bytes \<times> SharedState" where
  "gather sl sh =
     (case write_loop sl (streams sh) [] [] of
        (m, bytes_to_write, streams_to_remove) \<Rightarrow>
          (bytes_to_write, sh\<lparr>streams := fold bt_remove streams_to_remove m\<rparr>))"

section \<open>The write future\<close>

datatype write_pc =
    WTop
  | WGlobalA bytes bytes
  | WGlobalB bytes
  | WStreams
  | WBytes bytes
  | WWait

datatype write_step = WPending | WLoop | WError yamux_error

definition write_await ::
  "'w write_op \<Rightarrow> bytes \<Rightarrow> write_pc \<Rightarrow> write_pc \<Rightarrow> 'w \<Rightarrow> SharedState
     \<Rightarrow> write_step \<times> write_pc \<times> 'w \<times> SharedState" where
  "write_await wr bs pc next_pc w sh =
     (case wr w bs of
        (Pending, w') \<Rightarrow> (WPending, pc, w', sh)
      | (Ready (Inl e), w') \<Rightarrow> (WError (YAsyncWrite e), pc, w', sh)
      | (Ready (Inr _), w') \<Rightarrow> (WLoop, next_pc, w', sh))"

definition write_advance ::
  "(bytes \<Rightarrow> nat) \<Rightarrow> 'w write_op \<Rightarrow> write_pc \<Rightarrow> 'w \<Rightarrow> SharedState
     \<Rightarrow> write_step \<times> write_pc \<times> 'w \<times> SharedState" where
  "write_advance sl wr pc w sh0 =
     (case pc of
        WTop \<Rightarrow>
          (let g = write_buf sh0; sh = sh0\<lparr>has_pending_writes := False, write_buf := []\<rparr>
           in if g \<noteq> [] then (WLoop, WGlobalA (take (sl g) g) (drop (sl g) g), w, sh)
              else (WLoop, WStreams, w, sh))
      | WGlobalA a b \<Rightarrow> write_await wr a pc (WGlobalB b) w sh0
      | WGlobalB b \<Rightarrow> write_await wr b pc WStreams w sh0
      | WStreams \<Rightarrow>
          (case gather sl sh0 of
             (bs, sh) \<Rightarrow> (WLoop, if bs \<noteq> [] then WBytes bs else WWait, w, sh))
      | WBytes bs \<Rightarrow> write_await wr bs pc WWait w sh0
      | WWait \<Rightarrow>
          (if has_pending_writes sh0 then (WLoop, WTop, w, sh0)
           else (WPending, WWait, w, sh0\<lparr>pending_write_waker := True\<rparr>)))"

text \<open>One poll of \<open>write_next\<close>: it never completes, so it is \<open>Pending\<close> or an error.\<close>

fun write_next ::
  "(bytes \<Rightarrow> nat) \<Rightarrow> 'w write_op \<Rightarrow> nat \<Rightarrow> write_pc \<Rightarrow> 'w \<Rightarrow> SharedState
     \<Rightarrow> (yamux_error option \<times> write_pc \<times> 'w \<times> SharedState) option" where
  "write_next sl wr 0 pc w sh = None"
| "write_next sl wr (Suc fuel) pc w sh =
     (case write_advance sl wr pc w sh of
        (WPending, pc', w', sh') \<Rightarrow> Some (None, pc', w', sh')
      | (WError e, pc', w', sh') \<Rightarrow> Some (Some e, pc', w', sh')
      | (WLoop, pc', w', sh') \<Rightarrow> write_next sl wr fuel pc' w' sh')"

section \<open>The emitted bytes as frames\<close>

text \<open>
  A frame on the wire: a header, followed by its payload when it is a data frame.
  \<open>parse_wire\<close> is what the remote reads back.
\<close>

type_synonym frame = "YamuxHeader \<times> bytes"

definition frame_wire :: "frame \<Rightarrow> bytes" where
  "frame_wire f = header_encode (fst f) @ snd f"

definition wire :: "frame list \<Rightarrow> bytes" where
  "wire fs = concat (map frame_wire fs)"

definition payload_len :: "YamuxHeader \<Rightarrow> nat" where
  "payload_len h = (if hframe_type h = FtData then unat (hlength h) else 0)"

function parse_wire :: "bytes \<Rightarrow> frame list option" where
  "parse_wire bs =
     (if bs = [] then Some []
      else if length bs < 12 then None
      else case header_decode (take 12 bs) of
        Inl _ \<Rightarrow> None
      | Inr h \<Rightarrow>
          (let rest = drop 12 bs in
           if length rest < payload_len h then None
           else map_option (\<lambda>fs. (h, take (payload_len h) rest) # fs)
                  (parse_wire (drop (payload_len h) rest))))"
  by pat_completeness auto
termination
  by (relation "measure length") auto

declare parse_wire.simps [simp del]

definition frame_ok :: "frame \<Rightarrow> bool" where
  "frame_ok f \<longleftrightarrow> hversion (fst f) = YAMUX_VERSION \<and> length (snd f) = payload_len (fst f)"

lemma parse_frame_wire:
  "frame_ok f \<Longrightarrow> parse_wire (frame_wire f @ bs) = map_option ((#) f) (parse_wire bs)"
  by (subst parse_wire.simps) (auto simp: frame_ok_def frame_wire_def header_decode_encode Let_def)

lemma parse_wire_wire: "\<forall>f\<in>set fs. frame_ok f \<Longrightarrow> parse_wire (wire fs) = Some fs"
  by (induction fs) (simp_all add: wire_def parse_frame_wire parse_wire.simps [of "[]"])

lemma wire_simps1 [simp]:
  "wire [] = []" "wire (fs @ gs) = wire fs @ wire gs" "wire (f # fs) = frame_wire f @ wire fs"
  "wire fs = [] \<longleftrightarrow> fs = []" "[] = wire fs \<longleftrightarrow> fs = []"
proof -
  show "wire fs = [] \<longleftrightarrow> fs = []" "[] = wire fs \<longleftrightarrow> fs = []"
    by (cases fs; auto simp: wire_def frame_wire_def)+
qed (simp_all add: wire_def)

text \<open>
  The frames of one stream, read as a sequence of events: the payload bytes one by one, and the
  header of every other frame.
\<close>

datatype wire_event = EvByte u8 | EvCtl YamuxHeader

definition frame_events :: "frame \<Rightarrow> wire_event list" where
  "frame_events f = (if hframe_type (fst f) = FtData then map EvByte (snd f) else [EvCtl (fst f)])"

definition stream_events :: "YamuxStreamId \<Rightarrow> frame list \<Rightarrow> wire_event list" where
  "stream_events i fs = concat (map frame_events (filter (\<lambda>f. hstream_id (fst f) = i) fs))"

definition stream_payload :: "YamuxStreamId \<Rightarrow> frame list \<Rightarrow> nat" where
  "stream_payload i fs = sum_list (map (\<lambda>f. if hstream_id (fst f) = i then length (snd f) else 0) fs)"

lemma stream_events_simps [simp]:
  "stream_events i [] = []"
  "stream_events i (fs @ gs) = stream_events i fs @ stream_events i gs"
  "stream_payload i [] = 0"
  "stream_payload i (fs @ gs) = stream_payload i fs + stream_payload i gs"
  by (simp_all add: stream_events_def stream_payload_def)

lemma stream_events_other:
  "\<forall>f\<in>set fs. hstream_id (fst f) \<noteq> i \<Longrightarrow> stream_events i fs = [] \<and> stream_payload i fs = 0"
  by (induction fs) (auto simp: stream_events_def stream_payload_def)

text \<open>What the queue of a stream still has to say.\<close>

fun msg_events :: "YamuxStreamId \<Rightarrow> BufferedOutboundMessage \<Rightarrow> wire_event list" where
  "msg_events i MAccept = [EvCtl (hdr_accept_stream i)]"
| "msg_events i MOpen = [EvCtl (hdr_open_stream i)]"
| "msg_events i (MData d) = map EvByte d"
| "msg_events i (MWindowUpdate n) = [EvCtl (hdr_window_update i n)]"
| "msg_events i MClose = [EvCtl (hdr_close_stream i)]"
| "msg_events i MReset = [EvCtl (hdr_reset_stream i)]"

definition queue_events :: "YamuxStreamId \<Rightarrow> StreamState \<Rightarrow> wire_event list" where
  "queue_events i s = concat (map (msg_events i) (outbound_buf s))"

fun data_size :: "BufferedOutboundMessage \<Rightarrow> nat" where
  "data_size (MData d) = length d"
| "data_size _ = 0"

text \<open>The queued data fits in the window the remote has granted, and no data message is empty.\<close>

definition fits :: "StreamState \<Rightarrow> bool" where
  "fits s \<longleftrightarrow> sum_list (map data_size (outbound_buf s)) \<le> send_window s \<and>
     MData [] \<notin> set (outbound_buf s)"

text \<open>What sending frames \<open>fs\<close> of stream \<open>i\<close> may do to the stream; it composes.\<close>

definition progress :: "YamuxStreamId \<Rightarrow> StreamState \<Rightarrow> frame list \<Rightarrow> StreamState \<Rightarrow> bool" where
  "progress i s fs s' \<longleftrightarrow>
     stream_payload i fs + send_window s' = send_window s \<and>
     (MReset \<in> set (outbound_buf s') \<longrightarrow> MReset \<in> set (outbound_buf s)) \<and>
     (stream_ok s \<longrightarrow> stream_ok s') \<and>
     (fits s \<longrightarrow> fits s' \<and> stream_events i fs @ queue_events i s' = queue_events i s)"

lemma progress_trans: "progress i s fs s' \<Longrightarrow> progress i s' gs s'' \<Longrightarrow> progress i s (fs @ gs) s''"
  unfolding progress_def by auto

lemma progress_refl [simp]: "progress i s [] s"
  by (simp add: progress_def)

definition frames_for :: "YamuxStreamId \<Rightarrow> frame list \<Rightarrow> bool" where
  "frames_for i fs \<longleftrightarrow>
     (\<forall>f\<in>set fs. frame_ok f \<and> hstream_id (fst f) = i \<and> length (snd f) \<le> MAX_SEND_SIZE)"

lemma hdr_send_data_id [simp]: "hstream_id (hdr_send_data i n) = i"
  by (simp add: hdr_send_data_def mk_header_def)

lemma data_frame_ok [simp]:
  assumes "length p \<le> MAX_SEND_SIZE" "n = length p"
  shows "frame_ok (hdr_send_data i (of_nat n), p)"
proof -
  have "length p \<le> MAX_FRAME_SIZE"
    using assms(1) by (simp add: MAX_SEND_SIZE_def MAX_FRAME_SIZE_def)
  then show ?thesis
    using assms(2) by (simp add: frame_ok_def payload_len_def hdr_send_data_def mk_header_def u32_of_nat
        YAMUX_VERSION_def)
qed

lemma header_fields [simp]:
  "hstream_id (mk_header t fl i n) = i" "hframe_type (mk_header t fl i n) = t"
  "hflags (mk_header t fl i n) = fl" "hlength (mk_header t fl i n) = n"
  by (simp_all add: mk_header_def)

lemma control_frame_ok [simp]: "t \<noteq> FtData \<Longrightarrow> frame_ok (mk_header t fl i n, [])"
  by (simp add: frame_ok_def payload_len_def)

lemma write_data_frames:
  assumes "write_data sl i d q s = (s', bs, rm)"
  shows "\<exists>fs. bs = wire fs \<and> frames_for i fs \<and>
           progress i (s\<lparr>outbound_buf := MData d # q\<rparr>) fs s' \<and> \<not> rm"
proof (cases "min (min (length d) (send_window s)) MAX_SEND_SIZE = 0")
  case True
  then have "d = [] \<or> send_window s = 0" by (auto simp: MAX_SEND_SIZE_def min_def split: if_splits)
  with True assms show ?thesis
    by (intro exI [of _ "[]"])
       (auto simp: write_data_def frames_for_def progress_def fits_def)
next
  case False
  define n where "n = min (min (length d) (send_window s)) MAX_SEND_SIZE"
  define a b where "a = take (sl d) d" and "b = drop (sl d) d"
  define al bl where "al = min n (length a)" and "bl = n - length a"
  define fs where "fs = (hdr_send_data i (of_nat al), take al a) #
    (if 0 < bl then [(hdr_send_data i (of_nat bl), take bl b)] else [])"
  have n: "n \<le> length d" "n \<le> send_window s" "n \<le> MAX_SEND_SIZE" by (auto simp: n_def)
  have ab: "a @ b = d" by (simp add: a_def b_def)
  have bl: "bl \<le> length b" "al \<le> length a" "al + bl = n"
    using n(1) unfolding ab [symmetric] al_def bl_def by auto
  have out: "outbound_buf s' = (if n \<noteq> length d then MData (drop n d) # q else q)"
    "send_window s' = send_window s - n" "bs = wire fs" "\<not> rm" "recv_window s' = recv_window s"
    "open_state s' = open_state s"
    using assms False
    unfolding write_data_def Let_def n_def [symmetric] a_def [symmetric] b_def [symmetric]
      al_def [symmetric] bl_def [symmetric] fs_def frame_wire_def by (auto simp: frame_wire_def)
  have for_i: "frames_for i fs"
    using bl n by (auto simp: frames_for_def fs_def)
  have tk: "take n d = take al a @ take bl b"
    unfolding ab [symmetric] by (simp add: al_def bl_def min_def)
  have ev: "stream_events i fs = map EvByte (take n d)" "stream_payload i fs = n"
    using bl by (auto simp: fs_def tk stream_events_def stream_payload_def frame_events_def
        hdr_send_data_def)
  have "map EvByte d = map EvByte (take n d) @ map EvByte (drop n d)"
    by (metis append_take_drop_id map_append)
  then have "progress i (s\<lparr>outbound_buf := MData d # q\<rparr>) fs s'"
    using n out ev by (auto simp: progress_def fits_def queue_events_def stream_ok_def)
  with out for_i show ?thesis by blast
qed

lemma write_one_frames:
  assumes "write_one sl i s = (s', bs, rm)"
  shows "\<exists>fs. bs = wire fs \<and> frames_for i fs \<and> progress i s fs s' \<and>
           (rm \<longrightarrow> MReset \<in> set (outbound_buf s))"
proof (cases "outbound_buf s")
  case Nil
  with assms show ?thesis
    by (intro exI [of _ "[]"]) (simp add: write_one_def frames_for_def)
next
  case (Cons msg q)
  note ctl = progress_def fits_def queue_events_def frames_for_def frame_wire_def stream_events_def
    stream_payload_def frame_events_def stream_ok_def hdr_defs
  show ?thesis
  proof (cases msg)
    case (MData d)
    have "s\<lparr>outbound_buf := MData d # q\<rparr> = s" using Cons MData by simp
    with Cons MData assms write_data_frames [of sl i d q "s\<lparr>outbound_buf := q\<rparr>" s' bs rm]
    show ?thesis by (auto simp: write_one_def)
  next
    case MAccept
    with Cons assms show ?thesis
      by (intro exI [of _ "[(hdr_accept_stream i, [])]"]) (auto simp: write_one_def ctl)
  next
    case MOpen
    with Cons assms show ?thesis
      by (intro exI [of _ "[(hdr_open_stream i, [])]"]) (auto simp: write_one_def ctl)
  next
    case (MWindowUpdate n)
    with Cons assms show ?thesis
      by (intro exI [of _ "[(hdr_window_update i n, [])]"]) (auto simp: write_one_def ctl)
  next
    case MClose
    with Cons assms show ?thesis
      by (intro exI [of _ "[(hdr_close_stream i, [])]"]) (auto simp: write_one_def ctl)
  next
    case MReset
    with Cons assms show ?thesis
      by (intro exI [of _ "[(hdr_reset_stream i, [])]"]) (auto simp: write_one_def ctl)
  qed
qed

section \<open>Passes and the whole gathering\<close>

definition pass_ok ::
  "(YamuxStreamId, StreamState) btree \<Rightarrow> frame list \<Rightarrow> YamuxStreamId list
     \<Rightarrow> (YamuxStreamId, StreamState) btree \<Rightarrow> bool" where
  "pass_ok m fs rms m' \<longleftrightarrow>
     map fst m' = map fst m \<and>
     (\<forall>f\<in>set fs. frame_ok f \<and> hstream_id (fst f) \<in> fst ` set m \<and> length (snd f) \<le> MAX_SEND_SIZE) \<and>
     set rms \<subseteq> fst ` set m \<and>
     (\<forall>i s. bt_get m i = Some s \<longrightarrow>
        (\<exists>s'. bt_get m' i = Some s' \<and> progress i s fs s' \<and>
              (i \<in> set rms \<longrightarrow> MReset \<in> set (outbound_buf s))))"

lemma progress_other:
  assumes "\<forall>f\<in>set gs. hstream_id (fst f) \<noteq> i"
  shows "progress i s (fs @ gs) s' = progress i s fs s'"
    and "progress i s (gs @ fs) s' = progress i s fs s'"
  using stream_events_other [OF assms] by (simp_all add: progress_def)

lemma pass_ok_refl: "pass_ok m [] [] m"
  by (simp add: pass_ok_def)

lemma pass_ok_trans:
  assumes ab: "pass_ok m fs rms m'" and bc: "pass_ok m' gs rms' m''"
  shows "pass_ok m (fs @ gs) (rms @ rms') m''"
proof -
  have keys: "fst ` set m' = fst ` set m"
    using ab unfolding pass_ok_def by (metis set_map)
  have "\<exists>s''. bt_get m'' i = Some s'' \<and> progress i s (fs @ gs) s'' \<and>
          (i \<in> set (rms @ rms') \<longrightarrow> MReset \<in> set (outbound_buf s))"
    if get: "bt_get m i = Some s" for i s
  proof -
    obtain s' where s': "bt_get m' i = Some s'" "progress i s fs s'"
      "i \<in> set rms \<longrightarrow> MReset \<in> set (outbound_buf s)"
      using ab get unfolding pass_ok_def by blast
    obtain s'' where s'': "bt_get m'' i = Some s''" "progress i s' gs s''"
      "i \<in> set rms' \<longrightarrow> MReset \<in> set (outbound_buf s')"
      using bc s'(1) unfolding pass_ok_def by blast
    have "MReset \<in> set (outbound_buf s') \<longrightarrow> MReset \<in> set (outbound_buf s)"
      using s'(2) by (simp add: progress_def)
    with s' s'' progress_trans [OF s'(2) s''(2)] show ?thesis by auto
  qed
  with ab bc keys show ?thesis unfolding pass_ok_def by auto
qed

lemma write_pass_ok:
  "write_pass sl m = (m', bs, rms) \<Longrightarrow> distinct (map fst m) \<Longrightarrow>
   \<exists>fs. bs = wire fs \<and> pass_ok m fs rms m'"
proof (induction sl m arbitrary: m' bs rms rule: write_pass.induct)
  case (2 sl i s m)
  obtain s' bs1 rm m1 bs2 rms2
    where one: "write_one sl i s = (s', bs1, rm)" and rest: "write_pass sl m = (m1, bs2, rms2)"
    by (metis prod_cases3)
  have res: "m' = (i, s') # m1" "bs = bs1 @ bs2" "rms = (if rm then [i] else []) @ rms2"
    using 2(2) one rest by auto
  obtain fs1 where fs1: "bs1 = wire fs1" "frames_for i fs1" "progress i s fs1 s'"
    "rm \<longrightarrow> MReset \<in> set (outbound_buf s)"
    using write_one_frames [OF one] by blast
  obtain fs2 where fs2: "bs2 = wire fs2" "pass_ok m fs2 rms2 m1"
    using 2(1) [OF one [symmetric] refl rest] 2(3) by auto
  have i: "i \<notin> fst ` set m" using 2(3) by simp
  then have other2: "\<forall>f\<in>set fs2. hstream_id (fst f) \<noteq> i"
    using fs2(2) unfolding pass_ok_def by auto
  have rms2: "i \<notin> set rms2" using fs2(2) i unfolding pass_ok_def by auto
  have other1: "\<forall>f\<in>set fs1. hstream_id (fst f) \<noteq> j" if "j \<noteq> i" for j
    using fs1(2) that by (auto simp: frames_for_def)
  have "pass_ok ((i, s) # m) (fs1 @ fs2) rms m'"
    using fs1 fs2(2) rms2 progress_other(1) [OF other2] progress_other(2) [OF other1]
    unfolding res pass_ok_def frames_for_def bt_get_def by auto
  with res fs1 fs2 show ?case by (intro exI [of _ "fs1 @ fs2"]) simp
qed (auto intro!: exI [of _ "[]"] pass_ok_refl)

text \<open>
  A stream is stuck when its queue is empty or ends in a data message that cannot be sent: the
  last pass moved it there.
\<close>

definition stuck :: "StreamState \<Rightarrow> bool" where
  "stuck s \<longleftrightarrow> outbound_buf s = [] \<or>
     (\<exists>d. last (outbound_buf s) = MData d \<and> (d = [] \<or> send_window s = 0))"

lemma write_one_stuck:
  assumes "write_one sl i s = (s', [], rm)"
  shows "stuck s'"
proof (cases "outbound_buf s")
  case (Cons msg q)
  show ?thesis
  proof (cases msg)
    case (MData d)
    with Cons assms have w: "write_data sl i d q (s\<lparr>outbound_buf := q\<rparr>) = (s', [], rm)"
      by (simp add: write_one_def)
    then have z: "min (min (length d) (send_window s)) MAX_SEND_SIZE = 0"
      by (auto simp: write_data_def Let_def split: if_splits)
    then have "d = [] \<or> send_window s = 0" by (auto simp: MAX_SEND_SIZE_def min_def split: if_splits)
    with w z show ?thesis by (auto simp: write_data_def stuck_def)
  qed (use Cons assms in \<open>auto simp: write_one_def\<close>)
qed (use assms in \<open>auto simp: write_one_def stuck_def\<close>)

lemma write_pass_stuck:
  "write_pass sl m = (m', [], rms) \<Longrightarrow> (i, s) \<in> set m' \<Longrightarrow> stuck s"
  by (induction sl m arbitrary: m' rms rule: write_pass.induct)
     (auto split: prod.splits dest: write_one_stuck)

lemma write_loop_ok:
  "write_loop sl m out rms = (m', bs, rms') \<Longrightarrow> distinct (map fst m) \<Longrightarrow>
   (\<exists>fs r. bs = out @ wire fs \<and> rms' = rms @ r \<and> pass_ok m fs r m') \<and>
   (\<forall>(i, s) \<in> set m'. stuck s)"
proof (induction sl m out rms arbitrary: m' bs rms' rule: write_loop.induct)
  case (1 sl m out rms)
  obtain m1 b r where p: "write_pass sl m = (m1, b, r)" by (metis prod_cases3)
  obtain fs where fs: "b = wire fs" "pass_ok m fs r m1"
    using write_pass_ok [OF p 1(3)] by blast
  show ?case
  proof (cases "b = []")
    case True
    with 1(2) p have "m' = m1" "bs = out" "rms' = rms @ r"
      by (simp_all add: write_loop.simps [of sl m])
    moreover have "fs = []" using fs(1) True by simp
    ultimately show ?thesis using fs(2) True p
      by (intro conjI exI [of _ "[]"] exI [of _ r]) (auto dest: write_pass_stuck)
  next
    case False
    have "distinct (map fst m1)" using fs(2) 1(3) by (simp add: pass_ok_def)
    moreover have "write_loop sl m1 (out @ b) (rms @ r) = (m', bs, rms')"
      using 1(2) p False by (simp add: write_loop.simps [of sl m])
    ultimately obtain gs r' where "bs = (out @ b) @ wire gs" "rms' = (rms @ r) @ r'"
      "pass_ok m1 gs r' m'" "\<forall>(i, s) \<in> set m'. stuck s"
      using 1(1) [OF p [symmetric] refl False] by blast
    with fs pass_ok_trans [OF fs(2), of gs r' m'] show ?thesis
      by (intro conjI exI [of _ "fs @ gs"] exI [of _ "r @ r'"]) auto
  qed
qed

lemma bt_get_fold_remove:
  "bt_get (fold bt_remove ks m) k = (if k \<in> set ks then None else bt_get m k)"
  by (induction ks arbitrary: m) auto

lemma gather_ok:
  assumes "bt_sorted (streams sh)" and "gather sl sh = (bs, sh')"
  obtains fs rms m where "bs = wire fs" "pass_ok (streams sh) fs rms m"
    "sh' = sh\<lparr>streams := fold bt_remove rms m\<rparr>" "\<forall>(i, s) \<in> set m. stuck s"
proof -
  obtain m b rms where w: "write_loop sl (streams sh) [] [] = (m, b, rms)" by (metis prod_cases3)
  with assms(2) have "bs = b" "sh' = sh\<lparr>streams := fold bt_remove rms m\<rparr>"
    by (simp_all add: gather_def)
  with write_loop_ok [OF w bt_sorted_distinct [OF assms(1)]] that show ?thesis by auto
qed

lemma gather_stream:
  assumes "bt_sorted (streams sh)" and "gather sl sh = (bs, sh')"
  obtains fs where "parse_wire bs = Some fs" "\<forall>f\<in>set fs. length (snd f) \<le> MAX_SEND_SIZE"
    "\<And>f. f \<in> set fs \<Longrightarrow> get_stream sh (hstream_id (fst f)) \<noteq> None"
    "\<And>i s. get_stream sh i = Some s \<Longrightarrow>
       \<exists>s'. progress i s fs s' \<and> stuck s' \<and>
         (get_stream sh' i = Some s' \<or> MReset \<in> set (outbound_buf s) \<and> get_stream sh' i = None)"
    "\<And>i. get_stream sh i = None \<Longrightarrow> get_stream sh' i = None"
proof -
  obtain fs rms m where g: "bs = wire fs" "pass_ok (streams sh) fs rms m"
    "sh' = sh\<lparr>streams := fold bt_remove rms m\<rparr>" "\<forall>(i, s) \<in> set m. stuck s"
    using gather_ok [OF assms] by blast
  have dom: "i \<in> fst ` set m' \<longleftrightarrow> bt_get m' i \<noteq> None" for i and m' :: "(YamuxStreamId, StreamState) btree"
    by (simp add: bt_get_def map_of_eq_None_iff)
  have keys: "fst ` set m = fst ` set (streams sh)"
    using g(2) unfolding pass_ok_def by (metis set_map)
  show ?thesis
  proof
    show "parse_wire bs = Some fs"
      unfolding g(1) by (rule parse_wire_wire) (use g(2) in \<open>simp add: pass_ok_def\<close>)
    show "\<forall>f\<in>set fs. length (snd f) \<le> MAX_SEND_SIZE" using g(2) by (simp add: pass_ok_def)
    show "get_stream sh (hstream_id (fst f)) \<noteq> None" if "f \<in> set fs" for f
      using g(2) that unfolding pass_ok_def get_stream_def dom by blast
    show "get_stream sh' i = None" if "get_stream sh i = None" for i
      using that keys dom [of i m] dom [of i "streams sh"]
      unfolding g(3) by (simp add: get_stream_def bt_get_fold_remove)
    show "\<exists>s'. progress i s fs s' \<and> stuck s' \<and>
         (get_stream sh' i = Some s' \<or> MReset \<in> set (outbound_buf s) \<and> get_stream sh' i = None)"
      if get: "get_stream sh i = Some s" for i s
    proof -
      obtain s' where s': "bt_get m i = Some s'" "progress i s fs s'"
        "i \<in> set rms \<longrightarrow> MReset \<in> set (outbound_buf s)"
        using g(2) get unfolding pass_ok_def get_stream_def by blast
      have "(i, s') \<in> set m" using s'(1) by (simp add: bt_get_def map_of_SomeD)
      with g(4) have "stuck s'" by auto
      with s' show ?thesis unfolding g(3) by (auto simp: get_stream_def bt_get_fold_remove)
    qed
  qed
qed

lemma bt_sorted_gather: "bt_sorted (streams sh) \<Longrightarrow> bt_sorted (streams (snd (gather sl sh)))"
proof -
  assume srt: "bt_sorted (streams sh)"
  obtain bs sh' where g: "gather sl sh = (bs, sh')" by fastforce
  obtain fs rms m where ok: "pass_ok (streams sh) fs rms m"
    "sh' = sh\<lparr>streams := fold bt_remove rms m\<rparr>"
    using gather_ok [OF srt g] by metis
  have "bt_sorted m" using ok(1) srt by (simp add: pass_ok_def bt_sorted_def)
  then have "bt_sorted (fold bt_remove rms m)" by (induction rms arbitrary: m) auto
  with g ok(2) show ?thesis by simp
qed

lemma session_inv_gather:
  assumes "session_inv n sh" shows "session_inv n (snd (gather sl sh))"
proof -
  obtain bs sh' where g: "gather sl sh = (bs, sh')" by fastforce
  have srt: "bt_sorted (streams sh)" using assms by (simp add: session_inv_def)
  have "id_ok n i \<and> stream_ok s'" if get': "get_stream sh' i = Some s'" for i s'
  proof (cases "get_stream sh i")
    case None
    with gather_stream [OF srt g] get' show ?thesis by (metis option.distinct(1))
  next
    case (Some s)
    then have "id_ok n i" "stream_ok s" using assms by (auto simp: session_inv_def)
    moreover obtain fs where "progress i s fs s'"
      using gather_stream [OF srt g] Some get' by (metis option.distinct(1) option.inject)
    ultimately show ?thesis by (simp add: progress_def)
  qed
  with assms g bt_sorted_gather [OF srt, of sl] show ?thesis by (simp add: session_inv_def)
qed

lemma gather_in_order:
  assumes srt: "bt_sorted (streams sh)" and get: "get_stream sh i = Some s" and fit: "fits s"
    and rst: "MReset \<notin> set (outbound_buf s)" and g: "gather sl sh = (bs, sh')"
  shows "\<exists>fs s'. parse_wire bs = Some fs \<and> stream_events i fs = queue_events i s \<and>
    get_stream sh' i = Some s' \<and> outbound_buf s' = []"
proof (rule gather_stream [OF srt g])
  fix fs
  assume fs: "parse_wire bs = Some fs"
    and some: "\<And>i s. get_stream sh i = Some s \<Longrightarrow> \<exists>s'. progress i s fs s' \<and> stuck s' \<and>
         (get_stream sh' i = Some s' \<or> MReset \<in> set (outbound_buf s) \<and> get_stream sh' i = None)"
  obtain s' where s': "progress i s fs s'" "stuck s'" "get_stream sh' i = Some s'"
    using some [OF get] rst by blast
  have ev: "fits s'" "stream_events i fs @ queue_events i s' = queue_events i s"
    using s'(1) fit by (simp_all add: progress_def)
  have "outbound_buf s' = []"
  proof (rule ccontr)
    assume ne: "outbound_buf s' \<noteq> []"
    with s'(2) obtain d where d: "last (outbound_buf s') = MData d" "d = [] \<or> send_window s' = 0"
      by (auto simp: stuck_def)
    have mem: "MData d \<in> set (outbound_buf s')" using ne d(1) by (metis last_in_set)
    then have "data_size (MData d) \<in> set (map data_size (outbound_buf s'))"
      unfolding set_map by (rule imageI)
    from member_le_sum_list [OF this]
    have "length d \<le> sum_list (map data_size (outbound_buf s'))" by simp
    moreover have "sum_list (map data_size (outbound_buf s')) \<le> send_window s'"
      using ev(1) by (simp add: fits_def)
    ultimately have "length d \<le> send_window s'" by (rule order_trans)
    with d(2) have "d = []" by auto
    with mem ev(1) show False by (simp add: fits_def)
  qed
  with ev fs s'(3) show ?thesis by (auto simp: queue_events_def)
qed

section \<open>The write future returns\<close>

fun write_rank :: "write_pc \<Rightarrow> nat" where
  "write_rank WTop = 5"
| "write_rank (WGlobalA a b) = 4"
| "write_rank (WGlobalB b) = 3"
| "write_rank WStreams = 2"
| "write_rank (WBytes bs) = 1"
| "write_rank WWait = 0"

definition write_measure :: "write_pc \<Rightarrow> SharedState \<Rightarrow> nat" where
  "write_measure pc sh = write_rank pc + (if has_pending_writes sh \<and> pc \<noteq> WTop then 6 else 0)"

lemma has_pending_gather [simp]: "has_pending_writes (snd (gather sl sh)) = has_pending_writes sh"
  by (auto simp: gather_def split: prod.splits)

lemma write_await_loop:
  "write_await wr bs pc pc1 w sh = (WLoop, pc', w', sh') \<Longrightarrow> pc' = pc1 \<and> sh' = sh"
  by (auto simp: write_await_def split: prod.splits poll.splits sum.splits)

lemma write_advance_decreases:
  assumes "write_advance sl wr pc w sh = (WLoop, pc', w', sh')"
  shows "write_measure pc' sh' < write_measure pc sh"
proof (cases pc)
  case WStreams
  obtain bs s where g: "gather sl sh = (bs, s)" by fastforce
  with has_pending_gather [of sl sh] have "has_pending_writes s = has_pending_writes sh" by simp
  with assms WStreams g show ?thesis
    by (auto simp: write_advance_def write_measure_def split: if_splits)
qed (use assms in \<open>auto simp: write_advance_def write_measure_def Let_def split: if_splits
      dest!: write_await_loop\<close>)

lemma write_next_enough_fuel:
  "write_measure pc sh < fuel \<Longrightarrow> \<exists>r. write_next sl wr fuel pc w sh = Some r"
proof (induction fuel arbitrary: pc w sh)
  case (Suc fuel)
  obtain st pc' w' sh' where a: "write_advance sl wr pc w sh = (st, pc', w', sh')"
    by (metis prod_cases4)
  show ?case
  proof (cases st)
    case WLoop
    with a Suc.prems have "write_measure pc' sh' < fuel"
      using write_advance_decreases [of sl wr pc w sh pc' w' sh'] by simp
    from Suc.IH [OF this, of w'] a WLoop show ?thesis by simp
  qed (use a in simp_all)
qed simp

lemma write_measure_le: "write_measure pc sh \<le> 10"
  by (cases pc) (simp_all add: write_measure_def)

lemma session_inv_write_advance:
  assumes "session_inv n sh" "write_advance sl wr pc w sh = (st, pc', w', sh')"
  shows "session_inv n sh'"
proof (cases pc)
  case WStreams
  with assms session_inv_gather [OF assms(1), of sl] show ?thesis
    by (auto simp: write_advance_def split: prod.splits)
qed (use assms in \<open>auto simp: write_advance_def write_await_def session_inv_def get_stream_def Let_def
      split: prod.splits poll.splits sum.splits if_splits\<close>)

lemma session_inv_write_next:
  "session_inv n sh \<Longrightarrow> write_next sl wr fuel pc w sh = Some (r, pc', w', sh') \<Longrightarrow> session_inv n sh'"
proof (induction sl wr fuel pc w sh rule: write_next.induct)
  case (2 sl wr fuel pc w sh)
  obtain st pc1 w1 sh1 where a: "write_advance sl wr pc w sh = (st, pc1, w1, sh1)"
    by (metis prod_cases4)
  have "session_inv n sh1" using session_inv_write_advance [OF 2(2) a] .
  with 2 a show ?case by (cases st) auto
qed simp

section \<open>Properties\<close>

text \<open>
  (C16) Flow control. Whatever is queued on the streams, one round of \<open>write_next\<close> emits a
  well-formed sequence of frames, no payload exceeds \<open>MAX_SEND_SIZE\<close>, no frame is for a stream
  that is not in the table, and for every stream the payload bytes emitted are exactly what its
  send window loses: the remote's window is never overrun.
\<close>

theorem write_flow_control:
  assumes "session_inv n sh" and "gather sl sh = (bs, sh')"
  shows "\<exists>fs. parse_wire bs = Some fs \<and>
    (\<forall>f\<in>set fs. length (snd f) \<le> MAX_SEND_SIZE \<and> get_stream sh (hstream_id (fst f)) \<noteq> None) \<and>
    (\<forall>i s. get_stream sh i = Some s \<longrightarrow>
       stream_payload i fs \<le> send_window s \<and>
       (case get_stream sh' i of
          None \<Rightarrow> MReset \<in> set (outbound_buf s)
        | Some s' \<Rightarrow> send_window s' = send_window s - stream_payload i fs))"
proof -
  have "bt_sorted (streams sh)" using assms(1) by (simp add: session_inv_def)
  from gather_stream [OF this assms(2)] obtain fs where fs: "parse_wire bs = Some fs"
    "\<forall>f\<in>set fs. length (snd f) \<le> MAX_SEND_SIZE"
    "\<And>f. f \<in> set fs \<Longrightarrow> get_stream sh (hstream_id (fst f)) \<noteq> None"
    "\<And>i s. get_stream sh i = Some s \<Longrightarrow>
       \<exists>s'. progress i s fs s' \<and> stuck s' \<and>
         (get_stream sh' i = Some s' \<or> MReset \<in> set (outbound_buf s) \<and> get_stream sh' i = None)"
    by metis
  have "stream_payload i fs \<le> send_window s \<and>
       (case get_stream sh' i of
          None \<Rightarrow> MReset \<in> set (outbound_buf s)
        | Some s' \<Rightarrow> send_window s' = send_window s - stream_payload i fs)"
    if "get_stream sh i = Some s" for i s
    using fs(4) [OF that] by (auto simp: progress_def split: option.splits)
  with fs show ?thesis by blast
qed

theorem write_flow_control_witness:
  "\<exists>sh bs sh' fs. session_inv 3 sh \<and> gather (\<lambda>d. 2) sh = (bs, sh') \<and> parse_wire bs = Some fs \<and>
     stream_payload 1 fs \<le> 5"
proof -
  define s where "s = StreamState_new\<lparr>send_window := 5, outbound_buf := [MOpen, MData [1, 2, 3, 4, 5, 6, 7]]\<rparr>"
  define sh where "sh = SharedState_new\<lparr>streams := [(1, s)]\<rparr>"
  have inv: "session_inv 3 sh"
    by (auto simp: session_inv_def sh_def s_def get_stream_def bt_get_def SharedState_new_def
        bt_sorted_def id_ok_def stream_ok_def sid_is_even_def usize_max_def StreamState_new_def
        DEFAULT_WINDOW_def MAX_FRAME_SIZE_def split: if_splits)
  have get: "get_stream sh 1 = Some s" "send_window s = 5"
    by (simp_all add: sh_def s_def get_stream_def bt_get_def SharedState_new_def StreamState_new_def)
  obtain bs sh' where g: "gather (\<lambda>d. 2) sh = (bs, sh')" by fastforce
  from write_flow_control [OF inv g] get show ?thesis using inv g by fastforce
qed

text \<open>
  (C15) In-order delivery. If what is queued on a stream fits in its send window and the stream is
  not being reset, one round emits exactly the queued messages of that stream, in order (control
  frames, and every payload byte once), leaves the queue empty and keeps the stream, whatever the
  other streams do.
\<close>

theorem write_in_order:
  assumes "session_inv n sh" and "get_stream sh i = Some s" and "fits s"
    and "MReset \<notin> set (outbound_buf s)" and "gather sl sh = (bs, sh')"
  shows "\<exists>fs s'. parse_wire bs = Some fs \<and> stream_events i fs = queue_events i s \<and>
    get_stream sh' i = Some s' \<and> outbound_buf s' = []"
  using gather_in_order [OF _ assms(2-5)] assms(1) by (simp add: session_inv_def)

theorem write_in_order_witness:
  "\<exists>sh s. get_stream sh 1 = Some s \<and> outbound_buf s = [MOpen, MData [1, 2, 3], MClose] \<and>
     (\<exists>fs. parse_wire (fst (gather (\<lambda>d. 2) sh)) = Some fs \<and>
       stream_events 1 fs = [EvCtl (hdr_open_stream 1), EvByte 1, EvByte 2, EvByte 3,
                             EvCtl (hdr_close_stream 1)])"
proof -
  define s where "s = StreamState_new\<lparr>outbound_buf := [MOpen, MData [1, 2, 3], MClose]\<rparr>"
  define sh where "sh = SharedState_new\<lparr>streams := [(1, s)]\<rparr>"
  have inv: "session_inv 3 sh"
    by (auto simp: session_inv_def sh_def s_def get_stream_def bt_get_def SharedState_new_def
        bt_sorted_def id_ok_def sid_is_even_def split: if_splits)
  have get: "get_stream sh 1 = Some s" and q: "outbound_buf s = [MOpen, MData [1, 2, 3], MClose]"
    by (simp_all add: sh_def s_def get_stream_def bt_get_def SharedState_new_def)
  have fit: "fits s" and rst: "MReset \<notin> set (outbound_buf s)"
    by (simp_all add: fits_def s_def StreamState_new_def DEFAULT_WINDOW_def)
  obtain bs sh' where g: "gather (\<lambda>d. 2) sh = (bs, sh')" by fastforce
  from write_in_order [OF inv get fit rst g] get q g show ?thesis
    by (intro exI [of _ sh] exI [of _ s]) (auto simp: queue_events_def)
qed



text \<open>
  Every poll of the write future returns: whatever the writer does, eleven steps are enough
  to reach a \<open>Pending\<close> or an error.
\<close>

theorem write_next_returns: "\<exists>r. write_next sl wr 11 pc w sh = Some r"
  using write_next_enough_fuel [of pc sh 11] write_measure_le [of pc sh] by fastforce

text \<open>
  Data that has to wait for a window update is put at the back of the stream's queue, behind
  a scheduled \<open>close\<close>: when the window opens, the FIN is emitted first and the remaining data after
  it, although \<open>close_stream\<close> promises to wait for the scheduled data.
\<close>

theorem fin_overtakes_blocked_data:
  assumes "streams sh = [(i, s)]" and "outbound_buf s = [MData d, MClose]" and "send_window s = 0"
    and "open_state s = Open" and "d \<noteq> []" and "length d \<le> unat k"
  shows "\<exists>sh1 fs. gather sl sh = ([], sh1) \<and>
    parse_wire (fst (gather sl (snd (handle_frame (hdr_window_update i k) sh1)))) = Some fs \<and>
    stream_events i fs = EvCtl (hdr_close_stream i) # map EvByte d"
proof -
  define s1 where "s1 = s\<lparr>outbound_buf := [MClose, MData d]\<rparr>"
  define sh1 where "sh1 = sh\<lparr>streams := [(i, s1)]\<rparr>"
  define s2 where "s2 = s1\<lparr>send_window := saturating_add 0 (unat k)\<rparr>"
  define sh2 where "sh2 = snd (handle_frame (hdr_window_update i k) sh1)"
  have g1: "gather sl sh = ([], sh1)"
    using assms(1-3)
    by (simp add: gather_def write_loop.simps write_one_def write_data_def sh1_def s1_def)
  have get1: "get_stream sh1 i = Some s1" by (simp add: sh1_def get_stream_def bt_get_def)
  have sh2: "sh2 = set_stream i s2 (flush_writes sh1)"
    using get1 assms(3, 4)
    by (simp add: sh2_def handle_frame_def handle_window_update_def hdr_window_update_def Let_def
        frame_stream_def is_open_new_stream_def s1_def s2_def)
  have get2: "get_stream sh2 i = Some s2" by (simp add: sh2)
  have "unat k < 2 ^ 32" using unsigned_less [where ?'b = 32, of k] by simp
  then have "unat k \<le> usize_max" by (simp add: usize_max_def)
  then have fit: "fits s2"
    using assms(5, 6) by (simp add: fits_def s2_def s1_def saturating_add_def)
  have srt: "bt_sorted (streams sh2)" by (simp add: sh2 sh1_def bt_sorted_def)
  obtain bs sh3 where g2: "gather sl sh2 = (bs, sh3)" by fastforce
  have rst: "MReset \<notin> set (outbound_buf s2)" by (simp add: s2_def s1_def)
  from gather_in_order [OF srt get2 fit rst g2] g1 g2 show ?thesis
    by (auto simp: sh2_def s2_def s1_def queue_events_def)
qed

theorem fin_overtakes_blocked_data_witness:
  "\<exists>sh1 fs. gather (\<lambda>d. 1) (SharedState_new\<lparr>streams := [(1, StreamState_new\<lparr>send_window := 0,
        outbound_buf := [MData [7, 8], MClose]\<rparr>)]\<rparr>) = ([], sh1) \<and>
     parse_wire (fst (gather (\<lambda>d. 1) (snd (handle_frame (hdr_window_update 1 100) sh1)))) = Some fs \<and>
     stream_events 1 fs = [EvCtl (hdr_close_stream 1), EvByte 7, EvByte 8]"
  using fin_overtakes_blocked_data [of "SharedState_new\<lparr>streams := [(1, StreamState_new\<lparr>send_window := 0,
        outbound_buf := [MData [7, 8], MClose]\<rparr>)]\<rparr>" 1 "StreamState_new\<lparr>send_window := 0,
        outbound_buf := [MData [7, 8], MClose]\<rparr>" "[7, 8]" 100 "\<lambda>d. 1"]
  by (simp add: StreamState_new_def)

end
