(* ===== verification/YamuxSession.thy ===== *)
theory YamuxSession
  imports YamuxWrite
begin

text \<open>
  \<open>src/utils/read_write_join.rs\<close> and the \<open>YamuxSession\<close> object of \<open>src/layers/yamux.rs\<close>: the
  read and the write future are polled one after the other on the shared state, and \<open>next\<close>
  wraps the result.

  A future is a state and a poll operation on the world it shares with the other future.
  Polling a completed future, borrowing a \<open>RefCell\<close> that a suspended future holds mutably and
  the overflow of the stream identifier are panics. Everything \<open>next\<close> keeps between polls is in
  the session (its future only wraps \<open>poll_fn\<close>), so resuming a pending \<open>next\<close> and calling it
  again after dropping it are the same step \<open>yamux_next\<close>.
\<close>

section \<open>Joining a read and a write future\<close>

datatype 'a run = Panic | OutOfFuel | Done 'a

record ('f, 'g) ReadWriteJoin =
  write_errored :: bool
  write_fut :: 'g
  read_fut :: "'f option"

definition ReadWriteJoin_new :: "'g \<Rightarrow> ('f, 'g) ReadWriteJoin" where
  "ReadWriteJoin_new g = \<lparr>write_errored = False, write_fut = g, read_fut = None\<rparr>"

text \<open>
  One poll of the future returned by \<open>call\<close>. \<open>new_read\<close> is the read future that \<open>read_fn\<close>
  creates; the write future never completes, so a poll of it is pending (\<open>None\<close>) or an error.
\<close>

definition join_call ::
  "'f \<Rightarrow> ('f \<Rightarrow> 's \<Rightarrow> (('e + 't) poll \<times> 'f \<times> 's) run) \<Rightarrow> ('g \<Rightarrow> 's \<Rightarrow> ('e option \<times> 'g \<times> 's) run)
     \<Rightarrow> ('f, 'g) ReadWriteJoin \<Rightarrow> 's \<Rightarrow> (('e + 't) poll \<times> ('f, 'g) ReadWriteJoin \<times> 's) run" where
  "join_call new_read poll_read poll_write j s0 =
     (let fut = (case read_fut j of Some f \<Rightarrow> f | None \<Rightarrow> new_read) in
      case poll_read fut s0 of
        Panic \<Rightarrow> Panic
      | OutOfFuel \<Rightarrow> OutOfFuel
      | Done (read_poll, fut', s1) \<Rightarrow>
          (let after_read = (\<lambda>j s. case read_poll of
                 Pending \<Rightarrow> Done (Pending, j\<lparr>read_fut := Some fut'\<rparr>, s)
               | Ready r \<Rightarrow> Done (Ready r, j\<lparr>read_fut := None\<rparr>, s))
           in if write_errored j then after_read j s1
              else case poll_write (write_fut j) s1 of
                Panic \<Rightarrow> Panic
              | OutOfFuel \<Rightarrow> OutOfFuel
              | Done (None, g, s2) \<Rightarrow> after_read (j\<lparr>write_fut := g\<rparr>) s2
              | Done (Some e, g, s2) \<Rightarrow>
                  Done (Ready (Inl e),
                        j\<lparr>write_fut := g, write_errored := True, read_fut := Some fut'\<rparr>, s2)))"

section \<open>The session\<close>

datatype read_fut_state = Running read_pc | Completed

record 'r YamuxWorld =
  yw_reader :: 'r
  yw_inbound_buf :: bytes
  yw_shared_state :: SharedState

record ('r, 'w) YamuxSession =
  ys_world :: "'r YamuxWorld"
  read_write_join :: "(read_fut_state, write_pc \<times> 'w) ReadWriteJoin"
  next_stream_id :: YamuxStreamId
  ys_finished :: bool
  data_len :: nat

definition yamux_new :: "'r \<Rightarrow> 'w \<Rightarrow> ('r, 'w) YamuxSession" where
  "yamux_new reader writer =
     \<lparr>ys_world = \<lparr>yw_reader = reader, yw_inbound_buf = replicate MAX_FRAME_SIZE 0,
                  yw_shared_state = SharedState_new\<rparr>,
      read_write_join = ReadWriteJoin_new (WTop, writer), next_stream_id = sid_first,
      ys_finished = False, data_len = 0\<rparr>"

definition poll_read_fut ::
  "'r read_op \<Rightarrow> nat \<Rightarrow> read_fut_state \<Rightarrow> 'r YamuxWorld
     \<Rightarrow> ((yamux_error + Output option) poll \<times> read_fut_state \<times> 'r YamuxWorld) run" where
  "poll_read_fut rd fuel fut w =
     (case fut of
        Completed \<Rightarrow> Panic
      | Running pc \<Rightarrow>
          (case read_next rd fuel
                  \<lparr>rf_pc = pc, rf_reader = yw_reader w, rf_buf = yw_inbound_buf w\<rparr>
                  (yw_shared_state w) of
             None \<Rightarrow> OutOfFuel
           | Some (res, f, sh) \<Rightarrow>
               Done (res, if res = Pending then Running (rf_pc f) else Completed,
                     \<lparr>yw_reader = rf_reader f, yw_inbound_buf = rf_buf f, yw_shared_state = sh\<rparr>)))"

definition poll_write_fut ::
  "(bytes \<Rightarrow> nat) \<Rightarrow> 'w write_op \<Rightarrow> nat \<Rightarrow> write_pc \<times> 'w \<Rightarrow> 'r YamuxWorld
     \<Rightarrow> (yamux_error option \<times> (write_pc \<times> 'w) \<times> 'r YamuxWorld) run" where
  "poll_write_fut sl wr fuel g w =
     (case write_next sl wr fuel (fst g) (snd g) (yw_shared_state w) of
        None \<Rightarrow> OutOfFuel
      | Some (e, pc, wtr, sh) \<Rightarrow> Done (e, (pc, wtr), w\<lparr>yw_shared_state := sh\<rparr>))"

definition yamux_next_inner ::
  "'r read_op \<Rightarrow> 'w write_op \<Rightarrow> (bytes \<Rightarrow> nat) \<Rightarrow> nat \<Rightarrow> ('r, 'w) YamuxSession
     \<Rightarrow> ((yamux_error + Output option) poll \<times> ('r, 'w) YamuxSession) run" where
  "yamux_next_inner rd wr sl fuel s =
     (case join_call (Running AtTop) (poll_read_fut rd fuel) (poll_write_fut sl wr fuel)
             (read_write_join s) (ys_world s) of
        Panic \<Rightarrow> Panic
      | OutOfFuel \<Rightarrow> OutOfFuel
      | Done (res, j, w) \<Rightarrow> Done (res, s\<lparr>read_write_join := j, ys_world := w\<rparr>))"

definition yamux_next ::
  "'r read_op \<Rightarrow> 'w write_op \<Rightarrow> (bytes \<Rightarrow> nat) \<Rightarrow> nat \<Rightarrow> ('r, 'w) YamuxSession
     \<Rightarrow> ((yamux_error + Output) option poll \<times> ('r, 'w) YamuxSession) run" where
  "yamux_next rd wr sl fuel s0 =
     (let s = s0\<lparr>data_len := 0\<rparr> in
      if ys_finished s then Done (Ready None, s)
      else case yamux_next_inner rd wr sl fuel s of
        Panic \<Rightarrow> Panic
      | OutOfFuel \<Rightarrow> OutOfFuel
      | Done (Pending, s) \<Rightarrow> Done (Pending, s)
      | Done (Ready (Inl e), s) \<Rightarrow> Done (Ready (Some (Inl e)), s\<lparr>ys_finished := True\<rparr>)
      | Done (Ready (Inr None), s) \<Rightarrow> Done (Ready None, s\<lparr>ys_finished := True\<rparr>)
      | Done (Ready (Inr (Some output)), s) \<Rightarrow>
          Done (Ready (Some (Inr output)),
            (case out_state output of OData len \<Rightarrow> s\<lparr>data_len := len\<rparr> | _ \<Rightarrow> s)))"

text \<open>
  \<open>data\<close> borrows the inbound buffer: a panic (\<open>None\<close>) while a suspended read future holds it.
\<close>

fun holds_borrow :: "read_fut_state option \<Rightarrow> bool" where
  "holds_borrow (Some (Running _)) = True"
| "holds_borrow _ = False"

definition yamux_data :: "('r, 'w) YamuxSession \<Rightarrow> bytes option" where
  "yamux_data s =
     (if holds_borrow (read_fut (read_write_join s)) then None
      else Some (take (data_len s) (yw_inbound_buf (ys_world s))))"

text \<open>The operations of theory \<open>Yamux\<close> on the session.\<close>

definition on_shared :: "(SharedState \<Rightarrow> SharedState) \<Rightarrow> ('r, 'w) YamuxSession \<Rightarrow> ('r, 'w) YamuxSession" where
  "on_shared f s = s\<lparr>ys_world := (ys_world s)\<lparr>yw_shared_state := f (yw_shared_state (ys_world s))\<rparr>\<rparr>"

abbreviation ys_shared :: "('r, 'w) YamuxSession \<Rightarrow> SharedState" where
  "ys_shared s \<equiv> yw_shared_state (ys_world s)"

definition session_open_stream ::
  "('r, 'w) YamuxSession \<Rightarrow> (YamuxStreamId \<times> ('r, 'w) YamuxSession) option" where
  "session_open_stream s =
     map_option (\<lambda>(i, n, sh). (i, (on_shared (\<lambda>_. sh) s)\<lparr>next_stream_id := n\<rparr>))
       (yamux_open_stream (next_stream_id s) (ys_shared s))"

definition session_send_data ::
  "YamuxStreamId \<Rightarrow> bytes \<Rightarrow> ('r, 'w) YamuxSession \<Rightarrow> (yamux_error + unit) \<times> ('r, 'w) YamuxSession" where
  "session_send_data i data s =
     (case yamux_send_data i data (ys_shared s) of (res, sh) \<Rightarrow> (res, on_shared (\<lambda>_. sh) s))"

section \<open>Sessions as a step relation\<close>

text \<open>
  Everything that can happen to a session: the operations of the layer above, a poll of \<open>next\<close>
  (with any amount of fuel), and the transport making progress between polls.
\<close>

inductive session_step ::
  "'r read_op \<Rightarrow> 'w write_op \<Rightarrow> (bytes \<Rightarrow> nat) \<Rightarrow> ('r, 'w) YamuxSession \<Rightarrow> ('r, 'w) YamuxSession \<Rightarrow> bool"
  for rd wr sl where
  st_open: "session_open_stream s = Some (i, s') \<Longrightarrow> session_step rd wr sl s s'"
| st_send: "session_send_data i data s = (res, s') \<Longrightarrow> session_step rd wr sl s s'"
| st_close: "session_step rd wr sl s (on_shared (yamux_close_stream i) s)"
| st_close_now: "session_step rd wr sl s (on_shared (yamux_close_stream_immediately i) s)"
| st_reset: "session_step rd wr sl s (on_shared (yamux_reset_stream_immediately i) s)"
| st_next: "yamux_next rd wr sl fuel s = Done (p, s') \<Longrightarrow> session_step rd wr sl s s'"
| st_transport: "session_step rd wr sl s (s\<lparr>ys_world := (ys_world s)\<lparr>yw_reader := r\<rparr>\<rparr>)"

inductive session_reachable ::
  "'r read_op \<Rightarrow> 'w write_op \<Rightarrow> (bytes \<Rightarrow> nat) \<Rightarrow> ('r, 'w) YamuxSession \<Rightarrow> bool"
  for rd wr sl where
  sr_new: "session_reachable rd wr sl (yamux_new r w)"
| sr_step: "session_reachable rd wr sl s \<Longrightarrow> session_step rd wr sl s s' \<Longrightarrow>
            session_reachable rd wr sl s'"

section \<open>Which streams are in the table\<close>

definition remote_streams :: "SharedState \<Rightarrow> nat" where
  "remote_streams sh = card {i. sid_is_even i \<and> get_stream sh i \<noteq> None}"

lemma finite_streams: "finite {i. get_stream sh i \<noteq> None}"
  by (rule finite_subset [of _ UNIV]) simp_all

lemma remote_streams_mono:
  assumes "\<And>i. get_stream sh' i \<noteq> None \<Longrightarrow> sid_is_even i \<Longrightarrow> get_stream sh i \<noteq> None"
  shows "remote_streams sh' \<le> remote_streams sh"
  unfolding remote_streams_def using assms by (intro card_mono) auto

lemma remote_streams_le_len:
  assumes "bt_sorted (streams sh)" shows "remote_streams sh \<le> bt_len (streams sh)"
proof -
  have "card {i. get_stream sh i \<noteq> None} = length (streams sh)"
    unfolding get_stream_def by (rule bt.card_entries [OF assms])
  moreover have "remote_streams sh \<le> card {i. get_stream sh i \<noteq> None}"
    unfolding remote_streams_def by (rule card_mono) auto
  ultimately show ?thesis by (simp add: bt_len_def)
qed

text \<open>A frame adds at most its own stream, and only below the limit.\<close>

definition keys_from :: "YamuxStreamId \<Rightarrow> SharedState \<Rightarrow> SharedState \<Rightarrow> bool" where
  "keys_from j sh sh' \<longleftrightarrow>
     (\<forall>i. get_stream sh' i \<noteq> None \<longrightarrow>
        get_stream sh i \<noteq> None \<or> i = j \<and> bt_len (streams sh) < MAX_STREAMS)"

lemma keys_from_refl [simp]: "keys_from j sh sh"
  by (simp add: keys_from_def)

lemma keys_from_frame_stream:
  "frame_stream hdr sh = (res, sh') \<Longrightarrow> keys_from (hstream_id hdr) sh sh'"
  by (auto simp: frame_stream_def negotiate_new_stream_request_def keys_from_def Let_def
      split: if_splits sum.splits bool.splits prod.splits)

lemma keys_bookkeeping:
  "get_stream sh (hstream_id hdr) \<noteq> None \<Longrightarrow> get_stream (data_bookkeeping hdr s sh) i \<noteq> None \<Longrightarrow>
   get_stream sh i \<noteq> None"
  by (auto simp: data_bookkeeping_def Let_def split: if_splits)

lemma keys_from_reset: "keys_from j sh (reset_stream_immediately_with_shared_state i sh)"
  by (auto simp: keys_from_def reset_stream_immediately_with_shared_state_def
      split: option.splits if_splits)

lemma keys_from_handle_data: "keys_from (hstream_id hdr) sh (snd (handle_data hdr sh))"
proof -
  obtain res sh1 where fs: "frame_stream hdr sh = (res, sh1)" by fastforce
  note k = keys_from_frame_stream [OF fs]
  show ?thesis
  proof (cases "\<exists>s is_new. res = Inr (Some (s, is_new)) \<and> open_state s \<noteq> FinByThem \<and> open_state s \<noteq> Reset")
    case True
    then obtain s is_new where r: "res = Inr (Some (s, is_new))"
      and op: "open_state s \<noteq> FinByThem" "open_state s \<noteq> Reset" by blast
    have get: "get_stream sh1 (hstream_id hdr) \<noteq> None"
      using frame_stream_get [OF fs [unfolded r]] by simp
    have "keys_from (hstream_id hdr) sh (data_bookkeeping hdr s sh1)"
      using k keys_bookkeeping [OF get] unfolding keys_from_def by blast
    with fs r op show ?thesis
      by (cases "open_state s") (auto simp: handle_data_def keys_from_def Let_def)
  next
    case False
    with fs k show ?thesis
      by (cases res) (auto simp: handle_data_def Let_def split: option.splits OpenState.splits)
  qed
qed

lemma keys_from_handle_window_update:
  "keys_from (hstream_id hdr) sh (snd (handle_window_update hdr sh))"
proof -
  obtain res sh1 where fs: "frame_stream hdr (flush_writes sh) = (res, sh1)" by fastforce
  have k: "keys_from (hstream_id hdr) sh sh1"
    using keys_from_frame_stream [OF fs] by (simp add: keys_from_def)
  show ?thesis
  proof (cases "\<exists>s is_new. res = Inr (Some (s, is_new))")
    case True
    then obtain s is_new where r: "res = Inr (Some (s, is_new))" by blast
    have get: "get_stream sh1 (hstream_id hdr) \<noteq> None"
      using frame_stream_get [OF fs [unfolded r]] by simp
    with fs r k show ?thesis
      by (auto simp: handle_window_update_def keys_from_def Let_def)
  qed (use fs k in \<open>cases res; auto simp: handle_window_update_def Let_def split: option.splits\<close>)
qed

lemma keys_from_handle_frame: "keys_from (hstream_id hdr) sh (snd (handle_frame hdr sh))"
proof (cases "hframe_type hdr")
  case FtPing
  then show ?thesis using keys_from_reset [of "hstream_id hdr" sh "hstream_id hdr"]
    by (simp add: handle_frame_def handle_ping_def Let_def keys_from_def)
next
  case FtGoAway
  then show ?thesis using keys_from_reset [of "hstream_id hdr" sh "hstream_id hdr"]
    by (auto simp: handle_frame_def handle_goaway_def Let_def keys_from_def
        split: option.splits GoAwayType.splits)
qed (simp_all add: handle_frame_def keys_from_handle_data keys_from_handle_window_update)

lemma remote_streams_handle_frame:
  assumes "bt_sorted (streams sh)" and "remote_streams sh \<le> MAX_STREAMS"
  shows "remote_streams (snd (handle_frame hdr sh)) \<le> MAX_STREAMS"
proof (cases "bt_len (streams sh) < MAX_STREAMS")
  case True
  let ?R = "\<lambda>sh. {i. sid_is_even i \<and> get_stream sh i \<noteq> None}"
  have "?R (snd (handle_frame hdr sh)) \<subseteq> insert (hstream_id hdr) (?R sh)"
    using keys_from_handle_frame [of hdr sh] by (auto simp: keys_from_def)
  then have "card (?R (snd (handle_frame hdr sh))) \<le> card (insert (hstream_id hdr) (?R sh))"
    by (rule card_mono [rotated]) simp
  also have "\<dots> \<le> Suc (card (?R sh))" by (rule card_insert_le_m1) simp_all
  finally show ?thesis
    using True remote_streams_le_len [OF assms(1)] by (simp add: remote_streams_def)
next
  case False
  have "remote_streams (snd (handle_frame hdr sh)) \<le> remote_streams sh"
    using keys_from_handle_frame [of hdr sh] False
    by (intro remote_streams_mono) (auto simp: keys_from_def)
  with assms(2) show ?thesis by simp
qed

section \<open>The invariant of a session\<close>

text \<open>What the read future keeps of the buffer, its frame and the buffered output.\<close>

definition output_fits :: "Output option \<Rightarrow> bool" where
  "output_fits ob \<longleftrightarrow> (\<forall>i n. ob = Some (mk_output i (OData n)) \<longrightarrow> n \<le> MAX_FRAME_SIZE)"

fun pc_fits :: "read_pc \<Rightarrow> bool" where
  "pc_fits (AtData hdr) = (unat (hlength hdr) \<le> MAX_FRAME_SIZE)"
| "pc_fits _ = True"

definition read_inv :: "YamuxStreamId \<Rightarrow> 'r ReadFuture \<Rightarrow> SharedState \<Rightarrow> bool" where
  "read_inv n f sh \<longleftrightarrow> session_inv n sh \<and> remote_streams sh \<le> MAX_STREAMS \<and>
     length (rf_buf f) = MAX_FRAME_SIZE \<and> pc_fits (rf_pc f) \<and> output_fits (output_buf sh)"

lemma output_fits_simps [simp]:
  "output_fits None" "output_fits (Some (mk_output i ClosedByRemote))"
  "output_fits (Some (mk_output i OpenedByRemote))"
  "output_fits (Some (mk_output i (OData n))) \<longleftrightarrow> n \<le> MAX_FRAME_SIZE"
  by (simp_all add: output_fits_def)

lemma output_buf_frame [simp]:
  "output_buf (flush_writes sh) = output_buf sh"
  "output_buf (set_stream i s sh) = output_buf sh"
  by (simp_all add: flush_writes_def set_stream_def)

lemma output_frame_stream: "frame_stream hdr sh = (res, sh') \<Longrightarrow> output_buf sh' = output_buf sh"
  by (auto simp: frame_stream_def negotiate_new_stream_request_def Let_def
      split: if_splits sum.splits bool.splits prod.splits)

lemma output_bookkeeping:
  "output_fits (output_buf sh) \<Longrightarrow> output_fits (output_buf (data_bookkeeping hdr s sh))"
  by (simp add: data_bookkeeping_def Let_def)

lemma output_handle_frame:
  assumes "output_fits (output_buf sh)" and "handle_frame hdr sh = (st, sh')"
    and "hframe_type hdr = FtData \<longrightarrow> unat (hlength hdr) \<le> MAX_FRAME_SIZE"
  shows "output_fits (output_buf sh') \<and> (\<forall>ob. st = Return (Inr ob) \<longrightarrow> output_fits ob)"
proof (cases "hframe_type hdr")
  case FtData
  obtain res sh1 where fs: "frame_stream hdr sh = (res, sh1)" by fastforce
  with assms(1) have "output_fits (output_buf (data_bookkeeping hdr s sh1))" for s
    by (simp add: output_bookkeeping output_frame_stream)
  with FtData fs output_frame_stream [OF fs] assms show ?thesis
    by (auto simp: handle_frame_def handle_data_def Let_def
        split: sum.splits option.splits OpenState.splits if_splits)
next
  case FtWindowUpdate
  obtain res sh1 where fs: "frame_stream hdr (flush_writes sh) = (res, sh1)" by fastforce
  with FtWindowUpdate output_frame_stream [OF fs] assms show ?thesis
    by (auto simp: handle_frame_def handle_window_update_def Let_def
        split: sum.splits option.splits if_splits)
next
  case FtPing
  with assms show ?thesis
    by (auto simp: handle_frame_def handle_ping_def reset_stream_immediately_with_shared_state_def
        Let_def split: if_splits option.splits)
next
  case FtGoAway
  with assms show ?thesis
    by (auto simp: handle_frame_def handle_goaway_def reset_stream_immediately_with_shared_state_def
        Let_def split: if_splits option.splits GoAwayType.splits)
qed

lemma read_inv_handle_frame:
  assumes "read_inv n f sh" and "handle_frame hdr sh = (st, sh')"
    and "hframe_type hdr = FtData \<longrightarrow> unat (hlength hdr) \<le> MAX_FRAME_SIZE"
  shows "session_inv n sh' \<and> remote_streams sh' \<le> MAX_STREAMS \<and> output_fits (output_buf sh') \<and>
    (\<forall>ob. st = Return (Inr ob) \<longrightarrow> output_fits ob)"
proof -
  have inv: "session_inv n sh" "output_fits (output_buf sh)" and srt: "bt_sorted (streams sh)"
    and rem: "remote_streams sh \<le> MAX_STREAMS"
    using assms(1) by (auto simp: read_inv_def session_inv_def)
  show ?thesis
    using session_inv_handle_frame [OF inv(1), of hdr] remote_streams_handle_frame [OF srt rem, of hdr]
      output_handle_frame [OF inv(2) assms(2, 3)] assms(2) by auto
qed

context async_read
begin

lemma read_inv_advance:
  assumes inv: "read_inv n f sh" and adv: "read_advance rd f sh = (st, f', sh')"
  shows "read_inv n f' sh' \<and> (\<forall>ob. st = RReturn (Inr ob) \<longrightarrow> output_fits ob)"
proof (cases "rf_pc f")
  case AtTop
  with assms show ?thesis
    by (auto simp: read_advance_def read_at_top_def read_inv_def remote_streams_def
        split: option.splits)
next
  case AtHeader
  have ok: "read_inv n (f\<lparr>rf_reader := r, rf_pc := AtTop\<rparr>) s \<and>
      (\<forall>ob. after_handler l = RReturn (Inr ob) \<longrightarrow> output_fits ob)"
    if "handle_frame hdr sh = (l, s)" "hframe_type hdr \<noteq> FtData" for hdr l s r
    using read_inv_handle_frame [OF inv that(1)] that(2) inv
    by (auto simp: read_inv_def after_handler_def split: loop_step.splits)
  from AtHeader adv inv show ?thesis
    by (auto simp: read_advance_def read_at_header_def Let_def dest: ok
        split: prod.splits poll.splits sum.splits if_splits)
       (auto simp: read_inv_def)
next
  case (AtData hdr)
  with inv have len: "unat (hlength hdr) \<le> MAX_FRAME_SIZE" by (simp add: read_inv_def)
  have ok: "read_inv n (f\<lparr>rf_pc := AtTop, rf_reader := r, rf_buf := write_front bs (rf_buf f)\<rparr>) s \<and>
      (\<forall>ob. after_handler l = RReturn (Inr ob) \<longrightarrow> output_fits ob)"
    if "handle_frame hdr sh = (l, s)" "rd (rf_reader f) (unat (hlength hdr)) = (Ready (Inr bs), r)"
    for l s r bs
    using read_inv_handle_frame [OF inv that(1)] rd_length [OF that(2)] len inv
    by (auto simp: read_inv_def after_handler_def write_front_def split: loop_step.splits)
  from AtData adv inv show ?thesis
    by (auto simp: read_advance_def read_at_data_def dest: ok
        split: prod.splits poll.splits sum.splits)
       (auto simp: read_inv_def)
qed

lemma read_inv_next:
  "read_inv n f sh \<Longrightarrow> read_next rd fuel f sh = Some (res, f', sh') \<Longrightarrow>
   read_inv n f' sh' \<and> (\<forall>ob. res = Ready (Inr ob) \<longrightarrow> output_fits ob)"
proof (induction fuel arbitrary: f sh)
  case (Suc fuel)
  obtain st f1 sh1 where adv: "read_advance rd f sh = (st, f1, sh1)"
    by (metis prod_cases3)
  with Suc read_inv_advance [OF Suc.prems(1) adv] show ?case
    by (cases st) auto
qed simp

end

text \<open>The write future adds no streams and no output.\<close>

definition write_frame :: "YamuxStreamId \<Rightarrow> SharedState \<Rightarrow> SharedState \<Rightarrow> bool" where
  "write_frame n sh sh' \<longleftrightarrow> session_inv n sh' \<and> output_buf sh' = output_buf sh \<and>
     (\<forall>i. get_stream sh' i \<noteq> None \<longrightarrow> get_stream sh i \<noteq> None)"

lemma write_frame_gather:
  assumes "session_inv n sh" shows "write_frame n sh (snd (gather sl sh))"
proof -
  obtain bs sh' where g: "gather sl sh = (bs, sh')" by fastforce
  have srt: "bt_sorted (streams sh)" using assms by (simp add: session_inv_def)
  have "output_buf sh' = output_buf sh"
    using g by (auto simp: gather_def split: prod.splits)
  moreover have "get_stream sh i \<noteq> None" if "get_stream sh' i \<noteq> None" for i
    using gather_stream [OF srt g] that by metis
  ultimately show ?thesis
    using session_inv_gather [OF assms, of sl] g by (simp add: write_frame_def)
qed

lemma write_frame_advance:
  assumes "session_inv n sh" and "write_advance sl wr pc w sh = (st, pc', w', sh')"
  shows "write_frame n sh sh'"
proof (cases pc)
  case WStreams
  with assms write_frame_gather [OF assms(1), of sl] show ?thesis
    by (auto simp: write_advance_def split: prod.splits)
qed (use assms session_inv_write_advance [OF assms] in
      \<open>auto simp: write_advance_def write_await_def write_frame_def get_stream_def Let_def
        split: prod.splits poll.splits sum.splits if_splits\<close>)

lemma write_frame_next:
  "session_inv n sh \<Longrightarrow> write_next sl wr fuel pc w sh = Some (r, pc', w', sh') \<Longrightarrow> write_frame n sh sh'"
proof (induction sl wr fuel pc w sh rule: write_next.induct)
  case (2 sl wr fuel pc w sh)
  obtain st pc1 w1 sh1 where a: "write_advance sl wr pc w sh = (st, pc1, w1, sh1)"
    by (metis prod_cases4)
  have "write_frame n sh sh1" using write_frame_advance [OF 2(2) a] .
  with 2 a show ?case by (cases st) (auto simp: write_frame_def)
qed simp

text \<open>The invariant of the world, and of the session.\<close>

definition world_inv :: "YamuxStreamId \<Rightarrow> 'r YamuxWorld \<Rightarrow> bool" where
  "world_inv n w \<longleftrightarrow> session_inv n (yw_shared_state w) \<and>
     remote_streams (yw_shared_state w) \<le> MAX_STREAMS \<and>
     length (yw_inbound_buf w) = MAX_FRAME_SIZE \<and> output_fits (output_buf (yw_shared_state w))"

fun fut_ok :: "read_fut_state option \<Rightarrow> bool" where
  "fut_ok (Some (Running pc)) = pc_fits pc"
| "fut_ok _ = True"

definition yamux_inv :: "('r, 'w) YamuxSession \<Rightarrow> bool" where
  "yamux_inv s \<longleftrightarrow> world_inv (next_stream_id s) (ys_world s) \<and> data_len s \<le> MAX_FRAME_SIZE \<and>
     fut_ok (read_fut (read_write_join s)) \<and>
     (read_fut (read_write_join s) = Some Completed \<or> write_errored (read_write_join s)
        \<longrightarrow> ys_finished s)"

lemma world_inv_write:
  assumes "world_inv n w" and "poll_write_fut sl wr fuel g w = Done (e, g', w')"
  shows "world_inv n w'"
proof -
  obtain pc wtr sh where nx: "write_next sl wr fuel (fst g) (snd g) (yw_shared_state w) = Some (e, pc, wtr, sh)"
    and w': "w' = w\<lparr>yw_shared_state := sh\<rparr>"
    using assms(2) by (auto simp: poll_write_fut_def split: option.splits)
  have inv: "session_inv n (yw_shared_state w)" using assms(1) by (simp add: world_inv_def)
  from write_frame_next [OF inv nx] have fr: "write_frame n (yw_shared_state w) sh" .
  then have "remote_streams sh \<le> remote_streams (yw_shared_state w)"
    by (intro remote_streams_mono) (simp add: write_frame_def)
  with fr assms(1) w' show ?thesis by (auto simp: world_inv_def write_frame_def)
qed

lemma world_inv_shared:
  assumes "world_inv n w" and "session_inv n' sh"
    and "\<And>i. get_stream sh i \<noteq> None \<Longrightarrow> sid_is_even i \<Longrightarrow> get_stream (yw_shared_state w) i \<noteq> None"
    and "output_buf sh = output_buf (yw_shared_state w)"
  shows "world_inv n' (w\<lparr>yw_shared_state := sh\<rparr>)"
  using assms remote_streams_mono [of sh "yw_shared_state w"] by (auto simp: world_inv_def)

lemma yamux_inv_new: "yamux_inv (yamux_new r w)"
  by (simp add: yamux_inv_def yamux_new_def world_inv_def session_inv_new ReadWriteJoin_new_def
      remote_streams_def) (simp add: SharedState_new_def get_stream_def bt_empty_def)

lemma yamux_inv_open:
  assumes "yamux_inv s" and "session_open_stream s = Some (i, s')"
  shows "yamux_inv s'"
proof -
  obtain n sh where op: "yamux_open_stream (next_stream_id s) (ys_shared s) = Some (i, n, sh)"
    and s': "s' = (on_shared (\<lambda>_. sh) s)\<lparr>next_stream_id := n\<rparr>"
    using assms(2) by (auto simp: session_open_stream_def)
  have inv: "session_inv (next_stream_id s) (ys_shared s)"
    using assms(1) by (simp add: yamux_inv_def world_inv_def)
  have "session_inv n sh" "i = next_stream_id s" using session_inv_open_stream [OF inv op] by simp_all
  moreover have "\<not> sid_is_even (next_stream_id s)" using inv by (simp add: session_inv_def)
  ultimately have "world_inv n ((ys_world s)\<lparr>yw_shared_state := sh\<rparr>)"
    using assms(1) op
    by (intro world_inv_shared [of "next_stream_id s"])
       (auto simp: yamux_inv_def yamux_open_stream_def Let_def split: option.splits if_splits)
  with assms(1) show ?thesis by (auto simp: s' yamux_inv_def on_shared_def)
qed

lemma yamux_inv_on_shared:
  assumes "yamux_inv s" and "session_inv (next_stream_id s) (f (ys_shared s))"
    and "\<And>i. get_stream (f (ys_shared s)) i \<noteq> None \<Longrightarrow> get_stream (ys_shared s) i \<noteq> None"
    and "output_buf (f (ys_shared s)) = output_buf (ys_shared s)"
  shows "yamux_inv (on_shared f s)"
  using assms world_inv_shared [of "next_stream_id s" "ys_world s" "next_stream_id s" "f (ys_shared s)"]
  by (auto simp: yamux_inv_def on_shared_def)

lemma yamux_inv_api:
  assumes "yamux_inv s"
  shows "yamux_inv (on_shared (\<lambda>_. snd (yamux_send_data i data (ys_shared s))) s)"
    and "yamux_inv (on_shared (yamux_close_stream i) s)"
    and "yamux_inv (on_shared (yamux_close_stream_immediately i) s)"
    and "yamux_inv (on_shared (yamux_reset_stream_immediately i) s)"
proof -
  have inv: "session_inv (next_stream_id s) (ys_shared s)"
    using assms by (simp add: yamux_inv_def world_inv_def)
  show "yamux_inv (on_shared (\<lambda>_. snd (yamux_send_data i data (ys_shared s))) s)"
    using session_inv_send_data [OF inv, of i data]
    by (intro yamux_inv_on_shared [OF assms])
       (auto simp: yamux_send_data_def Let_def
          split: option.splits if_splits BufferedOutboundMessage.splits)
  show "yamux_inv (on_shared (yamux_close_stream i) s)"
    using session_inv_close_stream [OF inv, of i]
    by (intro yamux_inv_on_shared [OF assms])
       (auto simp: yamux_close_stream_def split: option.splits if_splits)
  show "yamux_inv (on_shared (yamux_close_stream_immediately i) s)"
    using session_inv_close_immediately [OF inv, of i]
    by (intro yamux_inv_on_shared [OF assms])
       (auto simp: yamux_close_stream_immediately_def split: option.splits if_splits)
  show "yamux_inv (on_shared (yamux_reset_stream_immediately i) s)"
    using session_inv_reset [OF inv, of i]
    by (intro yamux_inv_on_shared [OF assms])
       (auto simp: yamux_reset_stream_immediately_def reset_stream_immediately_with_shared_state_def
          split: option.splits if_splits)
qed

context async_read
begin

lemma world_inv_read:
  assumes "world_inv n w" and "fut_ok (Some fut)"
    and "poll_read_fut rd fuel fut w = Done (res, fut', w')"
  shows "world_inv n w' \<and> fut_ok (Some fut') \<and> (res = Pending \<longrightarrow> fut' \<noteq> Completed) \<and>
    (\<forall>ob. res = Ready (Inr ob) \<longrightarrow> output_fits ob)"
proof -
  obtain pc f sh where fut: "fut = Running pc"
    and nx: "read_next rd fuel \<lparr>rf_pc = pc, rf_reader = yw_reader w, rf_buf = yw_inbound_buf w\<rparr>
        (yw_shared_state w) = Some (res, f, sh)"
    and w': "w' = \<lparr>yw_reader = rf_reader f, yw_inbound_buf = rf_buf f, yw_shared_state = sh\<rparr>"
    and fut': "fut' = (if res = Pending then Running (rf_pc f) else Completed)"
    using assms(3) by (auto simp: poll_read_fut_def split: read_fut_state.splits option.splits)
  have "read_inv n \<lparr>rf_pc = pc, rf_reader = yw_reader w, rf_buf = yw_inbound_buf w\<rparr> (yw_shared_state w)"
    using assms(1, 2) fut by (simp add: world_inv_def read_inv_def)
  from read_inv_next [OF this nx] fut' w' show ?thesis
    by (auto simp: world_inv_def read_inv_def)
qed

lemma yamux_next_inner_inv:
  assumes inv: "yamux_inv s" and "\<not> ys_finished s"
    and nx: "yamux_next_inner rd wr sl fuel s = Done (res, s')"
  shows "world_inv (next_stream_id s') (ys_world s') \<and> fut_ok (read_fut (read_write_join s')) \<and>
    data_len s' = data_len s \<and>
    (read_fut (read_write_join s') = Some Completed \<or> write_errored (read_write_join s')
       \<longrightarrow> (\<exists>e. res = Ready (Inl e))) \<and>
    (\<forall>ob. res = Ready (Inr ob) \<longrightarrow> output_fits ob)"
proof -
  let ?j = "read_write_join s"
  define fut where "fut = (case read_fut ?j of Some f \<Rightarrow> f | None \<Rightarrow> Running AtTop)"
  have w: "world_inv (next_stream_id s) (ys_world s)" and we: "\<not> write_errored ?j"
    and fut: "fut_ok (Some fut)"
    using assms(1, 2) by (auto simp: yamux_inv_def fut_def split: option.splits)
  obtain j w' where call: "join_call (Running AtTop) (poll_read_fut rd fuel) (poll_write_fut sl wr fuel)
      ?j (ys_world s) = Done (res, j, w')" and s': "s' = s\<lparr>read_write_join := j, ys_world := w'\<rparr>"
    using nx by (auto simp: yamux_next_inner_def split: run.splits)
  obtain rp fut' w1 where r: "poll_read_fut rd fuel fut (ys_world s) = Done (rp, fut', w1)"
    using call unfolding join_call_def fut_def [symmetric] Let_def by (auto split: run.splits)
  note r_inv = world_inv_read [OF w fut r]
  obtain e g w2 where wp: "poll_write_fut sl wr fuel (write_fut ?j) w1 = Done (e, g, w2)"
    using call r we unfolding join_call_def fut_def [symmetric] Let_def by (auto split: run.splits)
  have w2: "world_inv (next_stream_id s) w2" using world_inv_write [OF _ wp] r_inv by blast
  have "(e = None \<and> rp = Pending \<and> res = Pending \<and> w' = w2 \<and> j = ?j\<lparr>write_fut := g, read_fut := Some fut'\<rparr>)
      \<or> (e = None \<and> (\<exists>v. rp = Ready v \<and> res = Ready v) \<and> w' = w2 \<and> j = ?j\<lparr>write_fut := g, read_fut := None\<rparr>)
      \<or> (\<exists>e'. e = Some e' \<and> res = Ready (Inl e') \<and> w' = w2 \<and>
           j = ?j\<lparr>write_fut := g, write_errored := True, read_fut := Some fut'\<rparr>)"
    using call r we wp unfolding join_call_def fut_def [symmetric] Let_def
    by (auto split: option.splits poll.splits)
  with r_inv w2 we s' show ?thesis by auto
qed

lemma yamux_inv_next:
  assumes inv: "yamux_inv s" and nx: "yamux_next rd wr sl fuel s = Done (p, s')"
  shows "yamux_inv s'"
proof (cases "ys_finished s")
  case True
  with assms show ?thesis by (auto simp: yamux_next_def yamux_inv_def)
next
  case False
  have inv0: "yamux_inv (s\<lparr>data_len := 0\<rparr>)" "\<not> ys_finished (s\<lparr>data_len := 0\<rparr>)"
    using inv False by (auto simp: yamux_inv_def)
  obtain res s1 where inner: "yamux_next_inner rd wr sl fuel (s\<lparr>data_len := 0\<rparr>) = Done (res, s1)"
    using nx False by (auto simp: yamux_next_def Let_def split: run.splits)
  note i = yamux_next_inner_inv [OF inv0 inner]
  have "n \<le> MAX_FRAME_SIZE" if "res = Ready (Inr (Some out))" "out_state out = OData n" for out n
    using i that by (cases out) (auto simp: output_fits_def)
  with nx False inner i show ?thesis
    by (auto simp: yamux_next_def Let_def yamux_inv_def
        split: poll.splits sum.splits option.splits OutputState.splits)
qed

lemma yamux_next_no_panic:
  assumes "yamux_inv s" shows "yamux_next rd wr sl fuel s \<noteq> Panic"
proof (cases "ys_finished s")
  case False
  let ?j = "read_write_join s"
  have "read_fut ?j \<noteq> Some Completed" using assms False by (auto simp: yamux_inv_def)
  then have "join_call (Running AtTop) (poll_read_fut rd fuel) (poll_write_fut sl wr fuel) ?j (ys_world s)
      \<noteq> Panic"
    by (auto simp: join_call_def poll_read_fut_def poll_write_fut_def Let_def
        split: run.splits option.splits read_fut_state.splits poll.splits if_splits)
  with False show ?thesis
    by (auto simp: yamux_next_def yamux_next_inner_def Let_def
        split: run.splits poll.splits sum.splits option.splits)
qed (simp add: yamux_next_def)

lemma yamux_inv_step:
  assumes inv: "yamux_inv s" and "session_step rd wr sl s s'"
  shows "yamux_inv s'"
  using assms(2)
proof cases
  case (st_send i data res)
  then show ?thesis using yamux_inv_api(1) [OF inv, of i data]
    by (auto simp: session_send_data_def split: prod.splits)
next
  case (st_transport r)
  then show ?thesis using inv by (auto simp: yamux_inv_def world_inv_def)
qed (use inv yamux_inv_open yamux_inv_api yamux_inv_next in auto)

lemma yamux_inv_reachable: "session_reachable rd wr sl s \<Longrightarrow> yamux_inv s"
  by (induction rule: session_reachable.induct) (auto intro: yamux_inv_new yamux_inv_step)

end

text \<open>Enough fuel for both futures.\<close>

lemma run_cases3: "(\<And>a b c. x = Done (a, b, c) \<Longrightarrow> P) \<Longrightarrow> (x = Panic \<Longrightarrow> P) \<Longrightarrow> (x = OutOfFuel \<Longrightarrow> P) \<Longrightarrow> P"
  by (cases x) auto

lemma poll_write_fut_done: "11 \<le> fuel \<Longrightarrow> \<exists>e g' w'. poll_write_fut sl wr fuel g w = Done (e, g', w')"
  using write_next_enough_fuel [of "fst g" "yw_shared_state w" fuel sl wr "snd g"]
    write_measure_le [of "fst g" "yw_shared_state w"]
  by (fastforce simp: poll_write_fut_def)

context async_read
begin

lemma poll_read_fut_done:
  assumes "left (yw_reader w) + 4 \<le> fuel"
  shows "\<exists>res fut w'. poll_read_fut rd fuel (Running pc) w = Done (res, fut, w')"
proof -
  let ?f = "\<lparr>rf_pc = pc, rf_reader = yw_reader w, rf_buf = yw_inbound_buf w\<rparr>"
  have "pc_rank pc \<le> 3" by (cases pc) simp_all
  with assms obtain res where "read_next rd fuel ?f (yw_shared_state w) = Some res"
    using read_next_enough_fuel [of ?f fuel "yw_shared_state w"] by auto
  then show ?thesis by (cases res) (simp add: poll_read_fut_def)
qed

lemma yamux_next_done:
  assumes inv: "yamux_inv s" and fuel: "left (yw_reader (ys_world s)) + 11 \<le> fuel"
  shows "\<exists>p s'. yamux_next rd wr sl fuel s = Done (p, s')"
proof (cases "ys_finished s")
  case False
  let ?j = "read_write_join s"
  define fut where "fut = (case read_fut ?j of Some f \<Rightarrow> f | None \<Rightarrow> Running AtTop)"
  have "fut \<noteq> Completed"
    using inv False by (auto simp: yamux_inv_def fut_def split: option.splits)
  then obtain pc where "fut = Running pc" by (cases fut) auto
  with poll_read_fut_done [of "ys_world s" fuel pc] fuel obtain rp f w1
    where r: "poll_read_fut rd fuel fut (ys_world s) = Done (rp, f, w1)" by auto
  obtain e g w2 where w: "poll_write_fut sl wr fuel (write_fut ?j) w1 = Done (e, g, w2)"
    using poll_write_fut_done [of fuel] fuel by (metis add_leE)
  have "\<exists>res j w'. join_call (Running AtTop) (poll_read_fut rd fuel) (poll_write_fut sl wr fuel)
      ?j (ys_world s) = Done (res, j, w')"
    unfolding join_call_def fut_def [symmetric] Let_def using r w
    by (auto split: poll.splits option.splits)
  with False show ?thesis
    by (fastforce simp: yamux_next_def yamux_next_inner_def Let_def
        split: poll.splits sum.splits option.splits)
qed (simp add: yamux_next_def)

end

text \<open>What both futures preserve of the world, a poll of the pair preserves.\<close>

lemma join_call_world:
  assumes call: "join_call new_read pr pw j s0 = Done (res, j', s')"
    and r: "\<And>f x f' s s1. pr f s = Done (x, f', s1) \<Longrightarrow> I s \<Longrightarrow> I s1"
    and w: "\<And>g e g' s s1. pw g s = Done (e, g', s1) \<Longrightarrow> I s \<Longrightarrow> I s1"
    and "I s0"
  shows "I s'"
proof -
  define fut where "fut = (case read_fut j of Some f \<Rightarrow> f | None \<Rightarrow> new_read)"
  obtain rp fut' s1 where p: "pr fut s0 = Done (rp, fut', s1)"
    using call unfolding join_call_def fut_def [symmetric] Let_def by (auto split: run.splits)
  have "I s1" using r [OF p \<open>I s0\<close>] .
  show ?thesis
  proof (cases "write_errored j")
    case True
    with call p \<open>I s1\<close> show ?thesis
      unfolding join_call_def fut_def [symmetric] Let_def by (auto split: poll.splits)
  next
    case False
    then obtain e g s2 where q: "pw (write_fut j) s1 = Done (e, g, s2)"
      using call p unfolding join_call_def fut_def [symmetric] Let_def by (auto split: run.splits)
    have "I s2" using w [OF q \<open>I s1\<close>] .
    with call p q False show ?thesis
      unfolding join_call_def fut_def [symmetric] Let_def by (auto split: poll.splits option.splits)
  qed
qed

text \<open>Polling never makes more bytes available.\<close>

context async_read
begin

lemma rd_mono_eq: "rd r n = (p, r') \<Longrightarrow> left r' \<le> left r"
  using rd_mono [of r n] by simp

lemma read_advance_left:
  "read_advance rd f sh = (st, f', sh') \<Longrightarrow> left (rf_reader f') \<le> left (rf_reader f)"
  by (auto simp: read_advance_def read_at_top_def read_at_header_def read_at_data_def Let_def
      dest!: rd_mono_eq
      split: read_pc.splits option.splits prod.splits poll.splits sum.splits if_splits)

lemma read_next_left:
  "read_next rd fuel f sh = Some (res, f', sh') \<Longrightarrow> left (rf_reader f') \<le> left (rf_reader f)"
proof (induction fuel arbitrary: f sh)
  case (Suc fuel)
  obtain st f1 sh1 where adv: "read_advance rd f sh = (st, f1, sh1)"
    by (metis prod_cases3)
  show ?case
  proof (cases st)
    case RLoop
    with Suc adv have "left (rf_reader f') \<le> left (rf_reader f1)" by simp
    with read_advance_left [OF adv] show ?thesis by linarith
  qed (use Suc.prems adv read_advance_left [OF adv] in auto)
qed simp

lemma yamux_next_left:
  assumes "yamux_next rd wr sl fuel s = Done (p, s')"
  shows "left (yw_reader (ys_world s')) \<le> left (yw_reader (ys_world s))"
proof (cases "ys_finished s")
  case True
  with assms show ?thesis by (auto simp: yamux_next_def)
next
  case False
  let ?L = "left (yw_reader (ys_world s))"
  obtain x s1 where i: "yamux_next_inner rd wr sl fuel (s\<lparr>data_len := 0\<rparr>) = Done (x, s1)"
    and s1: "ys_world s' = ys_world s1"
    using assms False
    by (auto simp: yamux_next_def Let_def
        split: run.splits poll.splits sum.splits option.splits OutputState.splits)
  then obtain j where call: "join_call (Running AtTop) (poll_read_fut rd fuel) (poll_write_fut sl wr fuel)
      (read_write_join s) (ys_world s) = Done (x, j, ys_world s1)"
    by (auto simp: yamux_next_inner_def split: run.splits)
  have "left (yw_reader (ys_world s1)) \<le> ?L"
  proof (rule join_call_world [OF call])
    show "left (yw_reader w1) \<le> ?L"
      if "poll_read_fut rd fuel f w = Done (y, f', w1)" "left (yw_reader w) \<le> ?L" for f y f' w w1
      using that by (fastforce simp: poll_read_fut_def dest!: read_next_left
          split: read_fut_state.splits option.splits)
    show "left (yw_reader w1) \<le> ?L"
      if "poll_write_fut sl wr fuel g w = Done (e, g', w1)" "left (yw_reader w) \<le> ?L" for g e g' w w1
      using that by (auto simp: poll_write_fut_def split: option.splits)
  qed simp
  with s1 show ?thesis by simp
qed

lemma yamux_next_output_data:
  assumes "yamux_next rd wr sl fuel s = Done (Ready (Some (Inr out)), s')"
  shows "yamux_data s' = Some (take (data_len s') (yw_inbound_buf (ys_world s')))"
proof -
  obtain s1 where i: "yamux_next_inner rd wr sl fuel (s\<lparr>data_len := 0\<rparr>) = Done (Ready (Inr (Some out)), s1)"
    and s1: "read_write_join s' = read_write_join s1"
    using assms
    by (auto simp: yamux_next_def Let_def
        split: if_splits run.splits poll.splits sum.splits option.splits OutputState.splits)
  have "read_fut (read_write_join s1) = None"
    using i by (auto simp: yamux_next_inner_def join_call_def Let_def
        split: run.splits if_splits option.splits poll.splits)
  with s1 show ?thesis by (simp add: yamux_data_def)
qed

end

section \<open>Properties\<close>

text \<open>
  (C2) The session invariant. Whatever the remote sends, whatever the transport answers and in
  whatever order the layer above calls the operations, in every reachable session: the table is
  sorted and free of duplicates, contains no session stream, only even (remote) identifiers and odd
  identifiers below the next one; the remote has opened at most \<open>MAX_STREAMS\<close> of the streams; every
  stream the remote may still send on has a receive window between the default and a full frame;
  the data that \<open>data\<close> slices is inside the buffer, and no poll panics on a completed future.
\<close>

theorem yamux_session_invariant:
  assumes "async_read rd left" and "session_reachable rd wr sl s"
  shows "bt_sorted (streams (ys_shared s)) \<and> remote_streams (ys_shared s) \<le> MAX_STREAMS \<and>
    (\<forall>i st. get_stream (ys_shared s) i = Some st \<longrightarrow>
       i \<noteq> 0 \<and> (sid_is_even i \<or> i < next_stream_id s) \<and>
       (open_state st = Open \<or> open_state st = FinByUs \<longrightarrow>
          DEFAULT_WINDOW \<le> recv_window st \<and> recv_window st \<le> MAX_FRAME_SIZE)) \<and>
    data_len s \<le> length (yw_inbound_buf (ys_world s)) \<and>
    yamux_next rd wr sl fuel s \<noteq> Panic"
proof -
  have inv: "yamux_inv s" using async_read.yamux_inv_reachable [OF assms] .
  then have "yamux_next rd wr sl fuel s \<noteq> Panic"
    using async_read.yamux_next_no_panic [OF assms(1)] by blast
  with inv show ?thesis
    by (auto simp: yamux_inv_def world_inv_def session_inv_def id_ok_def stream_ok_def)
qed

theorem yamux_session_invariant_witness:
  "\<exists>s. session_open_stream (yamux_new mock_new mock_new) = Some (1, s) \<and>
     remote_streams (ys_shared s) \<le> MAX_STREAMS \<and> get_stream (ys_shared s) 1 \<noteq> None \<and>
     yamux_next mock_read_exact mock_write_all (\<lambda>d. 0) 9 s \<noteq> Panic"
proof -
  let ?s0 = "yamux_new mock_new mock_new"
  obtain s where op: "session_open_stream ?s0 = Some (1, s)" and get: "get_stream (ys_shared s) 1 \<noteq> None"
    by (auto simp: session_open_stream_def yamux_open_stream_def yamux_new_def sid_first_def
        sid_increment_def on_shared_def Let_def)
  have "session_reachable mock_read_exact mock_write_all (\<lambda>d. 0) s"
    by (rule sr_step [OF sr_new st_open [OF op]])
  from yamux_session_invariant [OF mock.async_read_axioms this, of 9] op get show ?thesis by blast
qed

text \<open>
  (C24) The end of a session is final: \<open>next\<close> answers an error or \<open>None\<close> only by marking the session
  finished, and a finished session answers \<open>None\<close> to every further call and changes nothing but
  clearing \<open>data\<close>.
\<close>

theorem yamux_next_final:
  assumes "yamux_next rd wr sl fuel s = Done (Ready r, s')" and "\<nexists>out. r = Some (Inr out)"
  shows "ys_finished s' \<and> data_len s' = 0 \<and>
    (\<forall>fuel'. yamux_next rd wr sl fuel' s' = Done (Ready None, s'))"
proof -
  have len: "data_len s1 = 0" if "yamux_next_inner rd wr sl fuel (s\<lparr>data_len := 0\<rparr>) = Done (x, s1)" for x s1
    using that by (auto simp: yamux_next_inner_def split: run.splits)
  have fin: "ys_finished s' \<and> data_len s' = 0"
    using assms
    by (auto simp: yamux_next_def Let_def
        split: if_splits run.splits poll.splits sum.splits option.splits)
       (use len in \<open>fastforce+\<close>)
  then have "s'\<lparr>data_len := 0\<rparr> = s'" by simp
  with fin show ?thesis by (simp add: yamux_next_def)
qed

theorem yamux_next_final_witness:
  "\<exists>s'. yamux_next (\<lambda>r n. (Ready (Inl (AsyncReadError (OpaqueError 7))), r)) mock_write_all (\<lambda>d. 0) 11
       (yamux_new () mock_new)
     = Done (Ready (Some (Inl (YAsyncRead (AsyncReadError (OpaqueError 7))))), s') \<and>
     yamux_next (\<lambda>r n. (Ready (Inl (AsyncReadError (OpaqueError 7))), r)) mock_write_all (\<lambda>d. 0) 11 s'
     = Done (Ready None, s')"
proof -
  let ?rd = "\<lambda>r n. (Ready (Inl (AsyncReadError (OpaqueError 7))), r) :: (async_read_error + bytes) poll \<times> unit"
  let ?e = "Some (Inl (YAsyncRead (AsyncReadError (OpaqueError 7))))"
  have "\<exists>s'. yamux_next ?rd mock_write_all (\<lambda>d. 0) 11 (yamux_new () mock_new) = Done (Ready ?e, s')"
    by (simp add: yamux_next_def yamux_next_inner_def yamux_new_def join_call_def ReadWriteJoin_new_def
        poll_read_fut_def poll_write_fut_def eval_nat_numeral read_advance_def read_at_top_def
        read_at_header_def write_advance_def gather_def write_loop.simps SharedState_new_def bt_empty_def)
  then obtain s' where nx: "yamux_next ?rd mock_write_all (\<lambda>d. 0) 11 (yamux_new () mock_new)
      = Done (Ready ?e, s')" ..
  from yamux_next_final [OF nx] nx show ?thesis by blast
qed

text \<open>
  Every poll of \<open>next\<close> comes back: in a reachable session, with fuel for the bytes the
  transport can still deliver, both futures end their loops and the poll yields a result or
  \<open>Pending\<close>.
\<close>

theorem yamux_next_returns:
  assumes "async_read rd left" and "session_reachable rd wr sl s"
    and "left (yw_reader (ys_world s)) + 11 \<le> fuel"
  shows "\<exists>p s'. yamux_next rd wr sl fuel s = Done (p, s')"
  using async_read.yamux_next_done [OF assms(1) async_read.yamux_inv_reachable [OF assms(1, 2)] assms(3)] .

theorem yamux_next_returns_witness:
  "\<exists>p s'. yamux_next mock_read_exact mock_write_all (\<lambda>d. 0) 25
     (yamux_new (mock_extend (header_encode (hdr_open_stream 2)) mock_new) mock_new) = Done (p, s')"
  by (rule yamux_next_returns [OF mock.async_read_axioms sr_new])
     (simp add: yamux_new_def mock_new_def)

text \<open>
  \<open>data\<close> is usable only between polls that completed: while a read is suspended, which is
  the case whenever \<open>next\<close> returned \<open>Pending\<close> and was dropped, \<open>data\<close> panics on the buffer the
  suspended read future still borrows, where its documentation promises an empty slice.
\<close>

theorem data_panics_after_cancelled_next:
  assumes "yamux_next rd wr sl fuel s = Done (Pending, s')"
  shows "yamux_data s' = None"
proof -
  have nf: "\<not> ys_finished s" using assms by (auto simp: yamux_next_def)
  have fut: "poll_read_fut rd fuel fut w \<noteq> Done (Pending, Completed, w')" for fut w w'
    by (auto simp: poll_read_fut_def split: read_fut_state.splits option.splits)
  obtain j w where call: "join_call (Running AtTop) (poll_read_fut rd fuel) (poll_write_fut sl wr fuel)
      (read_write_join s) (ys_world s) = Done (Pending, j, w)" and s': "read_write_join s' = j"
    using assms nf
    by (auto simp: yamux_next_def yamux_next_inner_def Let_def
        split: run.splits poll.splits sum.splits option.splits OutputState.splits)
  have "\<exists>f. read_fut j = Some f \<and> f \<noteq> Completed"
    using call by (auto simp: join_call_def Let_def fut
        split: run.splits poll.splits option.splits if_splits)
  then obtain pc where "read_fut j = Some (Running pc)" by (metis read_fut_state.exhaust)
  then show ?thesis using s' by (simp add: yamux_data_def)
qed

theorem data_panics_after_cancelled_next_witness:
  "\<exists>s'. yamux_next mock_read_exact mock_write_all (\<lambda>d. 0) 11 (yamux_new mock_new mock_new)
     = Done (Pending, s') \<and> yamux_data s' = None"
proof -
  have "\<exists>s'. yamux_next mock_read_exact mock_write_all (\<lambda>d. 0) 11 (yamux_new mock_new mock_new)
     = Done (Pending, s')"
    by (simp add: yamux_next_def yamux_next_inner_def yamux_new_def join_call_def ReadWriteJoin_new_def
        poll_read_fut_def poll_write_fut_def eval_nat_numeral read_advance_def read_at_top_def
        read_at_header_def write_advance_def gather_def write_loop.simps SharedState_new_def bt_empty_def
        mock_read_exact_def mock_new_def YAMUX_FRAME_HEADER_SIZE_def)
  with data_panics_after_cancelled_next show ?thesis by blast
qed

text \<open>
  A stream that both sides have closed stays: neither the frames the remote may still send on
  it nor the rounds of the write future remove it from the table, so it counts towards
  \<open>MAX_STREAMS\<close> for the rest of the session.
\<close>

theorem closed_stream_is_kept:
  assumes "session_inv n sh" and "get_stream sh i = Some s" and "open_state s = Reset"
    and "outbound_buf s = []" and "hframe_type hdr = FtData \<or> hframe_type hdr = FtWindowUpdate"
  shows "get_stream (snd (handle_frame hdr sh)) i = Some s \<and> get_stream (snd (gather sl sh)) i \<noteq> None"
proof
  have fs: "get_stream sh' i = Some s" if "frame_stream hdr sh0 = (res, sh')" "get_stream sh0 i = Some s"
    for res sh' sh0
    using that by (auto simp: frame_stream_def negotiate_new_stream_request_def Let_def
        split: if_splits sum.splits bool.splits prod.splits)
  have same: "s' = s" if "frame_stream hdr sh0 = (Inr (Some (s', is_new)), sh')"
    "get_stream sh0 i = Some s" "hstream_id hdr = i" for s' sh' sh0 is_new
    using frame_stream_get [OF that(1)] fs [OF that(1, 2)] that(3) by simp
  have book: "get_stream (data_bookkeeping hdr s' sh0) i = get_stream sh0 i" if "hstream_id hdr \<noteq> i" for s' sh0
    using that by (auto simp: data_bookkeeping_def Let_def)
  obtain r1 sh1 where f1: "frame_stream hdr sh = (r1, sh1)" by fastforce
  obtain r2 sh2 where f2: "frame_stream hdr (flush_writes sh) = (r2, sh2)" by fastforce
  have g: "get_stream sh1 i = Some s" "get_stream sh2 i = Some s"
    using fs [OF f1 assms(2)] fs [OF f2] assms(2) by simp_all
  show "get_stream (snd (handle_frame hdr sh)) i = Some s"
  proof (cases "hstream_id hdr = i")
    case True
    have r1: "r1 = Inr (Some (s', b)) \<Longrightarrow> s' = s" for s' b
      using same [of sh s' b sh1] f1 True assms(2) by simp
    have r2: "r2 = Inr (Some (s', b)) \<Longrightarrow> s' = s" for s' b
      using same [of "flush_writes sh" s' b sh2] f2 True assms(2) by simp
    from assms(5) show ?thesis
    proof
      assume "hframe_type hdr = FtData"
      with f1 g assms(3) show ?thesis
        by (auto simp: handle_frame_def handle_data_def Let_def dest!: r1 split: sum.splits option.splits)
    next
      assume "hframe_type hdr = FtWindowUpdate"
      with f2 g assms(3) show ?thesis
        by (auto simp: handle_frame_def handle_window_update_def Let_def dest!: r2 split: sum.splits option.splits)
    qed
  next
    case False
    with f1 f2 g assms(5) show ?thesis
      by (auto simp: handle_frame_def handle_data_def handle_window_update_def Let_def book
          split: sum.splits option.splits OpenState.splits)
  qed
  obtain bs sh' where gt: "gather sl sh = (bs, sh')" by fastforce
  have srt: "bt_sorted (streams sh)" using assms(1) by (simp add: session_inv_def)
  show "get_stream (snd (gather sl sh)) i \<noteq> None"
    using gather_stream [OF srt gt] assms(2, 4) gt by (metis empty_iff empty_set option.distinct(1) snd_conv)
qed

theorem closed_stream_is_kept_witness:
  "let sh = SharedState_new\<lparr>streams := [(2, StreamState_new\<lparr>open_state := Reset\<rparr>)]\<rparr> in
   get_stream (snd (handle_frame (hdr_reset_stream 2) sh)) 2 = Some (StreamState_new\<lparr>open_state := Reset\<rparr>) \<and>
   get_stream (snd (gather (\<lambda>d. 0) sh)) 2 \<noteq> None"
proof -
  let ?s = "StreamState_new\<lparr>open_state := Reset\<rparr>"
  let ?sh = "SharedState_new\<lparr>streams := [(2, ?s)]\<rparr>"
  have inv: "session_inv sid_first ?sh"
    by (auto simp: session_inv_def get_stream_def bt_get_def SharedState_new_def
        bt_sorted_def id_ok_def sid_is_even_def stream_ok_def StreamState_new_def sid_first_def
        DEFAULT_WINDOW_def MAX_FRAME_SIZE_def usize_max_def split: if_splits)
  show ?thesis
    unfolding Let_def
    by (rule closed_stream_is_kept [OF inv])
       (simp_all add: get_stream_def bt_get_def hdr_reset_stream_def StreamState_new_def)
qed

end
