(* ===== verification/Varint.thy ===== *)
theory Varint
  imports AsyncStream
begin

text \<open>
  \<open>src/utils/varint.rs\<close>: LEB128 unsigned varints over \<open>u64\<close>. The encoder writes into a
  caller-supplied slice and panics when it is too small (\<open>None\<close>); the incremental \<open>Decoder\<close>
  buffers at most ten bytes; \<open>varint_decode\<close> runs it over a cursor and
  \<open>varint_decode_from_stream\<close> over an \<open>AsyncRead\<close>. \<open>varint_bytes\<close> is the reference
  encoding against which all of them are proved.
\<close>

section \<open>Encoder\<close>

datatype varint_error =
    VStream async_read_error
  | VOutOfRange
  | VUnexpectedEndOfInput

function varint_encode_loop :: "u64 \<Rightarrow> bytes \<Rightarrow> nat \<Rightarrow> (bytes \<times> nat) option" where
  "varint_encode_loop value out idx =
     (let byte = ucast (value AND 127) :: u8;
          value' = drop_bit 7 value
      in if value' = 0 then
           (if idx < length out then Some (out[idx := byte], idx + 1) else None)
         else
           (if idx < length out
            then varint_encode_loop value' (out[idx := byte OR 128]) (idx + 1) else None))"
  by pat_completeness auto

termination
  by (relation "measure (\<lambda>(v, out, idx). unat v)") (auto intro: drop_bit_7_less)

declare varint_encode_loop.simps [simp del]

definition varint_encode :: "u64 \<Rightarrow> bytes \<Rightarrow> (bytes \<times> nat) option" where
  "varint_encode value out = varint_encode_loop value out 0"

definition varint_encode_to_vec :: "u64 \<Rightarrow> bytes \<Rightarrow> bytes option" where
  "varint_encode_to_vec value out =
     (case varint_encode value (replicate 10 0) of
        None \<Rightarrow> None
      | Some (buf, n) \<Rightarrow> Some (out @ take n buf))"

section \<open>Decoder\<close>

record Decoder =
  dbuf :: bytes
  dlen :: nat

datatype DecoderOutput = DValue u64 | NeedsMoreBytes Decoder | OutOfRange

definition Decoder_new :: Decoder where
  "Decoder_new = \<lparr>dbuf = replicate 10 0, dlen = 0\<rparr>"

text \<open>The loop of \<open>decode_valid_bytes\<close>; \<open>idx\<close> is the position of the first byte.\<close>

fun decode_valid_loop :: "u64 \<Rightarrow> nat \<Rightarrow> bytes \<Rightarrow> u64" where
  "decode_valid_loop value idx [] = value"
| "decode_valid_loop value idx (byte # bs) =
     decode_valid_loop (value OR push_bit (idx * 7) (ucast (byte AND 127))) (idx + 1) bs"

definition decode_valid_bytes :: "Decoder \<Rightarrow> u64" where
  "decode_valid_bytes d = decode_valid_loop 0 0 (take (dlen d) (dbuf d))"

definition Decoder_feed :: "Decoder \<Rightarrow> u8 \<Rightarrow> DecoderOutput" where
  "Decoder_feed d byte =
     (if length (dbuf d) \<le> dlen d then OutOfRange
      else let d' = d\<lparr>dbuf := (dbuf d)[dlen d := byte], dlen := dlen d + 1\<rparr>
           in if byte AND 128 = 0 then DValue (decode_valid_bytes d')
              else NeedsMoreBytes d')"

fun varint_decode_loop :: "Decoder \<Rightarrow> bytes \<Rightarrow> (varint_error + u64) \<times> bytes" where
  "varint_decode_loop d [] = (Inl VUnexpectedEndOfInput, [])"
| "varint_decode_loop d (byte # bs) =
     (case Decoder_feed d byte of
        DValue v \<Rightarrow> (Inr v, bs)
      | NeedsMoreBytes d' \<Rightarrow> varint_decode_loop d' bs
      | OutOfRange \<Rightarrow> (Inl VOutOfRange, bs))"

definition varint_decode :: "bytes \<Rightarrow> (varint_error + u64) \<times> bytes" where
  "varint_decode bs = varint_decode_loop Decoder_new bs"

text \<open>
  One poll of \<open>decode_from_stream\<close>: it stops with \<open>Pending\<close> when the stream does, keeping the
  decoder, so that polling again continues the same varint.
\<close>

function decode_from_stream_loop ::
  "'r read_op \<Rightarrow> Decoder \<Rightarrow> 'r \<Rightarrow> (varint_error + u64) poll \<times> Decoder \<times> 'r" where
  "decode_from_stream_loop rd d r =
     (case rd r 1 of
        (Pending, r') \<Rightarrow> (Pending, d, r')
      | (Ready (Inl e), r') \<Rightarrow> (Ready (Inl (VStream e)), d, r')
      | (Ready (Inr byte), r') \<Rightarrow>
          (case Decoder_feed d (hd byte) of
             DValue v \<Rightarrow> (Ready (Inr v), d, r')
           | NeedsMoreBytes d' \<Rightarrow> decode_from_stream_loop rd d' r'
           | OutOfRange \<Rightarrow> (Ready (Inl VOutOfRange), d, r')))"
  by pat_completeness auto
termination
  by (relation "measure (\<lambda>(rd, d, r). length (dbuf d) - dlen d)")
     (auto simp: Decoder_feed_def Let_def split: if_splits)

declare decode_from_stream_loop.simps [simp del]

definition varint_decode_from_stream ::
  "'r read_op \<Rightarrow> 'r \<Rightarrow> (varint_error + u64) poll \<times> Decoder \<times> 'r" where
  "varint_decode_from_stream rd r = decode_from_stream_loop rd Decoder_new r"

section \<open>Reference encoding\<close>

function varint_bytes :: "u64 \<Rightarrow> bytes" where
  "varint_bytes v =
     (if drop_bit 7 v = 0 then [ucast (v AND 127)]
      else (ucast (v AND 127) OR 128) # varint_bytes (drop_bit 7 v))"
  by pat_completeness auto
termination
  by (relation "measure unat") (auto intro: drop_bit_7_less)

declare varint_bytes.simps [simp del]

definition is_cont :: "u8 \<Rightarrow> bool" where
  "is_cont b \<longleftrightarrow> b AND 128 \<noteq> 0"

lemma bit_127_int [simp]: "bit (127 :: int) n \<longleftrightarrow> n < 7"
proof -
  have "(127 :: int) = mask 7" by (simp add: mask_eq_exp_minus_1)
  then show ?thesis by (simp only: bit_mask_iff) simp
qed

lemma bit_128_int [simp]: "bit (128 :: int) n \<longleftrightarrow> n = 7"
proof -
  have "(128 :: int) = 2 ^ 7" by simp
  then show ?thesis by (simp only: bit_exp_iff) auto
qed

lemma is_cont_bit: "is_cont b \<longleftrightarrow> bit b 7"
proof -
  have "b AND 128 = push_bit 7 (of_bool (bit b 7))"
  proof (rule bit_eqI)
    fix n
    show "bit (b AND 128) n = bit (push_bit 7 (of_bool (bit b 7)) :: u8) n"
      by (cases "n = 7") (auto simp: bit_simps)
  qed
  then show ?thesis by (simp add: is_cont_def)
qed

lemma low7_not_cont [simp]: "\<not> is_cont (ucast (v AND 127 :: u64))"
  by (simp add: is_cont_bit bit_simps)

lemma low7_or_cont [simp]: "is_cont (ucast (v AND 127 :: u64) OR 128)"
  by (simp add: is_cont_bit bit_simps)

lemma low7_value:
  "(ucast (ucast (v AND 127 :: u64) AND 127 :: u8) :: u64) = v AND 127"
  "(ucast ((ucast (v AND 127 :: u64) OR 128) AND 127 :: u8) :: u64) = v AND 127"
  by (rule bit_eqI, auto simp: bit_simps)+

lemma varint_bytes_nonempty [simp]: "varint_bytes v \<noteq> []"
  by (subst varint_bytes.simps) simp

lemma varint_bytes_length_le:
  "unat v < 128 ^ k \<Longrightarrow> 0 < k \<Longrightarrow> length (varint_bytes v) \<le> k"
proof (induction k arbitrary: v)
  case 0
  then show ?case by simp
next
  case (Suc k)
  show ?case
  proof (cases "drop_bit 7 v = 0")
    case True
    then show ?thesis by (subst varint_bytes.simps) simp
  next
    case False
    have "unat (drop_bit 7 v) < 128 ^ k"
      using Suc.prems(1) by (simp add: unat_drop_bit_7 less_mult_imp_div_less mult.commute)
    moreover have "0 < k"
      using False calculation unat_eq_zero [of "drop_bit 7 v"] by (cases k) auto
    ultimately show ?thesis
      using Suc.IH False by (subst varint_bytes.simps) simp
  qed
qed

lemma varint_bytes_length: "length (varint_bytes v) \<le> 10"
  by (rule varint_bytes_length_le) (use unsigned_less [of v, where 'a = nat] in simp_all)

lemma varint_bytes_small: "unat v < 128 \<Longrightarrow> varint_bytes v = [ucast v]"
proof -
  assume small: "unat v < 128"
  then have "drop_bit 7 v = 0" by (metis div_less unat_drop_bit_7 unat_eq_zero)
  moreover have "v AND 127 = v"
    using less_mask_eq [of v 7] small by (simp add: mask_eq_decr_exp word_less_nat_alt)
  ultimately show ?thesis by (subst varint_bytes.simps) simp
qed

section \<open>Encoder correctness\<close>

lemma varint_encode_loop_eq:
  "idx \<le> length out \<Longrightarrow> varint_encode_loop v out idx =
     (if idx + length (varint_bytes v) \<le> length out
      then Some (take idx out @ varint_bytes v @ drop (idx + length (varint_bytes v)) out,
                 idx + length (varint_bytes v))
      else None)"
proof (induction v out idx rule: varint_encode_loop.induct)
  case (1 v out idx)
  show ?case
  proof (cases "drop_bit 7 v = 0")
    case True
    then show ?thesis
      by (simp add: varint_encode_loop.simps [of v] varint_bytes.simps [of v] Let_def
          upd_conv_take_nth_drop)
  next
    case False
    show ?thesis
    proof (cases "idx < length out")
      case True
      with 1 False show ?thesis
        by (simp add: varint_encode_loop.simps [of v] varint_bytes.simps [of v] Let_def
            take_Suc_conv_app_nth)
    next
      case out: False
      have "0 < length (varint_bytes (drop_bit 7 v))" by simp
      with out False show ?thesis
        by (simp add: varint_encode_loop.simps [of v] varint_bytes.simps [of v] Let_def)
    qed
  qed
qed

lemma varint_encode_eq:
  "varint_encode v out =
     (if length (varint_bytes v) \<le> length out
      then Some (varint_bytes v @ drop (length (varint_bytes v)) out, length (varint_bytes v))
      else None)"
  by (simp add: varint_encode_def varint_encode_loop_eq)

lemma varint_encode_to_vec_eq: "varint_encode_to_vec v out = Some (out @ varint_bytes v)"
  using varint_bytes_length [of v] by (simp add: varint_encode_to_vec_def varint_encode_eq)

section \<open>Decoder correctness\<close>

text \<open>The decoder after it has been fed the continuation bytes \<open>bs\<close>.\<close>

definition decoder_of :: "bytes \<Rightarrow> Decoder" where
  "decoder_of bs = \<lparr>dbuf = bs @ replicate (10 - length bs) 0, dlen = length bs\<rparr>"

lemma decoder_of_Nil: "decoder_of [] = Decoder_new"
  by (simp add: decoder_of_def Decoder_new_def)

lemma feed_decoder_of:
  "length bs < 10 \<Longrightarrow> Decoder_feed (decoder_of bs) b =
     (if is_cont b then NeedsMoreBytes (decoder_of (bs @ [b]))
      else DValue (decode_valid_loop 0 0 (bs @ [b])))"
  "length bs = 10 \<Longrightarrow> Decoder_feed (decoder_of bs) b = OutOfRange"
proof -
  assume len: "length bs < 10"
  then have "(bs @ replicate (10 - length bs) (0 :: u8))[length bs := b]
      = (bs @ [b]) @ replicate (10 - length (bs @ [b])) 0"
    by (cases "10 - length bs") (auto simp: list_update_append)
  with len show "Decoder_feed (decoder_of bs) b =
     (if is_cont b then NeedsMoreBytes (decoder_of (bs @ [b]))
      else DValue (decode_valid_loop 0 0 (bs @ [b])))"
    by (simp add: Decoder_feed_def decoder_of_def is_cont_def decode_valid_bytes_def Let_def)
qed (simp add: Decoder_feed_def decoder_of_def)

lemma decode_valid_loop_varint_bytes:
  "decode_valid_loop acc i (varint_bytes v) = acc OR push_bit (i * 7) v"
proof (induction v arbitrary: acc i rule: varint_bytes.induct)
  case (1 v)
  have split: "push_bit (i * 7) (v AND 127) OR push_bit (Suc i * 7) (drop_bit 7 v)
      = push_bit (i * 7) v" for i
  proof (rule bit_eqI)
    fix n
    show "bit (push_bit (i * 7) (v AND 127) OR push_bit (Suc i * 7) (drop_bit 7 v)) n
        = bit (push_bit (i * 7) v) n"
      by (cases "n < i * 7 + 7") (auto simp: bit_simps)
  qed
  show ?case
  proof (cases "drop_bit 7 v = 0")
    case True
    with split [of i] show ?thesis
      by (simp add: varint_bytes.simps [of v] low7_value)
  next
    case False
    with 1 split [of i] show ?thesis
      by (simp add: varint_bytes.simps [of v] low7_value or.assoc)
  qed
qed

lemma decode_loop_varint_bytes:
  "length pre + length (varint_bytes v) \<le> 10 \<Longrightarrow>
     varint_decode_loop (decoder_of pre) (varint_bytes v @ rest)
       = (Inr (decode_valid_loop 0 0 (pre @ varint_bytes v)), rest)"
proof (induction v arbitrary: pre rule: varint_bytes.induct)
  case (1 v)
  show ?case
  proof (cases "drop_bit 7 v = 0")
    case True
    with 1 show ?thesis
      by (simp add: varint_bytes.simps [of v] feed_decoder_of)
  next
    case False
    with 1 show ?thesis
      by (simp add: varint_bytes.simps [of v] feed_decoder_of)
  qed
qed

lemma varint_decode_bytes [wire_simps]:
  "varint_decode (varint_bytes v @ rest) = (Inr v, rest)"
  using decode_loop_varint_bytes [of "[]" v rest] varint_bytes_length [of v]
  by (simp add: varint_decode_def decoder_of_Nil decode_valid_loop_varint_bytes)

text \<open>What the decoder does on an arbitrary input.\<close>

lemma decode_loop_cases:
  "length pre \<le> 10 \<Longrightarrow>
   varint_decode_loop (decoder_of pre) bs =
     (let ks = takeWhile is_cont bs; n = length ks
      in if 10 < length pre + length bs \<and> 10 \<le> length pre + n
           then (Inl VOutOfRange, drop (11 - length pre) bs)
         else if n = length bs then (Inl VUnexpectedEndOfInput, [])
         else (Inr (decode_valid_loop 0 0 (pre @ take (Suc n) bs)), drop (Suc n) bs))"
proof (induction bs arbitrary: pre)
  case Nil
  then show ?case by simp
next
  case (Cons b bs)
  show ?case
  proof (cases "length pre = 10")
    case True
    then show ?thesis by (simp add: feed_decoder_of)
  next
    case False
    with Cons.prems have len: "length pre < 10" by simp
    show ?thesis
    proof (cases "is_cont b")
      case cont: True
      have "11 - length pre = Suc (10 - length pre)" using len by simp
      with cont len Cons.IH [of "pre @ [b]"] show ?thesis
        by (simp add: feed_decoder_of Let_def)
    next
      case False
      with len show ?thesis by (simp add: feed_decoder_of Let_def)
    qed
  qed
qed

lemma varint_decode_cases:
  "varint_decode bs =
     (let n = length (takeWhile is_cont bs)
      in if 10 < length bs \<and> 10 \<le> n then (Inl VOutOfRange, drop 11 bs)
         else if n = length bs then (Inl VUnexpectedEndOfInput, [])
         else (Inr (decode_valid_loop 0 0 (take (Suc n) bs)), drop (Suc n) bs))"
  using decode_loop_cases [of "[]" bs]
  by (simp add: varint_decode_def decoder_of_Nil Let_def)

lemma takeWhile_proper:
  "length (takeWhile P xs) \<noteq> length xs \<Longrightarrow> length (takeWhile P xs) < length xs"
  using length_takeWhile_le [of P xs] by linarith

lemma varint_decode_length:
  "varint_decode bs = (Inr v, rest) \<Longrightarrow> length rest < length bs"
  using takeWhile_proper [of is_cont bs]
  by (auto simp: varint_decode_cases Let_def split: if_splits)

section \<open>Decoding from a stream\<close>

fun feed_all :: "Decoder \<Rightarrow> bytes \<Rightarrow> Decoder" where
  "feed_all d [] = d"
| "feed_all d (b # bs) =
     (case Decoder_feed d b of NeedsMoreBytes d' \<Rightarrow> feed_all d' bs | _ \<Rightarrow> d)"

context byte_source
begin

lemma stream_decode_ready:
  assumes "varint_decode_loop d (avail r) = (res, rest)" and "res \<noteq> Inl VUnexpectedEndOfInput"
  obtains d' r' where "decode_from_stream_loop rd d r = (Ready res, d', r')"
    and "avail r' = rest"
  using assms
proof (induction "avail r" arbitrary: d r thesis)
  case Nil
  then show ?case by (simp flip: Nil.hyps)
next
  case (Cons b bs)
  obtain r1 where r1: "rd r 1 = (Ready (Inr [b]), r1)" "avail r1 = bs"
    using rd_exact [of r "[b]" bs 1] Cons.hyps(2) by auto
  show ?case
  proof (cases "Decoder_feed d b")
    case (NeedsMoreBytes d1)
    have "varint_decode_loop d1 (avail r1) = (res, rest)"
      using Cons.prems(2) NeedsMoreBytes r1 by (simp flip: Cons.hyps(2))
    from Cons.hyps(1) [OF r1(2) [symmetric] _ this Cons.prems(3)]
    obtain d' r' where "decode_from_stream_loop rd d1 r1 = (Ready res, d', r')" "avail r' = rest"
      by blast
    with r1 NeedsMoreBytes Cons.prems(1) show ?thesis
      by (simp add: decode_from_stream_loop.simps [of rd d r])
  qed (use r1 Cons.prems in
      \<open>auto simp: decode_from_stream_loop.simps [of rd d r] simp flip: Cons.hyps(2)\<close>)
qed

end

lemma mock_stream_pending:
  "varint_decode_loop d (ms_read_buf s) = (Inl VUnexpectedEndOfInput, rest) \<Longrightarrow>
   decode_from_stream_loop mock_read_exact d s
     = (Pending, feed_all d (ms_read_buf s), s\<lparr>ms_read_buf := []\<rparr>)"
proof (induction "ms_read_buf s" arbitrary: d s)
  case Nil
  have "s = s\<lparr>ms_read_buf := []\<rparr>" using Nil.hyps by simp
  then show ?case
    using Nil.hyps by (simp add: decode_from_stream_loop.simps mock_read_exact_def)
next
  case (Cons b bs)
  let ?s = "s\<lparr>ms_read_buf := bs\<rparr>"
  have rd: "mock_read_exact s 1 = (Ready (Inr [b]), ?s)"
    by (simp add: mock_read_exact_def flip: Cons.hyps(2))
  show ?case
  proof (cases "Decoder_feed d b")
    case (NeedsMoreBytes d1)
    have "varint_decode_loop d1 (ms_read_buf ?s) = (Inl VUnexpectedEndOfInput, rest)"
      using Cons.prems NeedsMoreBytes by (simp flip: Cons.hyps(2))
    with Cons.hyps(1) [of ?s d1] NeedsMoreBytes rd show ?thesis
      by (simp add: decode_from_stream_loop.simps [of mock_read_exact d s] flip: Cons.hyps(2))
  qed (use Cons.prems in \<open>simp_all flip: Cons.hyps(2)\<close>)
qed

lemma varint_decode_loop_append:
  "varint_decode_loop d bs = (Inl VUnexpectedEndOfInput, rest) \<Longrightarrow>
   varint_decode_loop d (bs @ cs) = varint_decode_loop (feed_all d bs) cs"
  by (induction bs arbitrary: d) (auto split: DecoderOutput.splits)

section \<open>Properties\<close>

text \<open>
  (C29) Varint round trip: \<open>encode_to_vec\<close> never panics, appends at most ten bytes to the
  vector, and decoding those bytes, whatever follows them, gives the value back and leaves
  the cursor just past the varint.
\<close>

theorem varint_roundtrip:
  "\<exists>enc. varint_encode_to_vec v out = Some (out @ enc) \<and> length enc \<le> 10 \<and>
     (\<forall>rest. varint_decode (enc @ rest) = (Inr v, rest))"
  using varint_encode_to_vec_eq [of v out] varint_bytes_length [of v] varint_decode_bytes [of v]
  by blast

text \<open>
  \<open>encode\<close> writes exactly the bytes of \<open>encode_to_vec\<close> at the front of the slice, leaves
  the rest of the slice alone, returns their number, and panics exactly when the slice is
  shorter than that.
\<close>

theorem varint_encode_slice:
  "varint_encode_to_vec v [] = Some enc \<Longrightarrow>
   varint_encode v out =
     (if length enc \<le> length out then Some (enc @ drop (length enc) out, length enc) else None)"
  by (auto simp: varint_encode_to_vec_eq varint_encode_eq)

theorem varint_encode_slice_witness:
  "varint_encode 300 [7, 7, 7] = Some ([172, 2, 7], 2) \<and> varint_encode 300 [7] = None"
proof -
  have enc: "varint_encode_to_vec 300 [] = Some [172, 2]"
    by code_simp
  show ?thesis
    using varint_encode_slice [OF enc, of "[7, 7, 7]"] varint_encode_slice [OF enc, of "[7]"]
    by simp
qed

text \<open>
  The decoder on an arbitrary byte string: with \<open>n\<close> leading bytes that have the
  continuation bit, it reports an out-of-range varint exactly when ten of them are followed by
  another byte, an unexpected end exactly when they exhaust the (at most ten byte) input, and
  otherwise consumes \<open>n + 1\<close> bytes.
\<close>

theorem varint_decode_total:
  "let n = length (takeWhile is_cont bs) in
     (fst (varint_decode bs) = Inl VOutOfRange \<longleftrightarrow> 10 < length bs \<and> 10 \<le> n) \<and>
     (fst (varint_decode bs) = Inl VUnexpectedEndOfInput \<longleftrightarrow> n = length bs \<and> length bs \<le> 10) \<and>
     (n < 10 \<and> n < length bs \<longrightarrow> (\<exists>v. varint_decode bs = (Inr v, drop (n + 1) bs)))"
  by (auto simp: varint_decode_cases Let_def)

theorem varint_decode_total_witness:
  "\<exists>v. varint_decode [172, 2, 255] = (Inr v, [255])"
proof -
  have "takeWhile is_cont [172, 2, 255] = [172]"
    by (simp add: is_cont_def)
  with varint_decode_total [of "[172, 2, 255]"] show ?thesis
    by (simp add: Let_def)
qed

text \<open>
  A ten-byte varint is accepted whatever its last byte holds: only the lowest bit of the
  tenth byte contributes, so encodings of numbers beyond \<open>u64::MAX\<close> decode to a truncated
  value instead of \<open>OutOfRange\<close>.
\<close>

theorem varint_tenth_byte_truncated:
  assumes "length pre = 9" and "\<forall>b \<in> set pre. is_cont b" and "\<not> is_cont b"
  shows "\<exists>v. varint_decode (pre @ b # rest) = (Inr v, rest) \<and>
             varint_decode (pre @ (b AND 1) # rest) = (Inr v, rest)"
proof -
  have tw: "takeWhile is_cont (pre @ c # rest) = pre" if "\<not> is_cont c" for c
    using assms(2) that by (simp add: takeWhile_append2)
  have low: "\<not> is_cont (b AND 1)" by (simp add: is_cont_bit bit_simps)
  have loop: "decode_valid_loop acc i (xs @ [c]) =
      decode_valid_loop acc i xs OR push_bit ((i + length xs) * 7) (ucast (c AND 127))"
    for acc i xs c
    by (induction xs arbitrary: acc i) (simp_all add: algebra_simps)
  have "push_bit 63 (ucast (b AND 127) :: u64) = push_bit 63 (ucast ((b AND 1) AND 127))"
    by (rule bit_eqI) (auto simp: bit_simps bit_1_iff)
  then show ?thesis
    using assms(1) tw [OF assms(3)] tw [OF low] loop [of 0 0 pre]
    by (auto simp: varint_decode_cases Let_def)
qed

theorem varint_tenth_byte_truncated_witness:
  "varint_decode ([128, 128, 128, 128, 128, 128, 128, 128, 128] @ 2 # []) = (Inr 0, [])"
proof -
  let ?pre = "[128, 128, 128, 128, 128, 128, 128, 128, 128] :: bytes"
  have "\<exists>v. varint_decode (?pre @ 2 # []) = (Inr v, []) \<and>
      varint_decode (?pre @ (2 AND 1) # []) = (Inr v, [])"
    by (rule varint_tenth_byte_truncated) (simp_all add: is_cont_def)
  moreover have "varint_decode (?pre @ (2 AND 1) # []) = (Inr 0, [])"
    by code_simp
  ultimately show ?thesis by auto
qed

text \<open>
  (C30) Reading a varint from a stream agrees with the slice decoder and is cancel safe: if the
  first poll runs out of bytes and is \<open>Pending\<close>, polling again after more bytes arrived gives
  exactly what the slice decoder gives on the concatenation.
\<close>

theorem varint_stream_resume:
  assumes "varint_decode (ms_read_buf s) = (Inl VUnexpectedEndOfInput, u)"
    and "varint_decode (ms_read_buf s @ extra) = (res, rest)"
    and "res \<noteq> Inl VUnexpectedEndOfInput"
  shows "\<exists>d s' d' s''.
     varint_decode_from_stream mock_read_exact s = (Pending, d, s') \<and>
     decode_from_stream_loop mock_read_exact d (mock_extend extra s') = (Ready res, d', s'') \<and>
     ms_read_buf s'' = rest"
proof -
  let ?d = "feed_all Decoder_new (ms_read_buf s)"
  let ?s = "mock_extend extra (s\<lparr>ms_read_buf := []\<rparr>)"
  have "varint_decode_loop ?d (ms_read_buf ?s) = (res, rest)"
    using assms(1,2) varint_decode_loop_append
    by (simp add: varint_decode_def)
  from mock.stream_decode_ready [OF this assms(3)]
  obtain d' s'' where "decode_from_stream_loop mock_read_exact ?d ?s = (Ready res, d', s'')"
    "ms_read_buf s'' = rest" .
  with mock_stream_pending [of Decoder_new s u] assms(1) show ?thesis
    by (auto simp: varint_decode_from_stream_def varint_decode_def)
qed

theorem varint_stream_resume_witness:
  "\<exists>d s' d' s''.
     varint_decode_from_stream mock_read_exact (mock_extend [172] mock_new) = (Pending, d, s') \<and>
     decode_from_stream_loop mock_read_exact d (mock_extend [2, 9] s') = (Ready (Inr 300), d', s'') \<and>
     ms_read_buf s'' = [9]"
proof (rule varint_stream_resume)
  show "varint_decode (ms_read_buf (mock_extend [172] mock_new)) = (Inl VUnexpectedEndOfInput, [])"
    unfolding mock_extend_read_buf mock_new_def by code_simp
  show "varint_decode (ms_read_buf (mock_extend [172] mock_new) @ [2, 9]) = (Inr 300, [9])"
    unfolding mock_extend_read_buf mock_new_def by code_simp
qed simp

end
