(* ===== verification/FrameBuffer.thy ===== *)
theory FrameBuffer
  imports Varint
begin

text \<open>
  \<open>src/layers/yamux_multistream/frame_buffer.rs\<close>: the per-stream reassembly buffer that turns
  the bytes of a yamux substream into multistream frames (varint length, then payload).
  \<open>parse_frame\<close> is the reference grammar of one frame over the whole undecoded input. Locale
  \<open>frame_source\<close> states the contract a reassembly buffer has with respect to that grammar and
  proves, once, that draining it does not depend on how the input was cut into chunks; the
  buffer of the code interprets it.
\<close>

section \<open>The buffer\<close>

datatype MultistreamFrameBufferNeeds = DecodingLen Decoder | NeedsLen nat

record MultistreamFrameBuffer =
  needs :: MultistreamFrameBufferNeeds
  fbuf :: bytes
  failed :: bool

datatype fb_error = FbError

definition fb_new :: MultistreamFrameBuffer where
  "fb_new = \<lparr>needs = DecodingLen Decoder_new, fbuf = [], failed = False\<rparr>"

definition fb_len :: "MultistreamFrameBuffer \<Rightarrow> nat" where
  "fb_len b = length (fbuf b)"

definition fb_feed :: "MultistreamFrameBuffer \<Rightarrow> bytes \<Rightarrow> MultistreamFrameBuffer" where
  "fb_feed b bs = b\<lparr>fbuf := fbuf b @ bs\<rparr>"

text \<open>The loop of \<open>next\<close>. \<open>pop_front()?\<close> on an empty buffer returns \<open>None\<close>.\<close>

function fb_next_loop ::
  "MultistreamFrameBuffer \<Rightarrow> (fb_error + bytes) option \<times> MultistreamFrameBuffer" where
  "fb_next_loop b =
     (case needs b of
        DecodingLen decoder \<Rightarrow>
          (case fbuf b of
             [] \<Rightarrow> (None, b)
           | byte # buf' \<Rightarrow>
               (case Decoder_feed decoder byte of
                  DValue len \<Rightarrow> fb_next_loop (b\<lparr>needs := NeedsLen (unat len), fbuf := buf'\<rparr>)
                | NeedsMoreBytes d \<Rightarrow> fb_next_loop (b\<lparr>needs := DecodingLen d, fbuf := buf'\<rparr>)
                | OutOfRange \<Rightarrow>
                    (Some (Inl FbError), b\<lparr>fbuf := buf', failed := True\<rparr>)))
      | NeedsLen len \<Rightarrow>
          (if len \<le> length (fbuf b)
           then (Some (Inr (take len (fbuf b))),
                 b\<lparr>needs := DecodingLen Decoder_new, fbuf := drop len (fbuf b)\<rparr>)
           else (None, b)))"
  by pat_completeness auto
termination
  by (relation "measure (\<lambda>b. length (fbuf b))") auto

declare fb_next_loop.simps [simp del]

definition fb_next ::
  "MultistreamFrameBuffer \<Rightarrow> (fb_error + bytes) option \<times> MultistreamFrameBuffer" where
  "fb_next b = (if failed b then (Some (Inl FbError), b) else fb_next_loop b)"

text \<open>A frame as the sender writes it: the payload with its varint length.\<close>

definition make_frame :: "bytes \<Rightarrow> bytes" where
  "make_frame payload = varint_bytes (of_nat (length payload)) @ payload"

section \<open>Reference grammar\<close>

datatype frame_parse = Incomplete | Malformed | Frame bytes bytes

definition parse_frame :: "bytes \<Rightarrow> frame_parse" where
  "parse_frame bs =
     (case varint_decode bs of
        (Inl VUnexpectedEndOfInput, _) \<Rightarrow> Incomplete
      | (Inl _, _) \<Rightarrow> Malformed
      | (Inr n, rest) \<Rightarrow>
          (if unat n \<le> length rest then Frame (take (unat n) rest) (drop (unat n) rest)
           else Incomplete))"

lemma parse_frame_length: "parse_frame bs = Frame f rest \<Longrightarrow> length rest < length bs"
  by (auto simp: parse_frame_def dest!: varint_decode_length
      split: prod.splits sum.splits varint_error.splits if_splits)

function frames_of :: "bytes \<Rightarrow> bytes list \<times> bytes" where
  "frames_of bs =
     (case parse_frame bs of
        Frame f rest \<Rightarrow> (let (fs, r) = frames_of rest in (f # fs, r))
      | _ \<Rightarrow> ([], bs))"
  by pat_completeness auto
termination
  by (relation "measure length") (auto dest: parse_frame_length)

declare frames_of.simps [simp del]

lemma varint_decode_append:
  "varint_decode bs = (Inr v, rest) \<Longrightarrow> varint_decode (bs @ cs) = (Inr v, rest @ cs)"
  "varint_decode bs = (Inl VOutOfRange, rest) \<Longrightarrow>
     varint_decode (bs @ cs) = (Inl VOutOfRange, rest @ cs)"
proof -
  have gen: "varint_decode_loop d bs = (res, rest) \<Longrightarrow> res \<noteq> Inl VUnexpectedEndOfInput \<Longrightarrow>
      varint_decode_loop d (bs @ cs) = (res, rest @ cs)" for d res
    by (induction bs arbitrary: d) (auto split: DecoderOutput.splits)
  show "varint_decode bs = (Inr v, rest) \<Longrightarrow> varint_decode (bs @ cs) = (Inr v, rest @ cs)"
    and "varint_decode bs = (Inl VOutOfRange, rest) \<Longrightarrow>
      varint_decode (bs @ cs) = (Inl VOutOfRange, rest @ cs)"
    unfolding varint_decode_def by (simp_all add: gen)
qed

lemma varint_decode_no_stream_error: "varint_decode bs \<noteq> (Inl (VStream e), rest)"
  by (auto simp: varint_decode_cases Let_def split: if_splits)

lemma parse_frame_append:
  "parse_frame bs = Frame f rest \<Longrightarrow> parse_frame (bs @ cs) = Frame f (rest @ cs)"
  "parse_frame bs = Malformed \<Longrightarrow> parse_frame (bs @ cs) = Malformed"
  by (auto simp: parse_frame_def varint_decode_append varint_decode_no_stream_error
      split: prod.splits sum.splits varint_error.splits if_splits)

lemma frames_of_append:
  "frames_of (xs @ ys) =
     (case frames_of xs of (fs, r) \<Rightarrow> (case frames_of (r @ ys) of (gs, q) \<Rightarrow> (fs @ gs, q)))"
proof (induction xs rule: frames_of.induct)
  case (1 xs)
  show ?case
  proof (cases "parse_frame xs")
    case (Frame f rest)
    with 1 show ?thesis
      by (subst (1 2) frames_of.simps) (simp add: parse_frame_append split: prod.splits)
  qed (simp_all add: frames_of.simps [of xs] split: prod.splits)
qed

lemma frames_of_residue:
  "frames_of bs = (fs, r) \<Longrightarrow> parse_frame r \<noteq> Frame f rest"
proof (induction bs arbitrary: fs rule: frames_of.induct)
  case (1 bs)
  show ?case
  proof (cases "parse_frame bs")
    case (Frame g rest')
    with 1 show ?thesis by (auto simp: frames_of.simps [of bs] split: prod.splits)
  qed (use 1 in \<open>simp_all add: frames_of.simps [of bs]\<close>)
qed

lemma parse_make_frame:
  "length p < 2 ^ 64 \<Longrightarrow> parse_frame (make_frame p @ rest) = Frame p rest"
  by (simp add: parse_frame_def make_frame_def wire_simps unat_of_nat_u64)

lemma frames_of_make_frames:
  "list_all (\<lambda>p. length p < 2 ^ 64) ps \<Longrightarrow> frames_of (concat (map make_frame ps)) = (ps, [])"
proof (induction ps)
  case Nil
  then show ?case
    by (subst frames_of.simps) (simp add: parse_frame_def varint_decode_def)
next
  case (Cons p ps)
  then show ?case by (subst frames_of.simps) (simp add: parse_make_frame)
qed

section \<open>The contract of a frame source\<close>

text \<open>Clients: drain a buffer (at most \<open>k\<close> frames), and feed chunks with a drain after each.\<close>

fun drain :: "('s \<Rightarrow> ('e + bytes) option \<times> 's) \<Rightarrow> nat \<Rightarrow> 's \<Rightarrow> bytes list \<times> 's" where
  "drain nxt 0 s = ([], s)"
| "drain nxt (Suc k) s =
     (case nxt s of
        (Some (Inr f), s') \<Rightarrow> (case drain nxt k s' of (fs, s'') \<Rightarrow> (f # fs, s''))
      | (_, s') \<Rightarrow> ([], s'))"

fun feed_chunks ::
  "('s \<Rightarrow> bytes \<Rightarrow> 's) \<Rightarrow> ('s \<Rightarrow> ('e + bytes) option \<times> 's) \<Rightarrow> nat \<Rightarrow> 's \<Rightarrow> bytes list
     \<Rightarrow> bytes list \<times> 's" where
  "feed_chunks fd nxt k s [] = ([], s)"
| "feed_chunks fd nxt k s (c # cs) =
     (case drain nxt k (fd s c) of
        (fs, s') \<Rightarrow> (case feed_chunks fd nxt k s' cs of (gs, s'') \<Rightarrow> (fs @ gs, s'')))"

locale frame_source =
  fixes new :: 's
    and fd :: "'s \<Rightarrow> bytes \<Rightarrow> 's"
    and nxt :: "'s \<Rightarrow> ('e + bytes) option \<times> 's"
    and rep :: "'s \<Rightarrow> bytes \<Rightarrow> bool"
  assumes rep_new: "rep new []"
    and rep_feed: "rep s bs \<Longrightarrow> rep (fd s cs) (bs @ cs)"
    and next_incomplete: "rep s bs \<Longrightarrow> parse_frame bs = Incomplete \<Longrightarrow>
          \<exists>s'. nxt s = (None, s') \<and> rep s' bs"
    and next_frame: "rep s bs \<Longrightarrow> parse_frame bs = Frame f rest \<Longrightarrow>
          \<exists>s'. nxt s = (Some (Inr f), s') \<and> rep s' rest"
    and next_malformed: "rep s bs \<Longrightarrow> parse_frame bs = Malformed \<Longrightarrow>
          \<exists>e s'. nxt s = (Some (Inl e), s')"
begin

lemma drain_frames:
  assumes "rep s bs" and "frames_of bs = (fs, r)" and "length fs < k"
    and "parse_frame r = Incomplete"
  shows "\<exists>s'. drain nxt k s = (fs, s') \<and> rep s' r"
  using assms
proof (induction fs arbitrary: s bs k)
  case Nil
  then have "parse_frame bs = Incomplete" "r = bs"
    by (auto simp: frames_of.simps [of bs] split: frame_parse.splits prod.splits)
  then obtain s' where "nxt s = (None, s')" "rep s' r"
    using next_incomplete Nil.prems(1) by blast
  with Nil.prems(3) show ?case by (cases k) auto
next
  case (Cons f fs)
  then obtain rest where "parse_frame bs = Frame f rest" "frames_of rest = (fs, r)"
    by (auto simp: frames_of.simps [of bs] split: frame_parse.splits prod.splits)
  moreover from this obtain s1 where "nxt s = (Some (Inr f), s1)" "rep s1 rest"
    using next_frame Cons.prems(1) by blast
  moreover obtain k' where "k = Suc k'" "length fs < k'"
    using Cons.prems(3) by (cases k) auto
  moreover have "\<exists>s'. drain nxt k' s1 = (fs, s') \<and> rep s' r"
    using Cons.IH calculation Cons.prems(4) by blast
  ultimately show ?case by auto
qed

lemma feed_chunks_frames:
  assumes "rep s bs" and "frames_of (bs @ concat cs) = (fs, r)" and "length fs < k"
    and "parse_frame r = Incomplete" and "parse_frame bs = Incomplete"
  shows "\<exists>s'. feed_chunks fd nxt k s cs = (fs, s') \<and> rep s' r"
  using assms
proof (induction cs arbitrary: s bs fs)
  case Nil
  then show ?case by (auto simp: frames_of.simps [of bs])
next
  case (Cons c cs)
  obtain gs q where gq: "frames_of (bs @ c) = (gs, q)" by force
  with Cons.prems(2) obtain hs where hs: "frames_of (q @ concat cs) = (hs, r)" "fs = gs @ hs"
    using frames_of_append [of "bs @ c" "concat cs"] by (auto split: prod.splits)
  have "parse_frame q \<noteq> Malformed"
  proof
    assume "parse_frame q = Malformed"
    then have "parse_frame (q @ concat cs) = Malformed" by (rule parse_frame_append)
    with hs(1) Cons.prems(4) show False
      by (auto simp: frames_of.simps [of "q @ concat cs"])
  qed
  then have inc: "parse_frame q = Incomplete"
    using frames_of_residue [OF gq] by (cases "parse_frame q") auto
  obtain s1 where s1: "drain nxt k (fd s c) = (gs, s1)" "rep s1 q"
    using drain_frames [OF rep_feed [OF Cons.prems(1)] gq _ inc, of k] hs(2) Cons.prems(3)
    by auto
  then obtain s2 where "feed_chunks fd nxt k s1 cs = (hs, s2)" "rep s2 r"
    using Cons.IH [OF s1(2) hs(1) _ Cons.prems(4) inc] hs(2) Cons.prems(3) by auto
  with s1 hs(2) show ?case by auto
qed

end

section \<open>The buffer is a frame source\<close>

text \<open>\<open>fb_rep b bs\<close>: the buffer has seen the undecoded bytes \<open>bs\<close> since the last frame.\<close>

definition fb_rep :: "MultistreamFrameBuffer \<Rightarrow> bytes \<Rightarrow> bool" where
  "fb_rep b bs \<longleftrightarrow> \<not> failed b \<and>
     (case needs b of
        DecodingLen d \<Rightarrow> (\<exists>pre. d = decoder_of pre \<and> length pre \<le> 10 \<and>
           (\<forall>x \<in> set pre. is_cont x) \<and> bs = pre @ fbuf b)
      | NeedsLen n \<Rightarrow> (\<exists>enc v. n = unat v \<and> bs = enc @ fbuf b \<and>
           (\<forall>rest. varint_decode (enc @ rest) = (Inr v, rest))))"

lemma varint_decode_cont_prefix:
  assumes "\<forall>x \<in> set pre. is_cont x"
  shows "length pre \<le> 10 \<Longrightarrow> varint_decode pre = (Inl VUnexpectedEndOfInput, [])"
    and "length pre = 10 \<Longrightarrow> fst (varint_decode (pre @ b # bs)) = Inl VOutOfRange"
    and "length pre < 10 \<Longrightarrow> \<not> is_cont b \<Longrightarrow>
      varint_decode (pre @ b # bs) = (Inr (decode_valid_loop 0 0 (pre @ [b])), bs)"
  using assms takeWhile_append2 [of pre is_cont]
  by (auto simp: varint_decode_cases Let_def takeWhile_eq_all_conv [THEN iffD2])

definition fb_step_ok :: "MultistreamFrameBuffer \<Rightarrow> bytes \<Rightarrow> bool" where
  "fb_step_ok b bs \<longleftrightarrow>
     (case parse_frame bs of
        Incomplete \<Rightarrow> \<exists>b'. fb_next_loop b = (None, b') \<and> fb_rep b' bs
      | Malformed \<Rightarrow> \<exists>b'. fb_next_loop b = (Some (Inl FbError), b') \<and> failed b'
      | Frame f rest \<Rightarrow> \<exists>b'. fb_next_loop b = (Some (Inr f), b') \<and> fb_rep b' rest)"

lemma fb_rep_fresh:
  "\<not> failed b \<Longrightarrow> needs b = DecodingLen Decoder_new \<Longrightarrow> fb_rep b (fbuf b)"
  unfolding fb_rep_def decoder_of_Nil [symmetric] by force

lemma fb_next_loop_needs_len:
  assumes "fb_rep b bs" and "needs b = NeedsLen n"
  shows "fb_step_ok b bs"
proof -
  from assms obtain enc v where v: "n = unat v" "bs = enc @ fbuf b"
    "varint_decode (enc @ fbuf b) = (Inr v, fbuf b)" and "\<not> failed b"
    by (auto simp: fb_rep_def)
  then show ?thesis
    using assms fb_rep_fresh [of "b\<lparr>needs := DecodingLen Decoder_new, fbuf := drop n (fbuf b)\<rparr>"]
    by (auto simp: fb_step_ok_def parse_frame_def fb_next_loop.simps [of b])
qed

lemma fb_next_loop_ok: "fb_rep b bs \<Longrightarrow> fb_step_ok b bs"
proof (induction b rule: fb_next_loop.induct)
  case (1 b)
  show ?case
  proof (cases "needs b")
    case (NeedsLen n)
    with "1.prems" show ?thesis by (rule fb_next_loop_needs_len)
  next
    case (DecodingLen d)
    with "1.prems" obtain pre where pre: "d = decoder_of pre" "length pre \<le> 10"
      "\<forall>x \<in> set pre. is_cont x" "bs = pre @ fbuf b" "\<not> failed b"
      by (auto simp: fb_rep_def)
    show ?thesis
    proof (cases "fbuf b")
      case Nil
      with DecodingLen pre "1.prems" show ?thesis
        by (auto simp: fb_step_ok_def parse_frame_def varint_decode_cont_prefix(1)
            fb_next_loop.simps [of b])
    next
      case (Cons byte buf')
      consider "length pre = 10" | "length pre < 10" "is_cont byte" | "length pre < 10" "\<not> is_cont byte"
        using pre(2) by linarith
      then show ?thesis
      proof cases
        case 1
        then have "fst (varint_decode bs) = Inl VOutOfRange"
          using varint_decode_cont_prefix(2) pre(3,4) Cons by simp
        with 1 DecodingLen Cons pre(1) show ?thesis
          by (auto simp: fb_step_ok_def parse_frame_def fb_next_loop.simps [of b] feed_decoder_of
              split: prod.splits)
      next
        case 2
        let ?b = "b\<lparr>needs := DecodingLen (decoder_of (pre @ [byte])), fbuf := buf'\<rparr>"
        have feed: "Decoder_feed d byte = NeedsMoreBytes (decoder_of (pre @ [byte]))"
          using 2 pre(1) by (simp add: feed_decoder_of)
        have "fb_rep ?b bs"
          using 2 pre Cons by (auto simp: fb_rep_def intro!: exI [of _ "pre @ [byte]"])
        with "1.IH"(2) [OF DecodingLen Cons feed] have "fb_step_ok ?b bs" .
        moreover have "fb_next_loop b = fb_next_loop ?b"
          using DecodingLen Cons feed by (simp add: fb_next_loop.simps [of b])
        ultimately show ?thesis unfolding fb_step_ok_def by (simp only:)
      next
        case 3
        let ?v = "decode_valid_loop 0 0 (pre @ [byte])"
        let ?b = "b\<lparr>needs := NeedsLen (unat ?v), fbuf := buf'\<rparr>"
        have feed: "Decoder_feed d byte = DValue ?v"
          using 3 pre(1) by (simp add: feed_decoder_of)
        have "fb_rep ?b bs"
          using 3 pre Cons varint_decode_cont_prefix(3) [OF pre(3)]
          by (auto simp: fb_rep_def intro!: exI [of _ "pre @ [byte]"] exI [of _ ?v])
        with "1.IH"(1) [OF DecodingLen Cons feed] have "fb_step_ok ?b bs" .
        moreover have "fb_next_loop b = fb_next_loop ?b"
          using DecodingLen Cons feed by (simp add: fb_next_loop.simps [of b])
        ultimately show ?thesis unfolding fb_step_ok_def by (simp only:)
      qed
    qed
  qed
qed

lemma fb_next_eq_loop: "fb_rep b bs \<Longrightarrow> fb_next b = fb_next_loop b"
  by (simp add: fb_next_def fb_rep_def)

interpretation fb: frame_source fb_new fb_feed fb_next fb_rep
proof unfold_locales
  show "fb_rep fb_new []"
    using fb_rep_fresh [of fb_new] by (simp add: fb_new_def)
next
  fix b bs cs assume "fb_rep b bs"
  then show "fb_rep (fb_feed b cs) (bs @ cs)"
    by (fastforce simp: fb_rep_def fb_feed_def
        split: MultistreamFrameBufferNeeds.splits)
next
  fix b bs assume "fb_rep b bs" "parse_frame bs = Incomplete"
  then show "\<exists>b'. fb_next b = (None, b') \<and> fb_rep b' bs"
    using fb_next_loop_ok [of b bs] by (simp add: fb_next_eq_loop fb_step_ok_def)
next
  fix b bs f rest assume "fb_rep b bs" "parse_frame bs = Frame f rest"
  then show "\<exists>b'. fb_next b = (Some (Inr f), b') \<and> fb_rep b' rest"
    using fb_next_loop_ok [of b bs] by (simp add: fb_next_eq_loop fb_step_ok_def)
next
  fix b bs assume "fb_rep b bs" "parse_frame bs = Malformed"
  then show "\<exists>e b'. fb_next b = (Some (Inl e), b')"
    using fb_next_loop_ok [of b bs] by (auto simp: fb_next_eq_loop fb_step_ok_def)
qed

section \<open>Properties\<close>

text \<open>
  (C14) Reassembly: however the bytes of a sequence of multistream frames are cut into chunks,
  feeding the chunks and calling \<open>next\<close> until it has nothing more yields exactly the frames'
  payloads, in order, and leaves no byte behind.
\<close>

theorem frame_buffer_reassembles:
  assumes "concat chunks = concat (map make_frame ps)"
    and "list_all (\<lambda>p. length p < 2 ^ 64) ps" and "length ps < k"
  shows "\<exists>b. feed_chunks fb_feed fb_next k fb_new chunks = (ps, b) \<and> fb_rep b []"
proof -
  have nil: "parse_frame [] = Incomplete"
    by (simp add: parse_frame_def varint_decode_def)
  have "frames_of ([] @ concat chunks) = (ps, [])"
    using assms(1) frames_of_make_frames [OF assms(2)] by simp
  from fb.feed_chunks_frames [OF fb.rep_new this assms(3) nil nil] show ?thesis .
qed

theorem frame_buffer_reassembles_witness:
  "\<exists>b. feed_chunks fb_feed fb_next 3 fb_new [[3, 97], [98, 99, 2], [], [104, 105]]
         = ([[97, 98, 99], [104, 105]], b)"
proof -
  have "concat [[3, 97], [98, 99, 2], [], [104, 105]]
      = concat (map make_frame [[97, 98, 99], [104, 105]])"
    by code_simp
  from frame_buffer_reassembles [OF this, of 3] show ?thesis by auto
qed

text \<open>
  A malformed length prefix is fatal and sticky: once \<open>next\<close> has failed, it reports the
  error again on every later call, whatever is fed in between.
\<close>

theorem frame_buffer_error_sticky:
  assumes "fb_next b = (Some (Inl e), b')"
  shows "failed b' \<and> fb_next (fb_feed b' bs) = (Some (Inl FbError), fb_feed b' bs)"
proof -
  have "fb_next_loop c = (Some (Inl x), c') \<Longrightarrow> failed c'" for c c' x
  proof (induction c rule: fb_next_loop.induct)
    case (1 c)
    then show ?case
      by (auto simp: fb_next_loop.simps [of c] split: MultistreamFrameBufferNeeds.splits
          list.splits DecoderOutput.splits if_splits)
  qed
  with assms have "failed b'"
    by (auto simp: fb_next_def split: if_splits)
  then show ?thesis by (simp add: fb_next_def fb_feed_def)
qed

theorem frame_buffer_error_sticky_witness:
  "\<exists>b'. fb_next (fb_feed fb_new (replicate 11 128)) = (Some (Inl FbError), b') \<and>
        fb_next (fb_feed b' [1, 7]) = (Some (Inl FbError), fb_feed b' [1, 7])"
proof -
  have "fb_rep (fb_feed fb_new (replicate 11 128)) ([] @ replicate 11 128)"
    by (rule fb.rep_feed) (rule fb.rep_new)
  moreover have "parse_frame ([] @ replicate 11 128) = Malformed"
    by code_simp
  ultimately obtain e b' where
    "fb_next (fb_feed fb_new (replicate 11 128)) = (Some (Inl e), b')"
    using fb.next_malformed by blast
  with frame_buffer_error_sticky [OF this, of "[1, 7]"] show ?thesis
    by (cases e) auto
qed

end
