(* ===== verification/YamuxMultistream.thy ===== *)
theory YamuxMultistream
  imports YamuxSession FrameBuffer
begin

text \<open>
  \<open>src/layers/yamux_multistream.rs\<close>: protocol negotiation and message framing on top of a yamux
  session. Every yamux stream has a reassembly buffer, a negotiation state and a size limit.

  \<open>next_inner\<close> is a loop with two kinds of await points, \<open>YieldOnce\<close> and the \<open>next\<close> of the
  session below. Its only state across them is \<open>work_units\<close>, so a suspended future is that
  number (zero after a yield), and a new future starts at zero.
\<close>

section \<open>State\<close>

definition MULTISTREAM_PROTOCOL_NAME_WITH_NEWLINE :: bytes where
  "MULTISTREAM_PROTOCOL_NAME_WITH_NEWLINE = bytes_of ''/multistream/1.0.0'' @ [10]"

definition MULTISTREAM_PROTOCOL_MAX_LEN :: nat where "MULTISTREAM_PROTOCOL_MAX_LEN = 1024"
definition WORK_UNITS_BEFORE_YIELD :: nat where "WORK_UNITS_BEFORE_YIELD = 64"

datatype CloseReason = CrClosedByRemote | IncomingMessageTooLarge

datatype MsOutputState =
    IncomingProtocol utf8_string
  | OutgoingRejected
  | OutgoingAccepted utf8_string
  | MsData bytes
  | MsClosed CloseReason

record MsOutput =
  mo_stream_id :: YamuxStreamId
  mo_state :: MsOutputState

abbreviation ms_out :: "YamuxStreamId \<Rightarrow> MsOutputState \<Rightarrow> MsOutput" where
  "ms_out i s \<equiv> \<lparr>mo_stream_id = i, mo_state = s\<rparr>"

datatype MultistreamState =
    NewIncoming
  | NewIncomingProtocol
  | NewIncomingProtocolWaitingForAccept utf8_string
  | OutgoingProtocolWaitingForAccept bool utf8_string "utf8_string list"
  | MsOpen
  | MsClosedByUs

record Multistream =
  ms_buffer :: MultistreamFrameBuffer
  ms_state :: MultistreamState
  max_buffer_size :: nat

datatype ms_error =
    MsYamux yamux_error
  | MsVarintOutOfRange
  | MsStreamNotFound YamuxStreamId
  | MsStreamNotWaitingForAccept YamuxStreamId
  | MsStreamNotOpen YamuxStreamId
  | MsNoProtocolsGiven

record ('r, 'w) YamuxMultistream =
  ym_inner :: "('r, 'w) YamuxSession"
  ym_bufs :: "(YamuxStreamId, Multistream) btree"
  read_from_stream_buffer :: "YamuxStreamId option"

definition ym_new :: "('r, 'w) YamuxSession \<Rightarrow> ('r, 'w) YamuxMultistream" where
  "ym_new s = \<lparr>ym_inner = s, ym_bufs = bt_empty, read_from_stream_buffer = None\<rparr>"

definition ym_get :: "('r, 'w) YamuxMultistream \<Rightarrow> YamuxStreamId \<Rightarrow> Multistream option" where
  "ym_get m i = bt_get (ym_bufs m) i"

definition ym_set :: "YamuxStreamId \<Rightarrow> Multistream \<Rightarrow> ('r, 'w) YamuxMultistream \<Rightarrow> ('r, 'w) YamuxMultistream" where
  "ym_set i e m = m\<lparr>ym_bufs := bt_insert i e (ym_bufs m)\<rparr>"

section \<open>Sending frames\<close>

fun iters_equal :: "bytes \<Rightarrow> bytes \<Rightarrow> bool" where
  "iters_equal (a # as) (b # bs) = (if a \<noteq> b then False else iters_equal as bs)"
| "iters_equal [] [] = True"
| "iters_equal _ _ = False"

definition bytes_equal_iter :: "bytes \<Rightarrow> bytes \<Rightarrow> bool" where
  "bytes_equal_iter value it = (if length value \<noteq> length it then False else iters_equal value it)"

text \<open>A sequence of \<open>send_data\<close> calls, each with \<open>?\<close>.\<close>

fun send_all ::
  "YamuxStreamId \<Rightarrow> bytes list \<Rightarrow> ('r, 'w) YamuxSession \<Rightarrow> (yamux_error + unit) \<times> ('r, 'w) YamuxSession" where
  "send_all i [] s = (Inr (), s)"
| "send_all i (c # cs) s =
     (case session_send_data i c s of
        (Inl e, s') \<Rightarrow> (Inl e, s')
      | (Inr _, s') \<Rightarrow> send_all i cs s')"

text \<open>\<open>None\<close>: the varint does not fit its ten byte array, a panic.\<close>

definition send_chunks ::
  "YamuxStreamId \<Rightarrow> u64 \<Rightarrow> bytes list \<Rightarrow> ('r, 'w) YamuxMultistream
     \<Rightarrow> ((ms_error + unit) \<times> ('r, 'w) YamuxMultistream) option" where
  "send_chunks i len chunks m =
     (case varint_encode len (replicate 10 0) of
        None \<Rightarrow> None
      | Some (len_buf, varint_len) \<Rightarrow>
          (case send_all i (take varint_len len_buf # chunks) (ym_inner m) of
             (Inl e, s) \<Rightarrow> Some (Inl (MsYamux e), m\<lparr>ym_inner := s\<rparr>)
           | (Inr _, s) \<Rightarrow> Some (Inr (), m\<lparr>ym_inner := s\<rparr>)))"

definition send_multistream_data ::
  "YamuxStreamId \<Rightarrow> bytes \<Rightarrow> ('r, 'w) YamuxMultistream
     \<Rightarrow> ((ms_error + unit) \<times> ('r, 'w) YamuxMultistream) option" where
  "send_multistream_data i data m = send_chunks i (of_nat (length data)) [data] m"

definition send_multistream_data_with_newline ::
  "YamuxStreamId \<Rightarrow> bytes \<Rightarrow> ('r, 'w) YamuxMultistream
     \<Rightarrow> ((ms_error + unit) \<times> ('r, 'w) YamuxMultistream) option" where
  "send_multistream_data_with_newline i data m =
     send_chunks i (of_nat (length data) + 1) [data, [10]] m"

section \<open>Operations of the layer above\<close>

definition ym_reset_stream_immediately ::
  "YamuxStreamId \<Rightarrow> ('r, 'w) YamuxMultistream \<Rightarrow> ('r, 'w) YamuxMultistream" where
  "ym_reset_stream_immediately i m =
     m\<lparr>ym_bufs := bt_remove i (ym_bufs m),
       ym_inner := on_shared (yamux_reset_stream_immediately i) (ym_inner m)\<rparr>"

definition ym_close_stream ::
  "YamuxStreamId \<Rightarrow> ('r, 'w) YamuxMultistream \<Rightarrow> ('r, 'w) YamuxMultistream" where
  "ym_close_stream i m =
     (case ym_get m i of
        None \<Rightarrow> m
      | Some e \<Rightarrow> (ym_set i (e\<lparr>ms_state := MsClosedByUs\<rparr>) m)
          \<lparr>ym_inner := on_shared (yamux_close_stream i) (ym_inner m)\<rparr>)"

definition ym_close_stream_immediately ::
  "YamuxStreamId \<Rightarrow> ('r, 'w) YamuxMultistream \<Rightarrow> ('r, 'w) YamuxMultistream" where
  "ym_close_stream_immediately i m =
     (case ym_get m i of
        None \<Rightarrow> m
      | Some e \<Rightarrow> (ym_set i (e\<lparr>ms_state := MsClosedByUs\<rparr>) m)
          \<lparr>ym_inner := on_shared (yamux_close_stream_immediately i) (ym_inner m)\<rparr>)"

text \<open>\<open>None\<close> is a panic (the stream identifier overflows).\<close>

definition ym_open_stream ::
  "utf8_string list \<Rightarrow> nat \<Rightarrow> ('r, 'w) YamuxMultistream
     \<Rightarrow> ((ms_error + YamuxStreamId) \<times> ('r, 'w) YamuxMultistream) option" where
  "ym_open_stream protocols max_size m0 =
     (case session_open_stream (ym_inner m0) of
        None \<Rightarrow> None
      | Some (i, s) \<Rightarrow>
          (let m = m0\<lparr>ym_inner := s\<rparr> in
           case protocols of
             [] \<Rightarrow> Some (Inl MsNoProtocolsGiven, m)
           | protocol # rest \<Rightarrow>
               (case send_multistream_data i MULTISTREAM_PROTOCOL_NAME_WITH_NEWLINE m of
                  None \<Rightarrow> None
                | Some (Inl e, m) \<Rightarrow> Some (Inl e, m)
                | Some (Inr _, m) \<Rightarrow>
                    (case send_multistream_data_with_newline i protocol m of
                       None \<Rightarrow> None
                     | Some (Inl e, m) \<Rightarrow> Some (Inl e, m)
                     | Some (Inr _, m) \<Rightarrow>
                         Some (Inr i, ym_set i
                           \<lparr>ms_buffer = fb_new,
                            ms_state = OutgoingProtocolWaitingForAccept False protocol rest,
                            max_buffer_size = max_size\<rparr> m)))))"

definition ym_send_data ::
  "YamuxStreamId \<Rightarrow> bytes \<Rightarrow> ('r, 'w) YamuxMultistream
     \<Rightarrow> ((ms_error + unit) \<times> ('r, 'w) YamuxMultistream) option" where
  "ym_send_data i data m =
     (case ym_get m i of
        None \<Rightarrow> Some (Inl (MsStreamNotFound i), m)
      | Some e \<Rightarrow>
          (if ms_state e = MsOpen then send_multistream_data i data m
           else Some (Inl (MsStreamNotOpen i), m)))"

definition ym_accept_protocol ::
  "YamuxStreamId \<Rightarrow> nat \<Rightarrow> ('r, 'w) YamuxMultistream
     \<Rightarrow> ((ms_error + unit) \<times> ('r, 'w) YamuxMultistream) option" where
  "ym_accept_protocol i max_size m =
     (case ym_get m i of
        None \<Rightarrow> Some (Inl (MsStreamNotFound i), m)
      | Some e \<Rightarrow>
          (case ms_state e of
             NewIncomingProtocolWaitingForAccept protocol_name \<Rightarrow>
               send_multistream_data_with_newline i protocol_name
                 (ym_set i (e\<lparr>ms_state := MsOpen, max_buffer_size := max_size\<rparr>) m)
           | _ \<Rightarrow> Some (Inl (MsStreamNotWaitingForAccept i), m)))"

definition ym_reject_protocol ::
  "YamuxStreamId \<Rightarrow> ('r, 'w) YamuxMultistream
     \<Rightarrow> ((ms_error + unit) \<times> ('r, 'w) YamuxMultistream) option" where
  "ym_reject_protocol i m =
     (case ym_get m i of
        None \<Rightarrow> Some (Inl (MsStreamNotFound i), m)
      | Some e \<Rightarrow>
          (case ms_state e of
             NewIncomingProtocolWaitingForAccept _ \<Rightarrow>
               send_multistream_data_with_newline i (bytes_of ''na'')
                 (ym_set i (e\<lparr>ms_state := NewIncomingProtocol\<rparr>) m)
           | _ \<Rightarrow> Some (Inl (MsStreamNotWaitingForAccept i), m)))"

section \<open>The next message\<close>

datatype ms_step =
    MsContinue
  | MsReturn "ms_error + MsOutput option"
  | MsPending
  | MsPanic
  | MsOutOfFuel

text \<open>
  Where the next bytes come from: the stream whose buffer is being drained, or the session
  below. \<open>Inl i\<close>: stream \<open>i\<close> is in the table and may have a message.
\<close>

definition ms_new_incoming :: Multistream where
  "ms_new_incoming = \<lparr>ms_buffer = fb_new, ms_state = NewIncoming,
     max_buffer_size = MULTISTREAM_PROTOCOL_MAX_LEN\<rparr>"

definition ym_yamux_output ::
  "Output \<Rightarrow> ('r, 'w) YamuxMultistream \<Rightarrow> (YamuxStreamId + ms_step) \<times> ('r, 'w) YamuxMultistream" where
  "ym_yamux_output out m =
     (let i = out_stream_id out in
      case out_state out of
        OpenedByRemote \<Rightarrow>
          (Inl i, case ym_get m i of Some _ \<Rightarrow> m | None \<Rightarrow> ym_set i ms_new_incoming m)
      | OData _ \<Rightarrow>
          (case ym_get m i of
             None \<Rightarrow> (Inr MsContinue, m)
           | Some entry \<Rightarrow>
               (case yamux_data (ym_inner m) of
                  None \<Rightarrow> (Inr MsPanic, m)
                | Some data \<Rightarrow>
                    (if max_buffer_size entry < fb_len (ms_buffer entry) + length data
                     then (Inr (MsReturn (Inr (Some (ms_out i (MsClosed IncomingMessageTooLarge))))),
                           ym_reset_stream_immediately i m)
                     else (Inl i, ym_set i (entry\<lparr>ms_buffer := fb_feed (ms_buffer entry) data\<rparr>) m))))
      | ClosedByRemote \<Rightarrow>
          (case ym_get m i of
             None \<Rightarrow> (Inr MsContinue, m)
           | Some removed \<Rightarrow>
               (let m' = m\<lparr>ym_bufs := bt_remove i (ym_bufs m)\<rparr> in
                if ms_state removed = NewIncoming \<or> ms_state removed = NewIncomingProtocol
                then (Inr MsContinue, m')
                else (Inr (MsReturn (Inr (Some (ms_out i (MsClosed CrClosedByRemote))))), m'))))"

definition ym_pull ::
  "'r read_op \<Rightarrow> 'w write_op \<Rightarrow> (bytes \<Rightarrow> nat) \<Rightarrow> nat \<Rightarrow> nat \<Rightarrow> ('r, 'w) YamuxMultistream
     \<Rightarrow> (YamuxStreamId + ms_step) \<times> nat \<times> ('r, 'w) YamuxMultistream" where
  "ym_pull rd wr sl fuel work_units m0 =
     (case read_from_stream_buffer m0 of
        Some i \<Rightarrow>
          (let m = m0\<lparr>read_from_stream_buffer := None\<rparr> in
           (if ym_get m i = None then Inr MsContinue else Inl i, work_units, m))
      | None \<Rightarrow>
          (case yamux_next rd wr sl fuel (ym_inner m0) of
             Panic \<Rightarrow> (Inr MsPanic, work_units, m0)
           | OutOfFuel \<Rightarrow> (Inr MsOutOfFuel, work_units, m0)
           | Done (p, s) \<Rightarrow>
               (let m = m0\<lparr>ym_inner := s\<rparr> in
                case p of
                  Pending \<Rightarrow> (Inr MsPending, work_units, m)
                | Ready (Some (Inl e)) \<Rightarrow> (Inr (MsReturn (Inl (MsYamux e))), work_units, m)
                | Ready None \<Rightarrow> (Inr (MsReturn (Inr None)), work_units, m)
                | Ready (Some (Inr out)) \<Rightarrow>
                    (case ym_yamux_output out m of (r, m') \<Rightarrow> (r, work_units + 1, m')))))"

text \<open>Continue after a fallible send: \<open>?\<close> returns its error.\<close>

definition ms_after_send ::
  "((ms_error + unit) \<times> ('r, 'w) YamuxMultistream) option \<Rightarrow> ('r, 'w) YamuxMultistream
     \<Rightarrow> ms_step \<times> ('r, 'w) YamuxMultistream" where
  "ms_after_send r m =
     (case r of
        None \<Rightarrow> (MsPanic, m)
      | Some (Inl e, m') \<Rightarrow> (MsReturn (Inl e), m')
      | Some (Inr _, m') \<Rightarrow> (MsContinue, m'))"

text \<open>A message on stream \<open>i\<close>, whose entry is \<open>entry\<close> (its buffer already advanced).\<close>

definition ym_message ::
  "YamuxStreamId \<Rightarrow> Multistream \<Rightarrow> bytes \<Rightarrow> ('r, 'w) YamuxMultistream
     \<Rightarrow> ms_step \<times> ('r, 'w) YamuxMultistream" where
  "ym_message i entry msg m =
     (case ms_state entry of
        NewIncoming \<Rightarrow>
          (if bytes_equal_iter MULTISTREAM_PROTOCOL_NAME_WITH_NEWLINE msg
           then (let m' = ym_set i (entry\<lparr>ms_state := NewIncomingProtocol\<rparr>) m
                 in ms_after_send (send_multistream_data i MULTISTREAM_PROTOCOL_NAME_WITH_NEWLINE m') m')
           else (MsContinue, ym_reset_stream_immediately i m))
      | NewIncomingProtocol \<Rightarrow>
          (if msg = [] \<or> last msg \<noteq> 10 then (MsContinue, ym_reset_stream_immediately i m)
           else case from_utf8 (butlast msg) of
             None \<Rightarrow> (MsContinue, ym_reset_stream_immediately i m)
           | Some protocol_name \<Rightarrow>
               (MsReturn (Inr (Some (ms_out i (IncomingProtocol protocol_name)))),
                ym_set i (entry\<lparr>ms_state := NewIncomingProtocolWaitingForAccept protocol_name\<rparr>) m))
      | NewIncomingProtocolWaitingForAccept _ \<Rightarrow> (MsContinue, ym_reset_stream_immediately i m)
      | OutgoingProtocolWaitingForAccept seen_header current rest \<Rightarrow>
          (if \<not> seen_header then
             (if bytes_equal_iter MULTISTREAM_PROTOCOL_NAME_WITH_NEWLINE msg
              then (MsContinue, ym_set i
                      (entry\<lparr>ms_state := OutgoingProtocolWaitingForAccept True current rest\<rparr>) m)
              else (MsContinue, ym_reset_stream_immediately i m))
           else if iters_equal (current @ [10]) msg then
             (MsReturn (Inr (Some (ms_out i (OutgoingAccepted current)))),
              ym_set i (entry\<lparr>ms_state := MsOpen\<rparr>) m)
           else case rest of
             next_protocol # rest' \<Rightarrow>
               (let m' = ym_set i
                      (entry\<lparr>ms_state := OutgoingProtocolWaitingForAccept True next_protocol rest'\<rparr>) m
                in ms_after_send (send_multistream_data_with_newline i next_protocol m') m')
           | [] \<Rightarrow> (MsReturn (Inr (Some (ms_out i OutgoingRejected))), ym_reset_stream_immediately i m))
      | MsOpen \<Rightarrow> (MsReturn (Inr (Some (ms_out i (MsData msg)))), m)
      | MsClosedByUs \<Rightarrow> (MsReturn (Inr (Some (ms_out i (MsData msg)))), m))"

definition ym_drain ::
  "YamuxStreamId \<Rightarrow> nat \<Rightarrow> ('r, 'w) YamuxMultistream \<Rightarrow> ms_step \<times> nat \<times> ('r, 'w) YamuxMultistream" where
  "ym_drain i work_units m =
     (case ym_get m i of
        None \<Rightarrow> (MsContinue, work_units, m)
      | Some entry0 \<Rightarrow>
          (case fb_next (ms_buffer entry0) of
             (r, b) \<Rightarrow>
               (let entry = entry0\<lparr>ms_buffer := b\<rparr>; m1 = ym_set i entry m in
                case r of
                  None \<Rightarrow> (MsContinue, work_units, m1)
                | Some (Inl _) \<Rightarrow> (MsReturn (Inl MsVarintOutOfRange), work_units, m1)
                | Some (Inr msg) \<Rightarrow>
                    (case ym_message i entry msg (m1\<lparr>read_from_stream_buffer := Some i\<rparr>) of
                       (st, m2) \<Rightarrow> (st, work_units + 1, m2)))))"

definition ym_iter ::
  "'r read_op \<Rightarrow> 'w write_op \<Rightarrow> (bytes \<Rightarrow> nat) \<Rightarrow> nat \<Rightarrow> nat \<Rightarrow> ('r, 'w) YamuxMultistream
     \<Rightarrow> ms_step \<times> nat \<times> ('r, 'w) YamuxMultistream" where
  "ym_iter rd wr sl fuel work_units m =
     (case ym_pull rd wr sl fuel work_units m of
        (Inr st, u, m') \<Rightarrow> (st, u, m')
      | (Inl i, u, m') \<Rightarrow> ym_drain i u m')"

text \<open>
  One poll of \<open>next_inner\<close>: \<open>fuel\<close> bounds every poll of the session below, \<open>k\<close> the iterations.
  The number in the result is the \<open>work_units\<close> a suspended future resumes with.
\<close>

fun ym_next_inner ::
  "'r read_op \<Rightarrow> 'w write_op \<Rightarrow> (bytes \<Rightarrow> nat) \<Rightarrow> nat \<Rightarrow> nat \<Rightarrow> nat \<Rightarrow> ('r, 'w) YamuxMultistream
     \<Rightarrow> ((ms_error + MsOutput option) poll \<times> nat \<times> ('r, 'w) YamuxMultistream) run" where
  "ym_next_inner rd wr sl fuel 0 work_units m = OutOfFuel"
| "ym_next_inner rd wr sl fuel (Suc k) work_units m =
     (if WORK_UNITS_BEFORE_YIELD \<le> work_units then Done (Pending, 0, m)
      else case ym_iter rd wr sl fuel work_units m of
        (MsContinue, u, m') \<Rightarrow> ym_next_inner rd wr sl fuel k u m'
      | (MsReturn r, u, m') \<Rightarrow> Done (Ready r, 0, m')
      | (MsPending, u, m') \<Rightarrow> Done (Pending, u, m')
      | (MsPanic, u, m') \<Rightarrow> Panic
      | (MsOutOfFuel, u, m') \<Rightarrow> OutOfFuel)"

definition result_transpose :: "'e + 'a option \<Rightarrow> ('e + 'a) option" where
  "result_transpose r =
     (case r of Inl e \<Rightarrow> Some (Inl e) | Inr None \<Rightarrow> None | Inr (Some x) \<Rightarrow> Some (Inr x))"

definition ym_next ::
  "'r read_op \<Rightarrow> 'w write_op \<Rightarrow> (bytes \<Rightarrow> nat) \<Rightarrow> nat \<Rightarrow> nat \<Rightarrow> nat \<Rightarrow> ('r, 'w) YamuxMultistream
     \<Rightarrow> ((ms_error + MsOutput) option poll \<times> nat \<times> ('r, 'w) YamuxMultistream) run" where
  "ym_next rd wr sl fuel k work_units m =
     (case ym_next_inner rd wr sl fuel k work_units m of
        Panic \<Rightarrow> Panic
      | OutOfFuel \<Rightarrow> OutOfFuel
      | Done (Pending, u, m') \<Rightarrow> Done (Pending, u, m')
      | Done (Ready r, u, m') \<Rightarrow> Done (Ready (result_transpose r), u, m'))"

section \<open>Multistreams as a step relation\<close>

inductive ym_step ::
  "'r read_op \<Rightarrow> 'w write_op \<Rightarrow> (bytes \<Rightarrow> nat) \<Rightarrow> ('r, 'w) YamuxMultistream \<Rightarrow> ('r, 'w) YamuxMultistream \<Rightarrow> bool"
  for rd wr sl where
  ys_open: "ym_open_stream protocols max_size m = Some (res, m') \<Longrightarrow> ym_step rd wr sl m m'"
| ys_send: "ym_send_data i data m = Some (res, m') \<Longrightarrow> ym_step rd wr sl m m'"
| ys_accept: "MULTISTREAM_PROTOCOL_MAX_LEN \<le> max_size \<Longrightarrow>
    ym_accept_protocol i max_size m = Some (res, m') \<Longrightarrow> ym_step rd wr sl m m'"
| ys_reject: "ym_reject_protocol i m = Some (res, m') \<Longrightarrow> ym_step rd wr sl m m'"
| ys_close: "ym_step rd wr sl m (ym_close_stream i m)"
| ys_close_now: "ym_step rd wr sl m (ym_close_stream_immediately i m)"
| ys_reset: "ym_step rd wr sl m (ym_reset_stream_immediately i m)"
| ys_next: "ym_next rd wr sl fuel k u m = Done (p, u', m') \<Longrightarrow> ym_step rd wr sl m m'"
| ys_transport: "ym_step rd wr sl m
    (m\<lparr>ym_inner := (ym_inner m)\<lparr>ys_world := (ys_world (ym_inner m))\<lparr>yw_reader := r\<rparr>\<rparr>\<rparr>)"

inductive ym_reachable ::
  "'r read_op \<Rightarrow> 'w write_op \<Rightarrow> (bytes \<Rightarrow> nat) \<Rightarrow> ('r, 'w) YamuxMultistream \<Rightarrow> bool"
  for rd wr sl where
  yr_new: "ym_reachable rd wr sl (ym_new (yamux_new r w))"
| yr_step: "ym_reachable rd wr sl m \<Longrightarrow> ym_step rd wr sl m m' \<Longrightarrow> ym_reachable rd wr sl m'"

text \<open>Buffers stay within their limit, which is small until a protocol is accepted.\<close>

fun awaiting_accept :: "MultistreamState \<Rightarrow> bool" where
  "awaiting_accept NewIncoming = True"
| "awaiting_accept NewIncomingProtocol = True"
| "awaiting_accept (NewIncomingProtocolWaitingForAccept _) = True"
| "awaiting_accept _ = False"

definition entry_ok :: "Multistream \<Rightarrow> bool" where
  "entry_ok e \<longleftrightarrow> fb_len (ms_buffer e) \<le> max_buffer_size e \<and>
     (awaiting_accept (ms_state e) \<longrightarrow> max_buffer_size e = MULTISTREAM_PROTOCOL_MAX_LEN)"

definition ym_inv :: "('r, 'w) YamuxMultistream \<Rightarrow> bool" where
  "ym_inv m \<longleftrightarrow> yamux_inv (ym_inner m) \<and> (\<forall>i e. ym_get m i = Some e \<longrightarrow> entry_ok e)"

lemma ym_get_simps [simp]:
  "ym_get (ym_set j e m) i = (if i = j then Some e else ym_get m i)"
  "ym_get (m\<lparr>ym_inner := s\<rparr>) i = ym_get m i"
  "ym_get (m\<lparr>read_from_stream_buffer := r\<rparr>) i = ym_get m i"
  "ym_get (m\<lparr>ym_bufs := bt_remove j (ym_bufs m)\<rparr>) i = (if i = j then None else ym_get m i)"
  "ym_inner (ym_set j e m) = ym_inner m"
  "read_from_stream_buffer (ym_set j e m) = read_from_stream_buffer m"
  by (simp_all add: ym_get_def ym_set_def)

lemma ym_inv_set [intro]: "ym_inv m \<Longrightarrow> entry_ok e \<Longrightarrow> ym_inv (ym_set i e m)"
  by (simp add: ym_inv_def)

lemma ym_inv_inner: "ym_inv m \<Longrightarrow> yamux_inv s \<Longrightarrow> ym_inv (m\<lparr>ym_inner := s\<rparr>)"
  by (simp add: ym_inv_def)

lemma ym_inv_rfsb [simp]: "ym_inv (m\<lparr>read_from_stream_buffer := r\<rparr>) = ym_inv m"
  by (simp add: ym_inv_def)

lemma ym_inv_remove: "ym_inv m \<Longrightarrow> ym_inv (m\<lparr>ym_bufs := bt_remove i (ym_bufs m)\<rparr>)"
  by (auto simp: ym_inv_def split: if_splits)

lemma ym_inv_get: "ym_inv m \<Longrightarrow> ym_get m i = Some e \<Longrightarrow> entry_ok e"
  by (simp add: ym_inv_def)

lemma yamux_inv_send_all: "yamux_inv s \<Longrightarrow> send_all i cs s = (r, s') \<Longrightarrow> yamux_inv s'"
proof (induction i cs s arbitrary: r s' rule: send_all.induct)
  case (2 i c cs s)
  obtain r1 s1 where s1: "session_send_data i c s = (r1, s1)" by fastforce
  have "yamux_inv s1"
    using s1 yamux_inv_api(1) [OF 2(2), of i c] by (auto simp: session_send_data_def split: prod.splits)
  with 2 s1 show ?case by (auto split: sum.splits)
qed simp

lemma send_chunks_inner:
  assumes "send_chunks i len chunks m = Some (r, m')"
  obtains c r1 s1 where "send_all i (c # chunks) (ym_inner m) = (r1, s1)" "m' = m\<lparr>ym_inner := s1\<rparr>"
proof -
  obtain buf n where enc: "varint_encode len (replicate 10 0) = Some (buf, n)"
    using assms by (auto simp: send_chunks_def split: option.splits)
  obtain r1 s1 where all: "send_all i (take n buf # chunks) (ym_inner m) = (r1, s1)" by fastforce
  have "m' = m\<lparr>ym_inner := s1\<rparr>"
    using assms enc all by (cases r1) (simp_all add: send_chunks_def del: send_all.simps)
  with all that show ?thesis by blast
qed

lemma send_chunks_ok:
  assumes "ym_inv m" and "send_chunks i len chunks m = Some (r, m')"
  shows "ym_inv m' \<and> ym_bufs m' = ym_bufs m"
proof -
  obtain c r1 s1 where all: "send_all i (c # chunks) (ym_inner m) = (r1, s1)"
    and m': "m' = m\<lparr>ym_inner := s1\<rparr>"
    by (rule send_chunks_inner [OF assms(2)])
  have "yamux_inv s1"
    by (rule yamux_inv_send_all [OF _ all]) (use assms(1) in \<open>simp add: ym_inv_def\<close>)
  with m' show ?thesis using ym_inv_inner [OF assms(1)] by simp
qed

lemma ym_inv_send:
  "ym_inv m \<Longrightarrow> send_multistream_data i d m = Some (r, m') \<Longrightarrow> ym_inv m'"
  "ym_inv m \<Longrightarrow> send_multistream_data_with_newline i d m = Some (r, m') \<Longrightarrow> ym_inv m'"
  by (auto simp: send_multistream_data_def send_multistream_data_with_newline_def dest: send_chunks_ok)

lemma ym_inv_reset: "ym_inv m \<Longrightarrow> ym_inv (ym_reset_stream_immediately i m)"
  using yamux_inv_api(4) [of "ym_inner m" i] ym_inv_remove [of m i]
  by (auto simp: ym_reset_stream_immediately_def ym_inv_def)

lemma entry_ok_state [simp]:
  "\<not> awaiting_accept st \<Longrightarrow> entry_ok e \<Longrightarrow> entry_ok (e\<lparr>ms_state := st\<rparr>)"
  "awaiting_accept (ms_state e) \<Longrightarrow> entry_ok e \<Longrightarrow> entry_ok (e\<lparr>ms_state := st\<rparr>)"
  by (auto simp: entry_ok_def)

lemma entry_ok_new [simp]: "entry_ok ms_new_incoming"
  "\<not> awaiting_accept st \<Longrightarrow> entry_ok \<lparr>ms_buffer = fb_new, ms_state = st, max_buffer_size = n\<rparr>"
  by (simp_all add: ms_new_incoming_def entry_ok_def fb_new_def fb_len_def)

lemma ym_inv_api:
  assumes inv: "ym_inv m"
  shows "ym_inv (ym_close_stream i m)" "ym_inv (ym_close_stream_immediately i m)"
  using ym_inv_get [OF inv] yamux_inv_api [of "ym_inner m" i] inv
  by (auto simp: ym_close_stream_def ym_close_stream_immediately_def ym_inv_def split: option.splits)

lemma ym_inv_open:
  assumes inv: "ym_inv m" and "ym_open_stream ps n m = Some (r, m')"
  shows "ym_inv m'"
proof -
  obtain i s where op: "session_open_stream (ym_inner m) = Some (i, s)"
    using assms(2) by (auto simp: ym_open_stream_def split: option.splits)
  then have inv1: "ym_inv (m\<lparr>ym_inner := s\<rparr>)"
    using inv yamux_inv_open [of "ym_inner m" i s] by (simp add: ym_inv_def)
  show ?thesis
  proof (cases ps)
    case Nil
    with assms(2) op inv1 show ?thesis by (simp add: ym_open_stream_def)
  next
    case (Cons p rest)
    with assms(2) op obtain r1 m1
      where s1: "send_multistream_data i MULTISTREAM_PROTOCOL_NAME_WITH_NEWLINE (m\<lparr>ym_inner := s\<rparr>)
        = Some (r1, m1)"
      by (auto simp: ym_open_stream_def Let_def split: option.splits)
    then have inv2: "ym_inv m1" by (rule ym_inv_send [OF inv1])
    show ?thesis
    proof (cases r1)
      case (Inl e)
      with assms(2) op Cons s1 inv2 show ?thesis by (simp add: ym_open_stream_def)
    next
      case (Inr u)
      with assms(2) op Cons s1 obtain r2 m2
        where s2: "send_multistream_data_with_newline i p m1 = Some (r2, m2)"
        by (auto simp: ym_open_stream_def Let_def split: option.splits)
      then have "ym_inv m2" by (rule ym_inv_send [OF inv2])
      with assms(2) op Cons s1 s2 Inr show ?thesis
        by (cases r2) (auto simp: ym_open_stream_def)
    qed
  qed
qed

lemma ym_inv_accept:
  assumes inv: "ym_inv m" and "MULTISTREAM_PROTOCOL_MAX_LEN \<le> n"
    and ac: "ym_accept_protocol i n m = Some (r, m')"
  shows "ym_inv m'"
proof (cases "\<exists>e p. ym_get m i = Some e \<and> ms_state e = NewIncomingProtocolWaitingForAccept p")
  case True
  then obtain e p where e: "ym_get m i = Some e" "ms_state e = NewIncomingProtocolWaitingForAccept p"
    by blast
  have "entry_ok (e\<lparr>ms_state := MsOpen, max_buffer_size := n\<rparr>)"
    using ym_inv_get [OF inv e(1)] e(2) assms(2) by (simp add: entry_ok_def)
  then have "ym_inv (ym_set i (e\<lparr>ms_state := MsOpen, max_buffer_size := n\<rparr>) m)" using inv by blast
  moreover have "send_multistream_data_with_newline i p
      (ym_set i (e\<lparr>ms_state := MsOpen, max_buffer_size := n\<rparr>) m) = Some (r, m')"
    using ac e by (simp add: ym_accept_protocol_def)
  ultimately show ?thesis by (rule ym_inv_send(2))
qed (use ac inv in \<open>auto simp: ym_accept_protocol_def split: option.splits MultistreamState.splits\<close>)

lemma ym_inv_reject:
  assumes inv: "ym_inv m" and rj: "ym_reject_protocol i m = Some (r, m')"
  shows "ym_inv m'"
proof (cases "\<exists>e p. ym_get m i = Some e \<and> ms_state e = NewIncomingProtocolWaitingForAccept p")
  case True
  then obtain e p where e: "ym_get m i = Some e" "ms_state e = NewIncomingProtocolWaitingForAccept p"
    by blast
  have "ym_inv (ym_set i (e\<lparr>ms_state := NewIncomingProtocol\<rparr>) m)"
    using ym_inv_get [OF inv e(1)] e(2) inv by (intro ym_inv_set) simp_all
  moreover have "send_multistream_data_with_newline i (bytes_of ''na'')
      (ym_set i (e\<lparr>ms_state := NewIncomingProtocol\<rparr>) m) = Some (r, m')"
    using rj e by (simp add: ym_reject_protocol_def)
  ultimately show ?thesis by (rule ym_inv_send(2))
qed (use rj inv in \<open>auto simp: ym_reject_protocol_def split: option.splits MultistreamState.splits\<close>)

lemma ym_inv_send_data: "ym_inv m \<Longrightarrow> ym_send_data i d m = Some (r, m') \<Longrightarrow> ym_inv m'"
  by (auto simp: ym_send_data_def dest: ym_inv_send split: option.splits if_splits)

section \<open>The invariant under next\<close>

lemma ym_inv_after_send:
  "ym_inv m \<Longrightarrow> (\<And>r m'. res = Some (r, m') \<Longrightarrow> ym_inv m') \<Longrightarrow> ym_inv (snd (ms_after_send res m))"
  by (auto simp: ms_after_send_def split: option.splits sum.splits)

lemma ym_inv_message:
  assumes inv: "ym_inv m" and e: "entry_ok entry"
  shows "ym_inv (snd (ym_message i entry msg m))"
proof (cases "ms_state entry")
  case NewIncoming
  let ?m = "ym_set i (entry\<lparr>ms_state := NewIncomingProtocol\<rparr>) m"
  have inv1: "ym_inv ?m" using inv e NewIncoming by (intro ym_inv_set) simp_all
  have "ym_inv (snd (ms_after_send (send_multistream_data i MULTISTREAM_PROTOCOL_NAME_WITH_NEWLINE ?m) ?m))"
    by (rule ym_inv_after_send [OF inv1 ym_inv_send(1) [OF inv1]])
  with NewIncoming ym_inv_reset [OF inv, of i] show ?thesis by (simp add: ym_message_def Let_def)
next
  case NewIncomingProtocol
  with inv e ym_inv_reset [OF inv, of i] show ?thesis
    by (auto simp: ym_message_def split: option.splits)
next
  case (OutgoingProtocolWaitingForAccept seen current rest)
  have inv1: "ym_inv (ym_set i (entry\<lparr>ms_state := OutgoingProtocolWaitingForAccept True p ps\<rparr>) m)" for p ps
    using inv e by (intro ym_inv_set) simp_all
  have "ym_inv (snd (ms_after_send (send_multistream_data_with_newline i p
      (ym_set i (entry\<lparr>ms_state := OutgoingProtocolWaitingForAccept True p ps\<rparr>) m))
      (ym_set i (entry\<lparr>ms_state := OutgoingProtocolWaitingForAccept True p ps\<rparr>) m)))" for p ps
    by (rule ym_inv_after_send [OF inv1 ym_inv_send(2) [OF inv1]])
  then show ?thesis
    using inv1 OutgoingProtocolWaitingForAccept ym_inv_reset [OF inv, of i] inv e
    by (auto simp: ym_message_def Let_def split: list.splits)
qed (use ym_inv_reset [OF inv, of i] inv in \<open>simp_all add: ym_message_def\<close>)

lemma fb_next_len: "fb_next b = (r, b') \<Longrightarrow> fb_len b' \<le> fb_len b"
proof -
  have "fb_next_loop c = (x, c') \<Longrightarrow> fb_len c' \<le> fb_len c" for c c' x
  proof (induction c arbitrary: x c' rule: fb_next_loop.induct)
    case (1 c)
    show ?case
    proof (cases "needs c")
      case (NeedsLen n)
      with 1(3) show ?thesis
        by (auto simp: fb_next_loop.simps [of c] fb_len_def split: if_splits)
    next
      case (DecodingLen d)
      show ?thesis
      proof (cases "fbuf c")
        case (Cons b bs)
        with DecodingLen 1 show ?thesis
          by (cases "Decoder_feed d b") (force simp: fb_next_loop.simps [of c] fb_len_def)+
      qed (use DecodingLen 1(3) in \<open>simp add: fb_next_loop.simps [of c]\<close>)
    qed
  qed
  then show "fb_next b = (r, b') \<Longrightarrow> fb_len b' \<le> fb_len b"
    by (auto simp: fb_next_def split: if_splits)
qed

lemma ym_inv_drain:
  assumes inv: "ym_inv m" shows "ym_inv (snd (snd (ym_drain i u m)))"
proof (cases "ym_get m i")
  case (Some e)
  obtain r b where fb: "fb_next (ms_buffer e) = (r, b)" by fastforce
  let ?e = "e\<lparr>ms_buffer := b\<rparr>"
  have e: "entry_ok ?e"
    using ym_inv_get [OF inv Some] fb_next_len [OF fb] by (auto simp: entry_ok_def)
  then have "ym_inv (ym_set i ?e m)" using inv by blast
  with ym_inv_message [OF _ e, of "(ym_set i ?e m)\<lparr>read_from_stream_buffer := Some i\<rparr>" i] Some fb
  show ?thesis
    by (auto simp: ym_drain_def Let_def split: option.splits sum.splits prod.splits)
       (metis snd_conv)
qed (use inv in \<open>simp add: ym_drain_def\<close>)

lemma ym_inv_yamux_output:
  assumes inv: "ym_inv m" shows "ym_inv (snd (ym_yamux_output out m))"
proof (cases "out_state out")
  case OpenedByRemote
  with inv show ?thesis by (auto simp: ym_yamux_output_def Let_def split: option.splits)
next
  case (OData n)
  have "entry_ok (e\<lparr>ms_buffer := fb_feed (ms_buffer e) data\<rparr>)"
    if "ym_get m i = Some e" "\<not> max_buffer_size e < fb_len (ms_buffer e) + length data" for i e data
    using ym_inv_get [OF inv that(1)] that(2) by (auto simp: entry_ok_def fb_len_def fb_feed_def)
  with OData inv ym_inv_reset [OF inv] show ?thesis
    by (auto simp: ym_yamux_output_def Let_def split: option.splits)
next
  case ClosedByRemote
  with inv ym_inv_remove [OF inv] show ?thesis
    by (auto simp: ym_yamux_output_def Let_def split: option.splits)
qed

lemma ym_inv_yamux_output_eq: "ym_yamux_output out m = (r, m') \<Longrightarrow> ym_inv m \<Longrightarrow> ym_inv m'"
  using ym_inv_yamux_output [of m out] by simp

lemma ym_inv_drain_eq: "ym_drain i u m = (st, u', m') \<Longrightarrow> ym_inv m \<Longrightarrow> ym_inv m'"
  using ym_inv_drain [of m i u] by simp

context async_read
begin

lemma ym_inv_pull:
  assumes inv: "ym_inv m" and pl: "ym_pull rd wr sl fuel u m = (r, u', m')"
  shows "ym_inv m'"
proof (cases "read_from_stream_buffer m")
  case (Some i)
  with pl inv show ?thesis by (auto simp: ym_pull_def Let_def)
next
  case None
  have "ym_inv (m\<lparr>ym_inner := s\<rparr>)" if "yamux_next rd wr sl fuel (ym_inner m) = Done (p, s)" for p s
    using inv yamux_inv_next [OF _ that] by (auto simp: ym_inv_def)
  with pl None inv show ?thesis
    by (auto simp: ym_pull_def Let_def dest: ym_inv_yamux_output_eq
        split: run.splits poll.splits option.splits sum.splits prod.splits)
qed

lemma ym_inv_iter: "ym_inv m \<Longrightarrow> ym_iter rd wr sl fuel u m = (st, u', m') \<Longrightarrow> ym_inv m'"
  by (auto simp: ym_iter_def dest: ym_inv_pull ym_inv_drain_eq split: prod.splits sum.splits)

lemma ym_inv_next_inner:
  "ym_inv m \<Longrightarrow> ym_next_inner rd wr sl fuel k u m = Done (p, u', m') \<Longrightarrow> ym_inv m'"
proof (induction k arbitrary: u m)
  case (Suc k)
  obtain st u1 m1 where it: "ym_iter rd wr sl fuel u m = (st, u1, m1)" by (metis prod_cases3)
  have "ym_inv m1" using ym_inv_iter [OF Suc.prems(1) it] .
  with Suc it show ?case by (cases st) (auto split: if_splits)
qed simp

lemma ym_inv_next:
  "ym_inv m \<Longrightarrow> ym_next rd wr sl fuel k u m = Done (p, u', m') \<Longrightarrow> ym_inv m'"
  by (auto simp: ym_next_def dest: ym_inv_next_inner split: run.splits poll.splits)

lemma ym_inv_step: "ym_step rd wr sl m m' \<Longrightarrow> ym_inv m \<Longrightarrow> ym_inv m'"
proof (induction rule: ym_step.induct)
  case (ys_transport m r)
  then show ?case by (auto simp: ym_inv_def yamux_inv_def world_inv_def)
qed (auto intro: ym_inv_open ym_inv_send_data ym_inv_accept ym_inv_reject ym_inv_api ym_inv_reset
      ym_inv_next)

lemma ym_inv_reachable: "ym_reachable rd wr sl m \<Longrightarrow> ym_inv m"
proof (induction rule: ym_reachable.induct)
  case (yr_new r w)
  then show ?case
    using yamux_inv_new [of r w] by (simp add: ym_inv_def ym_new_def ym_get_def)
qed (rule ym_inv_step)

end

section \<open>Polls return\<close>

text \<open>
  Iterations a poll can still do: every iteration but one that only finds the drained stream's
  buffer without a message does a unit of work, and such an iteration leaves no stream to drain.
\<close>

definition ym_rank :: "nat \<Rightarrow> ('r, 'w) YamuxMultistream \<Rightarrow> nat" where
  "ym_rank u m = 2 * (WORK_UNITS_BEFORE_YIELD - u) + (if read_from_stream_buffer m = None then 0 else 1)"

lemma varint_fits: "varint_encode len (replicate 10 0) \<noteq> None"
  using varint_bytes_length [of len] by (simp add: varint_encode_eq)

lemma send_chunks_total: "\<exists>r m'. send_chunks i len cs m = Some (r, m')"
proof -
  obtain buf n where "varint_encode len (replicate 10 0) = Some (buf, n)"
    using varint_fits [of len] by auto
  then show ?thesis
    by (auto simp: send_chunks_def simp del: send_all.simps split: prod.splits sum.splits)
qed

fun ms_settled :: "ms_step \<Rightarrow> bool" where
  "ms_settled MsContinue = True"
| "ms_settled (MsReturn _) = True"
| "ms_settled _ = False"

lemma ms_settled_after_send:
  "ms_settled (fst (ms_after_send (send_multistream_data i d m) m0))"
  "ms_settled (fst (ms_after_send (send_multistream_data_with_newline i d m) m0))"
  using send_chunks_total [of i "of_nat (length d)" "[d]" m]
    send_chunks_total [of i "of_nat (length d) + 1" "[d, [10]]" m]
  by (auto simp: ms_after_send_def send_multistream_data_def send_multistream_data_with_newline_def
      split: sum.splits)

lemma ms_settled_message: "ms_settled (fst (ym_message i e msg m))"
  by (auto simp: ym_message_def Let_def ms_settled_after_send
      split: MultistreamState.splits option.splits list.splits)

lemma ym_drain_settled:
  assumes "ym_drain i u m = (st, u', m')" shows "ms_settled st"
proof (cases "ym_get m i")
  case (Some e)
  obtain r b where fb: "fb_next (ms_buffer e) = (r, b)" by fastforce
  have "ms_settled st1" if "ym_message i (e\<lparr>ms_buffer := b\<rparr>) msg m1 = (st1, m2)" for msg m1 st1 m2
    using ms_settled_message [of i "e\<lparr>ms_buffer := b\<rparr>" msg m1] that by simp
  with assms Some fb show ?thesis
    by (auto simp: ym_drain_def Let_def split: option.splits sum.splits prod.splits)
qed (use assms in \<open>auto simp: ym_drain_def\<close>)

lemma ym_drain_step:
  assumes "ym_drain i u m = (st, u', m')" and "read_from_stream_buffer m = None"
  shows "ms_settled st \<and>
    (st = MsContinue \<longrightarrow> u' = Suc u \<or> u' = u \<and> read_from_stream_buffer m' = None)"
  using ym_drain_settled [OF assms(1)] assms
  by (auto simp: ym_drain_def Let_def split: option.splits sum.splits prod.splits)

lemma ym_yamux_output_step:
  assumes "ym_yamux_output out m = (r, m')" and "yamux_data (ym_inner m) \<noteq> None"
  shows "(\<forall>st. r = Inr st \<longrightarrow> ms_settled st) \<and> read_from_stream_buffer m' = read_from_stream_buffer m \<and>
    yw_reader (ys_world (ym_inner m')) = yw_reader (ys_world (ym_inner m))"
  using assms
  by (auto simp: ym_yamux_output_def ym_reset_stream_immediately_def on_shared_def Let_def
      split: OutputState.splits option.splits if_splits)

abbreviation ym_reader :: "('r, 'w) YamuxMultistream \<Rightarrow> 'r" where
  "ym_reader m \<equiv> yw_reader (ys_world (ym_inner m))"

lemma reader_session_send:
  "session_send_data i c s = (r, s') \<Longrightarrow> yw_reader (ys_world s') = yw_reader (ys_world s)"
  by (auto simp: session_send_data_def on_shared_def split: prod.splits)

lemma reader_send_all: "send_all i cs s = (r, s') \<Longrightarrow> yw_reader (ys_world s') = yw_reader (ys_world s)"
proof (induction cs arbitrary: s)
  case (Cons c cs)
  obtain r1 s1 where s1: "session_send_data i c s = (r1, s1)" by fastforce
  show ?case
  proof (cases r1)
    case (Inr u)
    with Cons.prems s1 have "send_all i cs s1 = (r, s')" by simp
    from Cons.IH [OF this] reader_session_send [OF s1] show ?thesis by simp
  qed (use Cons.prems s1 reader_session_send [OF s1] in simp)
qed simp

lemma reader_send_chunks:
  assumes "send_chunks i len cs m = Some (r, m')"
  shows "ym_reader m' = ym_reader m"
proof -
  obtain c r1 s1 where all: "send_all i (c # cs) (ym_inner m) = (r1, s1)" and "m' = m\<lparr>ym_inner := s1\<rparr>"
    by (rule send_chunks_inner [OF assms])
  with reader_send_all [OF all] show ?thesis by simp
qed

lemma reader_after_send:
  "ym_reader m0 = ym_reader m \<Longrightarrow>
   ym_reader (snd (ms_after_send (send_multistream_data i d m) m0)) = ym_reader m \<and>
   ym_reader (snd (ms_after_send (send_multistream_data_with_newline i d m) m0)) = ym_reader m"
  by (auto simp: ms_after_send_def send_multistream_data_def send_multistream_data_with_newline_def
      dest: reader_send_chunks split: option.splits prod.splits sum.splits)

lemma reader_reset [simp]: "ym_reader (ym_reset_stream_immediately i m) = ym_reader m"
  by (simp add: ym_reset_stream_immediately_def on_shared_def)

lemma reader_message: "ym_reader (snd (ym_message i e msg m)) = ym_reader m"
  by (auto simp: ym_message_def Let_def reader_after_send
      split: MultistreamState.splits option.splits list.splits)

lemma reader_drain: "ym_drain i u m = (st, u', m') \<Longrightarrow> ym_reader m' = ym_reader m"
proof -
  have "ym_reader m2 = ym_reader m1" if "ym_message i e msg m1 = (st1, m2)" for e msg m1 st1 m2
    using reader_message [of i e msg m1] that by simp
  then show "ym_drain i u m = (st, u', m') \<Longrightarrow> ym_reader m' = ym_reader m"
    by (fastforce simp: ym_drain_def Let_def split: option.splits sum.splits prod.splits)
qed

context async_read
begin

lemma ym_pull_step:
  assumes inv: "ym_inv m" and fuel: "left (ym_reader m) + 11 \<le> fuel"
    and pl: "ym_pull rd wr sl fuel u m = (r, u', m')"
  shows "read_from_stream_buffer m' = None \<and> left (ym_reader m') \<le> left (ym_reader m) \<and>
    (\<forall>st. r = Inr st \<longrightarrow> ms_settled st \<or> st = MsPending) \<and>
    (if read_from_stream_buffer m = None then u' = Suc u \<or> (\<exists>st. r = Inr st \<and> st \<noteq> MsContinue)
     else u' = u)"
proof (cases "read_from_stream_buffer m")
  case (Some i)
  with pl show ?thesis by (auto simp: ym_pull_def Let_def split: if_splits)
next
  case None
  have "yamux_inv (ym_inner m)" using inv by (simp add: ym_inv_def)
  from yamux_next_done [OF this fuel] obtain p s
    where nx: "yamux_next rd wr sl fuel (ym_inner m) = Done (p, s)" by blast
  have l: "left (yw_reader (ys_world s)) \<le> left (ym_reader m)" by (rule yamux_next_left [OF nx])
  show ?thesis
  proof (cases "\<exists>out. p = Ready (Some (Inr out))")
    case True
    then obtain out where p: "p = Ready (Some (Inr out))" by blast
    have "yamux_data s \<noteq> None" using yamux_next_output_data [OF nx [unfolded p]] by simp
    then show ?thesis
      using pl None nx p l ym_yamux_output_step [of out "m\<lparr>ym_inner := s\<rparr>"]
      by (auto simp: ym_pull_def Let_def split: prod.splits)
  next
    case False
    with pl None nx l show ?thesis
      by (auto simp: ym_pull_def Let_def split: poll.splits option.splits sum.splits)
  qed
qed

lemma ym_iter_step:
  assumes inv: "ym_inv m" and fuel: "left (ym_reader m) + 11 \<le> fuel" and u: "u < WORK_UNITS_BEFORE_YIELD"
    and it: "ym_iter rd wr sl fuel u m = (st, u', m')"
  shows "(ms_settled st \<or> st = MsPending) \<and> left (ym_reader m') \<le> left (ym_reader m) \<and>
    (st = MsContinue \<longrightarrow> ym_rank u' m' < ym_rank u m)"
proof -
  obtain r u1 m1 where pl: "ym_pull rd wr sl fuel u m = (r, u1, m1)" by (metis prod_cases3)
  note step = ym_pull_step [OF inv fuel pl]
  show ?thesis
  proof (cases r)
    case (Inr st')
    with it pl step u show ?thesis by (auto simp: ym_iter_def ym_rank_def split: if_splits)
  next
    case (Inl i)
    with it pl have dr: "ym_drain i u1 m1 = (st, u', m')" by (simp add: ym_iter_def)
    have "read_from_stream_buffer m1 = None" using step by simp
    from ym_drain_step [OF dr this] reader_drain [OF dr] step u Inl show ?thesis
      by (auto simp: ym_rank_def split: if_splits)
  qed
qed

lemma ym_next_inner_done:
  "ym_inv m \<Longrightarrow> left (ym_reader m) + 11 \<le> fuel \<Longrightarrow> ym_rank u m < k \<Longrightarrow>
   \<exists>p u' m'. ym_next_inner rd wr sl fuel k u m = Done (p, u', m')"
proof (induction k arbitrary: u m)
  case (Suc k)
  show ?case
  proof (cases "WORK_UNITS_BEFORE_YIELD \<le> u")
    case False
    obtain st u1 m1 where it: "ym_iter rd wr sl fuel u m = (st, u1, m1)" by (metis prod_cases3)
    have "u < WORK_UNITS_BEFORE_YIELD" using False by simp
    note step = ym_iter_step [OF Suc.prems(1, 2) this it]
    show ?thesis
    proof (cases st)
      case MsContinue
      have "\<exists>p u' m'. ym_next_inner rd wr sl fuel k u1 m1 = Done (p, u', m')"
        using step MsContinue Suc.prems ym_inv_iter [OF Suc.prems(1) it] by (intro Suc.IH) auto
      with False it MsContinue show ?thesis by simp
    qed (use False it step in auto)
  qed simp
qed simp

end

section \<open>What a send puts on the queue\<close>

definition ends_in_data :: "StreamState \<Rightarrow> bool" where
  "ends_in_data st \<longleftrightarrow> outbound_buf st \<noteq> [] \<and> (\<exists>d. last (outbound_buf st) = MData d)"

definition queued :: "YamuxStreamId \<Rightarrow> bytes \<Rightarrow> ('r, 'w) YamuxSession \<Rightarrow> ('r, 'w) YamuxSession \<Rightarrow> bool" where
  "queued i bs s s' \<longleftrightarrow>
     (\<exists>st st'. get_stream (ys_shared s) i = Some st \<and> get_stream (ys_shared s') i = Some st' \<and>
        queue_events i st' = queue_events i st @ map EvByte bs \<and>
        send_window st' = send_window st \<and>
        sum_list (map data_size (outbound_buf st')) = sum_list (map data_size (outbound_buf st)) + length bs \<and>
        (MReset \<in> set (outbound_buf st') \<longrightarrow> MReset \<in> set (outbound_buf st)) \<and>
        (MData [] \<notin> set (outbound_buf st) \<longrightarrow> bs \<noteq> [] \<or> ends_in_data st \<longrightarrow>
           MData [] \<notin> set (outbound_buf st') \<and> ends_in_data st'))"

lemma queued_trans:
  "queued i xs s s' \<Longrightarrow> queued i ys s' s'' \<Longrightarrow> xs \<noteq> [] \<Longrightarrow> queued i (xs @ ys) s s''"
  unfolding queued_def by fastforce

lemma queued_session_send:
  assumes "session_send_data i c s = (Inr u, s')"
  shows "queued i c s s'"
proof -
  obtain st where st: "get_stream (ys_shared s) i = Some st"
    using assms by (auto simp: session_send_data_def yamux_send_data_def split: option.splits)
  define q where "q = outbound_buf st"
  show ?thesis
  proof (cases "\<exists>q0 d. q = q0 @ [MData d]")
    case True
    then obtain q0 d where q0: "q = q0 @ [MData d]" by blast
    have "get_stream (ys_shared s') i = Some (st\<lparr>outbound_buf := q0 @ [MData (d @ c)]\<rparr>)"
      using assms st q0
      by (auto simp: session_send_data_def yamux_send_data_def on_shared_def Let_def q_def [symmetric])
    with st q0 show ?thesis
      by (auto simp: queued_def queue_events_def ends_in_data_def q_def [symmetric])
  next
    case False
    then have "get_stream (ys_shared s') i = Some (push_msg (MData c) st)"
      using assms st
      by (cases q rule: rev_cases)
         (auto simp: session_send_data_def yamux_send_data_def on_shared_def Let_def q_def [symmetric]
           split: BufferedOutboundMessage.splits)
    moreover have "\<not> ends_in_data st"
      using False by (metis append_butlast_last_id ends_in_data_def q_def)
    ultimately show ?thesis
      using st by (auto simp: queued_def queue_events_def push_msg_def)
         (auto simp: ends_in_data_def)
  qed
qed

lemma queued_send_all:
  "send_all i cs s = (Inr u, s') \<Longrightarrow> cs \<noteq> [] \<Longrightarrow> hd cs \<noteq> [] \<Longrightarrow> queued i (concat cs) s s'"
proof (induction cs arbitrary: s u s' rule: rev_induct)
  case (snoc c cs)
  have app: "send_all i (xs @ [c]) t = (Inr u, s') \<Longrightarrow>
      \<exists>t' v. send_all i xs t = (Inr v, t') \<and> session_send_data i c t' = (Inr u, s')" for xs t
  proof (induction xs arbitrary: t)
    case Nil
    then show ?case by (auto split: prod.splits sum.splits)
  next
    case (Cons x xs)
    obtain r1 t1 where "session_send_data i x t = (r1, t1)" by fastforce
    with Cons show ?case by (cases r1) auto
  qed
  obtain t' v where t': "send_all i cs s = (Inr v, t')" and last: "session_send_data i c t' = (Inr u, s')"
    using app [OF snoc.prems(1)] by blast
  show ?case
  proof (cases "cs = []")
    case True
    with t' last queued_session_send show ?thesis by fastforce
  next
    case False
    with snoc.prems have hd: "hd cs \<noteq> []" by simp
    have "queued i (concat cs) s t'" by (rule snoc.IH [OF t' False hd])
    moreover have "concat cs \<noteq> []" using False hd by (cases cs) auto
    ultimately have "queued i (concat cs @ c) s s'"
      using queued_session_send [OF last] by (blast intro: queued_trans)
    then show ?thesis by simp
  qed
qed simp

lemma queued_send_chunks:
  assumes "send_chunks i len chunks m = Some (Inr u, m')"
  shows "queued i (varint_bytes len @ concat chunks) (ym_inner m) (ym_inner m')"
proof -
  have enc: "varint_encode len (replicate 10 0) =
      Some (varint_bytes len @ drop (length (varint_bytes len)) (replicate 10 0), length (varint_bytes len))"
    using varint_bytes_length [of len] by (simp add: varint_encode_eq)
  obtain r1 s1 where all: "send_all i (varint_bytes len # chunks) (ym_inner m) = (r1, s1)" by fastforce
  have "\<exists>v. r1 = Inr v" and "m' = m\<lparr>ym_inner := s1\<rparr>"
    using assms enc all by (cases r1; simp add: send_chunks_def del: send_all.simps)+
  with queued_send_all [of i "varint_bytes len # chunks" "ym_inner m"] all show ?thesis by auto
qed

lemma queued_send_frame:
  "send_multistream_data i d m = Some (Inr u, m') \<Longrightarrow> queued i (make_frame d) (ym_inner m) (ym_inner m')"
  "send_multistream_data_with_newline i d m = Some (Inr u, m') \<Longrightarrow>
     queued i (make_frame (d @ [10])) (ym_inner m) (ym_inner m')"
proof -
  have *: "of_nat (length d) + 1 = (of_nat (length (d @ [10])) :: u64)" by simp
  show "send_multistream_data i d m = Some (Inr u, m') \<Longrightarrow> queued i (make_frame d) (ym_inner m) (ym_inner m')"
    using queued_send_chunks [of i "of_nat (length d)" "[d]" m u m']
    by (simp add: send_multistream_data_def make_frame_def)
  show "send_multistream_data_with_newline i d m = Some (Inr u, m') \<Longrightarrow>
     queued i (make_frame (d @ [10])) (ym_inner m) (ym_inner m')"
    unfolding send_multistream_data_with_newline_def * using
      queued_send_chunks [of i "of_nat (length (d @ [10]))" "[d, [10]]" m u m']
    by (simp add: make_frame_def)
qed

lemma iters_equal_eq [simp]: "iters_equal xs ys \<longleftrightarrow> xs = ys"
  by (induction xs ys rule: iters_equal.induct) auto

lemma bytes_equal_iter_eq [simp]: "bytes_equal_iter xs ys \<longleftrightarrow> xs = ys"
  by (auto simp: bytes_equal_iter_def)

lemma drain_message:
  assumes "ym_get m i = Some e" and "fb_rep (ms_buffer e) (make_frame msg @ rest)" and "length msg < 2 ^ 64"
  obtains b where "fb_rep b rest"
    "ym_drain i u m = (case ym_message i (e\<lparr>ms_buffer := b\<rparr>) msg
        ((ym_set i (e\<lparr>ms_buffer := b\<rparr>) m)\<lparr>read_from_stream_buffer := Some i\<rparr>) of
        (st, m') \<Rightarrow> (st, u + 1, m'))"
proof -
  obtain b where "fb_next (ms_buffer e) = (Some (Inr msg), b)" and rep: "fb_rep b rest"
    using fb.next_frame [OF assms(2) parse_make_frame [OF assms(3)]] by blast
  with assms(1) that [OF rep] show ?thesis by (simp add: ym_drain_def Let_def)
qed

section \<open>Properties\<close>





text \<open>
  A successful send queues exactly one multistream frame: the varint length of the message
  followed by the message, after everything queued before, and nothing is taken from the window.
\<close>

theorem multistream_send_is_frame:
  assumes "ym_send_data i data m = Some (Inr u, m')"
  shows "\<exists>st st'. get_stream (ys_shared (ym_inner m)) i = Some st \<and>
    get_stream (ys_shared (ym_inner m')) i = Some st' \<and>
    queue_events i st' = queue_events i st @ map EvByte (make_frame data) \<and>
    send_window st' = send_window st"
proof -
  have "send_multistream_data i data m = Some (Inr u, m')"
    using assms by (auto simp: ym_send_data_def split: option.splits if_splits)
  from queued_send_frame(1) [OF this] show ?thesis unfolding queued_def by blast
qed

theorem multistream_send_is_frame_witness:
  "\<exists>(m :: (MockStream, MockStream) YamuxMultistream) m' st'.
     ym_send_data 1 [104, 105] m = Some (Inr (), m') \<and>
     get_stream (ys_shared (ym_inner m')) 1 = Some st' \<and>
     queue_events 1 st' = [EvByte 2, EvByte 104, EvByte 105]"
proof -
  define s :: "(MockStream, MockStream) YamuxSession"
    where "s = on_shared (set_stream 1 StreamState_new) (yamux_new mock_new mock_new)"
  define m where "m = ym_set 1 (ms_new_incoming\<lparr>ms_state := MsOpen\<rparr>) (ym_new s)"
  have "varint_bytes 2 = [2]" by (simp add: varint_bytes.simps)
  then have "\<exists>m'. ym_send_data 1 [104, 105] m = Some (Inr (), m')"
    by (simp add: ym_send_data_def m_def send_multistream_data_def send_chunks_def varint_encode_eq
        ym_new_def s_def session_send_data_def yamux_send_data_def on_shared_def push_msg_def
        StreamState_new_def Let_def)
  then obtain m' where ok: "ym_send_data 1 [104, 105] m = Some (Inr (), m')" ..
  have st: "get_stream (ys_shared (ym_inner m)) 1 = Some StreamState_new"
    by (simp add: m_def s_def ym_new_def on_shared_def)
  have "make_frame [104, 105] = [2, 104, 105]" by (simp add: make_frame_def varint_bytes.simps)
  moreover have "queue_events 1 StreamState_new = []"
    by (simp add: queue_events_def StreamState_new_def)
  ultimately have "\<exists>st'. get_stream (ys_shared (ym_inner m')) 1 = Some st' \<and>
      queue_events 1 st' = [EvByte 2, EvByte 104, EvByte 105]"
    using multistream_send_is_frame [OF ok] st by auto
  with ok show ?thesis by blast
qed



text \<open>
  Closing a stream while its negotiation is still running makes the remote's negotiation
  messages application data: the multistream header that answers our proposal is handed out as
  \<open>Data\<close>.
\<close>

theorem negotiation_leaks_as_data:
  assumes e: "ym_get m i = Some e" and st: "ms_state e = OutgoingProtocolWaitingForAccept False p rest"
    and input: "fb_rep (ms_buffer e) (make_frame MULTISTREAM_PROTOCOL_NAME_WITH_NEWLINE @ more_bytes)"
  shows "\<exists>m'. ym_drain i u (ym_close_stream i m) =
    (MsReturn (Inr (Some (ms_out i (MsData MULTISTREAM_PROTOCOL_NAME_WITH_NEWLINE)))), u + 1, m')"
proof -
  have hl: "length MULTISTREAM_PROTOCOL_NAME_WITH_NEWLINE < 2 ^ 64"
    by (simp add: MULTISTREAM_PROTOCOL_NAME_WITH_NEWLINE_def)
  let ?e = "e\<lparr>ms_state := MsClosedByUs\<rparr>"
  have g: "ym_get (ym_close_stream i m) i = Some ?e" using e by (simp add: ym_close_stream_def)
  have i: "fb_rep (ms_buffer ?e) (make_frame MULTISTREAM_PROTOCOL_NAME_WITH_NEWLINE @ more_bytes)"
    using input by simp
  show ?thesis by (rule drain_message [OF g i hl, of u]) (simp add: ym_message_def)
qed

theorem negotiation_leaks_as_data_witness:
  "\<exists>m :: (MockStream, MockStream) YamuxMultistream. \<exists>m'.
     ym_drain 1 0 (ym_close_stream 1 m) =
       (MsReturn (Inr (Some (ms_out 1 (MsData MULTISTREAM_PROTOCOL_NAME_WITH_NEWLINE)))), 0 + 1, m')"
proof -
  let ?in = "make_frame MULTISTREAM_PROTOCOL_NAME_WITH_NEWLINE @ []"
  let ?e = "\<lparr>ms_buffer = fb_feed fb_new ?in,
             ms_state = OutgoingProtocolWaitingForAccept False [47, 112] [], max_buffer_size = 99\<rparr>"
  let ?m = "ym_set 1 ?e (ym_new (yamux_new mock_new mock_new))"
  have rep: "fb_rep (ms_buffer ?e) ?in" using fb.rep_feed [OF fb.rep_new, of ?in] by simp
  show ?thesis
    by (rule exI [of _ ?m], rule negotiation_leaks_as_data [where e = ?e])
       (use rep in \<open>simp_all only: ym_get_simps if_True Multistream.select_convs simp_thms\<close>)
qed

end
