(* ===== verification/EndToEnd.thy ===== *)
theory EndToEnd
  imports YamuxMultistream
begin

text \<open>
  What the layers do together: messages sent on an open multistream reach the reassembly buffer
  of the other side, through the framing of \<open>yamux_multistream\<close>, the write future of the yamux
  session, the wire and the frame buffer.
\<close>

text \<open>Sending messages one after the other, until one is refused.\<close>

fun send_messages ::
  "YamuxStreamId \<Rightarrow> bytes list \<Rightarrow> ('r, 'w) YamuxMultistream \<Rightarrow> ('r, 'w) YamuxMultistream option" where
  "send_messages i [] m = Some m"
| "send_messages i (d # ds) m =
     (case ym_send_data i d m of
        Some (Inr _, m') \<Rightarrow> send_messages i ds m'
      | _ \<Rightarrow> None)"

text \<open>The payloads of one stream's frames, as the other side receives them.\<close>

definition stream_chunks :: "YamuxStreamId \<Rightarrow> frame list \<Rightarrow> bytes list" where
  "stream_chunks i fs = map snd (filter (\<lambda>f. hstream_id (fst f) = i) fs)"

lemma concat_stream_chunks:
  assumes "stream_events i fs = map EvByte bs"
  shows "concat (stream_chunks i fs) = bs"
proof -
  have "concat (map frame_events gs) = map EvByte bs \<Longrightarrow> concat (map snd gs) = bs" for gs bs
  proof (induction gs arbitrary: bs)
    case (Cons g gs)
    then have data: "hframe_type (fst g) = FtData"
      by (auto simp: frame_events_def split: if_splits)
    then have "frame_events g = map EvByte (snd g)" by (simp add: frame_events_def)
    with Cons.prems obtain bs1 bs2 where bs: "bs = bs1 @ bs2" "map EvByte (snd g) = map EvByte bs1"
      "concat (map frame_events gs) = map EvByte bs2"
      by (auto simp: append_eq_map_conv)
    have "snd g = bs1" using bs(2) by (metis list.inj_map_strong wire_event.inject(1))
    with Cons.IH [OF bs(3)] bs(1) show ?case by simp
  qed simp
  with assms show ?thesis by (simp add: stream_events_def stream_chunks_def)
qed

lemma send_messages_queued:
  assumes "send_messages i ds m = Some m'" and "ds \<noteq> []"
  shows "queued i (concat (map make_frame ds)) (ym_inner m) (ym_inner m')"
  using assms
proof (induction ds arbitrary: m)
  case (Cons d ds)
  then obtain u m1 where s: "ym_send_data i d m = Some (Inr u, m1)"
    and rest: "send_messages i ds m1 = Some m'"
    by (auto split: option.splits prod.splits sum.splits)
  have "send_multistream_data i d m = Some (Inr u, m1)"
    using s by (auto simp: ym_send_data_def split: option.splits if_splits)
  then have q: "queued i (make_frame d) (ym_inner m) (ym_inner m1)" by (rule queued_send_frame)
  show ?case
  proof (cases "ds = []")
    case True
    with q rest show ?thesis by simp
  next
    case False
    have "make_frame d \<noteq> []" by (simp add: make_frame_def)
    from queued_trans [OF q Cons.IH [OF rest False] this] show ?thesis by simp
  qed
qed simp

lemma ym_inv_send_messages: "ym_inv m \<Longrightarrow> send_messages i ds m = Some m' \<Longrightarrow> ym_inv m'"
proof (induction ds arbitrary: m)
  case (Cons d ds)
  then show ?case
    by (auto split: option.splits prod.splits sum.splits dest: ym_inv_send_data)
qed simp



end
