(* ===== verification/MultistreamDialer.thy ===== *)
theory MultistreamDialer
  imports Varint
begin

text \<open>
  \<open>src/layers/multistream.rs\<close>: the dialer's multistream-select negotiation on a raw stream, used
  before the noise handshake. The functions are straight-line code over awaited operations: one
  run of the future is modelled, and \<open>Pending\<close> means that it is suspended in one of them.
\<close>

section \<open>Messages\<close>

definition MULTISTREAM_HEADER :: bytes where
  "MULTISTREAM_HEADER = bytes_of ''/multistream/1.0.0''"

definition MULTISTREAM_MAX_MSG_BYTES :: u64 where
  "MULTISTREAM_MAX_MSG_BYTES = 16384"

datatype dialer_error =
    DAsyncRead async_read_error
  | DAsyncWrite async_write_error
  | DVarint varint_error
  | DMessageTooLarge u64
  | DMessageMustEndInNewline utf8_string
  | DBadMultiStreamHeader utf8_string
  | DMultistreamNotSupported
  | DUnexpectedResponse utf8_string
  | DProposedProtocolIsNotUtf8 bytes
  | DProtocolNotSupported utf8_string

definition encode_msg :: "bytes \<Rightarrow> bytes \<Rightarrow> bytes option" where
  "encode_msg payload out =
     (case varint_encode_to_vec (of_nat (length payload) + 1) out of
        None \<Rightarrow> None
      | Some out' \<Rightarrow> Some (out' @ payload @ [10]))"

definition read_msg :: "'r read_op \<Rightarrow> 'r \<Rightarrow> (dialer_error + bytes) poll \<times> 'r" where
  "read_msg rd r =
     (case varint_decode_from_stream rd r of
        (Pending, _, r') \<Rightarrow> (Pending, r')
      | (Ready (Inl e), _, r') \<Rightarrow> (Ready (Inl (DVarint e)), r')
      | (Ready (Inr len), _, r') \<Rightarrow>
          (if MULTISTREAM_MAX_MSG_BYTES < len then (Ready (Inl (DMessageTooLarge len)), r')
           else case rd r' (unat len) of
             (Pending, r'') \<Rightarrow> (Pending, r'')
           | (Ready (Inl e), r'') \<Rightarrow> (Ready (Inl (DAsyncRead e)), r'')
           | (Ready (Inr buf), r'') \<Rightarrow>
               (if buf = [] \<or> last buf \<noteq> 10
                then (Ready (Inl (DMessageMustEndInNewline (utf8_lossy (butlast buf)))), r'')
                else (Ready (Inr (butlast buf)), r''))))"

text \<open>\<open>None\<close>: a panic while encoding the proposal.\<close>

definition negotiate_dialer ::
  "'r read_op \<Rightarrow> 'w write_op \<Rightarrow> utf8_string \<Rightarrow> 'r \<Rightarrow> 'w
     \<Rightarrow> ((dialer_error + unit) poll \<times> 'r \<times> 'w) option" where
  "negotiate_dialer rd wr protocol r w =
     (case Option.bind (encode_msg MULTISTREAM_HEADER []) (encode_msg protocol) of
        None \<Rightarrow> None
      | Some msgs \<Rightarrow> Some
          (case wr w msgs of
             (Pending, w') \<Rightarrow> (Pending, r, w')
           | (Ready (Inl e), w') \<Rightarrow> (Ready (Inl (DAsyncWrite e)), r, w')
           | (Ready (Inr _), w') \<Rightarrow>
               (case read_msg rd r of
                  (Pending, r1) \<Rightarrow> (Pending, r1, w')
                | (Ready (Inl e), r1) \<Rightarrow> (Ready (Inl e), r1, w')
                | (Ready (Inr resp), r1) \<Rightarrow>
                    (if resp \<noteq> MULTISTREAM_HEADER
                     then (Ready (Inl (DBadMultiStreamHeader (utf8_lossy resp))), r1, w')
                     else case read_msg rd r1 of
                       (Pending, r2) \<Rightarrow> (Pending, r2, w')
                     | (Ready (Inl e), r2) \<Rightarrow> (Ready (Inl e), r2, w')
                     | (Ready (Inr resp), r2) \<Rightarrow>
                         (if resp = bytes_of ''na''
                          then (Ready (Inl DMultistreamNotSupported), r2, w')
                          else if resp \<noteq> protocol
                          then (Ready (Inl (DUnexpectedResponse (utf8_lossy resp))), r2, w')
                          else (Ready (Inr ()), r2, w'))))))"

section \<open>Correctness\<close>

definition dialer_msg :: "bytes \<Rightarrow> bytes" where
  "dialer_msg p = varint_bytes (of_nat (length p) + 1) @ p @ [10]"

lemma encode_msg_eq: "encode_msg p out = Some (out @ dialer_msg p)"
  by (simp add: encode_msg_def varint_encode_to_vec_eq dialer_msg_def)

context byte_source
begin

lemma read_msg_ready:
  assumes "avail r = dialer_msg p @ rest" and "length p < 16384"
  obtains r' where "read_msg rd r = (Ready (Inr p), r')" "avail r' = rest"
proof -
  let ?n = "of_nat (length p) + 1 :: u64"
  have n: "?n = of_nat (Suc (length p))" by simp
  have un: "unat ?n = Suc (length p)" unfolding n using assms(2) by (intro unat_of_nat_u64) simp
  then have le: "\<not> MULTISTREAM_MAX_MSG_BYTES < ?n"
    using assms(2) by (simp add: MULTISTREAM_MAX_MSG_BYTES_def word_less_nat_alt)
  have "varint_decode (avail r) = (Inr ?n, p @ [10] @ rest)"
    using assms(1) varint_decode_bytes [of ?n "p @ [10] @ rest"] by (simp add: dialer_msg_def)
  then obtain d r1 where r1: "varint_decode_from_stream rd r = (Ready (Inr ?n), d, r1)"
    "avail r1 = p @ [10] @ rest"
    unfolding varint_decode_def varint_decode_from_stream_def by (rule stream_decode_ready) simp_all
  obtain r2 where r2: "rd r1 (Suc (length p)) = (Ready (Inr (p @ [10])), r2)" "avail r2 = rest"
    using rd_exact [of r1 "p @ [10]" rest "Suc (length p)"] r1(2) by auto
  show ?thesis
    by (rule that [of r2]) (use r1 r2 un le in \<open>simp_all add: read_msg_def\<close>)
qed

lemma negotiate_accepts:
  assumes "avail r = dialer_msg MULTISTREAM_HEADER @ dialer_msg p @ rest" and "length p < 16384"
    and "p \<noteq> bytes_of ''na''" and "wr w (dialer_msg MULTISTREAM_HEADER @ dialer_msg p) = (Ready (Inr ()), w')"
  obtains r' where "negotiate_dialer rd wr p r w = Some (Ready (Inr ()), r', w')" "avail r' = rest"
proof -
  have hl: "length MULTISTREAM_HEADER < 16384" by (simp add: MULTISTREAM_HEADER_def)
  obtain r1 where r1: "read_msg rd r = (Ready (Inr MULTISTREAM_HEADER), r1)" "avail r1 = dialer_msg p @ rest"
    by (rule read_msg_ready [OF assms(1) hl])
  obtain r2 where "read_msg rd r1 = (Ready (Inr p), r2)" "avail r2 = rest"
    by (rule read_msg_ready [OF r1(2) assms(2)])
  with r1 assms(3, 4) that show ?thesis by (simp add: negotiate_dialer_def encode_msg_eq)
qed

end

section \<open>Properties\<close>

text \<open>
  (C27) Dialer negotiation. On any byte stream whose input starts with the remote's header message
  and one answer message, and a writer that accepts the write: exactly the header and our proposal
  are written, in one write, exactly the two messages are consumed, and the negotiation succeeds if
  the answer is our protocol, reports an unsupported protocol on \<open>na\<close> and an unexpected response on
  anything else.
\<close>

theorem dialer_negotiation:
  assumes src: "byte_source rd avail"
    and input: "avail r = dialer_msg MULTISTREAM_HEADER @ dialer_msg answer @ rest"
    and len: "length answer < 16384"
    and wr: "wr w (dialer_msg MULTISTREAM_HEADER @ dialer_msg protocol) = (Ready (Inr ()), w')"
  shows "\<exists>r'. negotiate_dialer rd wr protocol r w =
      Some (Ready (if answer = bytes_of ''na'' then Inl DMultistreamNotSupported
                   else if answer = protocol then Inr ()
                   else Inl (DUnexpectedResponse (utf8_lossy answer))), r', w') \<and>
    avail r' = rest"
proof -
  have hl: "length MULTISTREAM_HEADER < 16384" by (simp add: MULTISTREAM_HEADER_def)
  obtain r1 where r1: "read_msg rd r = (Ready (Inr MULTISTREAM_HEADER), r1)"
    "avail r1 = dialer_msg answer @ rest"
    by (rule byte_source.read_msg_ready [OF src input hl])
  obtain r2 where "read_msg rd r1 = (Ready (Inr answer), r2)" "avail r2 = rest"
    by (rule byte_source.read_msg_ready [OF src r1(2) len])
  with r1 wr show ?thesis by (simp add: negotiate_dialer_def encode_msg_eq)
qed

theorem dialer_negotiation_witness:
  "\<exists>r' w'. negotiate_dialer mock_read_exact mock_write_all (bytes_of ''/noise'')
      (mock_extend (dialer_msg MULTISTREAM_HEADER @ dialer_msg (bytes_of ''/noise'') @ [1]) mock_new) mock_new =
    Some (Ready (Inr ()), r', w') \<and> ms_read_buf r' = [1]"
proof -
  define p where "p = bytes_of ''/noise''"
  define r where "r = mock_extend (dialer_msg MULTISTREAM_HEADER @ dialer_msg p @ [1]) mock_new"
  have input: "ms_read_buf r = dialer_msg MULTISTREAM_HEADER @ dialer_msg p @ [1]"
    by (simp add: r_def mock_new_def)
  obtain w' where wr: "mock_write_all mock_new (dialer_msg MULTISTREAM_HEADER @ dialer_msg p) =
    (Ready (Inr ()), w')"
    by (simp add: mock_write_all_def)
  have "length p \<noteq> length (bytes_of ''na'')" "length p < 16384" by (simp_all add: p_def)
  then have ne: "p \<noteq> bytes_of ''na''" and len: "length p < 16384" by auto
  from dialer_negotiation [OF mock.byte_source_axioms input len, of mock_write_all mock_new p w'] wr ne
  show ?thesis unfolding p_def [symmetric] r_def [symmetric] by auto
qed

end
