(* ===== verification/Protobuf.thy ===== *)
theory Protobuf
  imports Varint
begin

text \<open>
  \<open>src/utils/protobuf.rs\<close>: a minimal protobuf codec. The \<open>Encoder\<close> writes into a borrowed
  slice; it is modelled by the whole slice and the position at which the remaining sub-slice
  \<open>out\<close> starts, and an out-of-range write is a panic (\<open>None\<close>). The decoder drives a
  \<open>Visitor\<close>, modelled by a record of its four callbacks over a visitor state \<open>'v\<close>.
\<close>

definition I64_LEN :: nat where "I64_LEN = 8"
definition I32_LEN :: nat where "I32_LEN = 4"

datatype WireType = WVarint | WI64 | WData | WDeprecatedGroups u8 | WI32 | WUnknown u8

definition WireType_from_u8 :: "u8 \<Rightarrow> WireType" where
  "WireType_from_u8 value =
     (if value = 0 then WVarint
      else if value = 1 then WI64
      else if value = 2 then WData
      else if value = 3 \<or> value = 4 then WDeprecatedGroups value
      else if value = 5 then WI32
      else WUnknown value)"

fun WireType_to_u8 :: "WireType \<Rightarrow> u8" where
  "WireType_to_u8 WVarint = 0"
| "WireType_to_u8 WI64 = 1"
| "WireType_to_u8 WData = 2"
| "WireType_to_u8 (WDeprecatedGroups n) = n"
| "WireType_to_u8 WI32 = 5"
| "WireType_to_u8 (WUnknown n) = n"

section \<open>Encoder\<close>

record Encoder =
  ebuf :: bytes
  epos :: nat
  start_len :: nat

definition enc_out :: "Encoder \<Rightarrow> bytes" where
  "enc_out e = drop (epos e) (ebuf e)"

definition protobuf_encode :: "bytes \<Rightarrow> Encoder" where
  "protobuf_encode out = \<lparr>ebuf = out, epos = 0, start_len = length out\<rparr>"

definition encode_varint_value :: "Encoder \<Rightarrow> u64 \<Rightarrow> Encoder option" where
  "encode_varint_value e val =
     (case varint_encode val (enc_out e) of
        None \<Rightarrow> None
      | Some (out', n) \<Rightarrow>
          Some (e\<lparr>ebuf := take (epos e) (ebuf e) @ out', epos := epos e + n\<rparr>))"

definition encode_field_id_and_wire_type :: "Encoder \<Rightarrow> u64 \<Rightarrow> WireType \<Rightarrow> Encoder option" where
  "encode_field_id_and_wire_type e field_id wire_type =
     (let tag_value = push_bit 3 field_id OR ucast (WireType_to_u8 wire_type)
      in encode_varint_value e tag_value)"

text \<open>\<open>self.out[..n].copy_from_slice(data); self.out = &mut self.out[n..]\<close> with \<open>n = data.len()\<close>.\<close>

definition enc_copy :: "Encoder \<Rightarrow> bytes \<Rightarrow> Encoder option" where
  "enc_copy e data =
     (if length data \<le> length (enc_out e)
      then Some (e\<lparr>ebuf := take (epos e) (ebuf e) @ data @ drop (length data) (enc_out e),
                   epos := epos e + length data\<rparr>)
      else None)"

definition encode_varint :: "Encoder \<Rightarrow> u64 \<Rightarrow> u64 \<Rightarrow> Encoder option" where
  "encode_varint e field_id value =
     Option.bind (encode_field_id_and_wire_type e field_id WVarint)
       (\<lambda>e. encode_varint_value e value)"

definition encode_i64 :: "Encoder \<Rightarrow> u64 \<Rightarrow> bytes \<Rightarrow> Encoder option" where
  "encode_i64 e field_id value =
     Option.bind (encode_field_id_and_wire_type e field_id WI64) (\<lambda>e. enc_copy e value)"

definition encode_i32 :: "Encoder \<Rightarrow> u64 \<Rightarrow> bytes \<Rightarrow> Encoder option" where
  "encode_i32 e field_id value =
     Option.bind (encode_field_id_and_wire_type e field_id WI32) (\<lambda>e. enc_copy e value)"

definition encode_data :: "Encoder \<Rightarrow> u64 \<Rightarrow> bytes \<Rightarrow> Encoder option" where
  "encode_data e field_id data =
     Option.bind (encode_field_id_and_wire_type e field_id WData)
       (\<lambda>e. Option.bind (encode_varint_value e (of_nat (length data)))
         (\<lambda>e. enc_copy e data))"

definition num_encoded :: "Encoder \<Rightarrow> nat" where
  "num_encoded e = start_len e - length (enc_out e)"

section \<open>Decoder\<close>

record 'v Visitor =
  visit_varint :: "u64 \<Rightarrow> u64 \<Rightarrow> 'v \<Rightarrow> 'v"
  visit_i64 :: "u64 \<Rightarrow> bytes \<Rightarrow> 'v \<Rightarrow> 'v"
  visit_i32 :: "u64 \<Rightarrow> bytes \<Rightarrow> 'v \<Rightarrow> 'v"
  visit_data :: "u64 \<Rightarrow> bytes \<Rightarrow> 'v \<Rightarrow> 'v"

text \<open>The trait's default methods ignore the field.\<close>

definition default_visitor :: "'v Visitor" where
  "default_visitor = \<lparr>visit_varint = (\<lambda>_ _ v. v), visit_i64 = (\<lambda>_ _ v. v),
     visit_i32 = (\<lambda>_ _ v. v), visit_data = (\<lambda>_ _ v. v)\<rparr>"

datatype protobuf_error =
    PVarint varint_error
  | PUnexpectedEndOfInput nat nat
  | PInvalidWireType u8

function protobuf_decode ::
  "'v Visitor \<Rightarrow> bytes \<Rightarrow> 'v \<Rightarrow> (protobuf_error + unit) \<times> bytes \<times> 'v" where
  "protobuf_decode vis cursor v =
     (if cursor = [] then (Inr (), [], v)
      else case varint_decode cursor of
        (Inl e, c) \<Rightarrow> (Inl (PVarint e), c, v)
      | (Inr tag_val, c) \<Rightarrow>
          (let field_number = drop_bit 3 tag_val
           in case WireType_from_u8 (ucast (tag_val AND 7)) of
                WVarint \<Rightarrow>
                  (case varint_decode c of
                     (Inl e, c') \<Rightarrow> (Inl (PVarint e), c', v)
                   | (Inr val, c') \<Rightarrow>
                       protobuf_decode vis c' (visit_varint vis field_number val v))
              | WI64 \<Rightarrow>
                  (if length c < I64_LEN
                   then (Inl (PUnexpectedEndOfInput I64_LEN (length c)), c, v)
                   else protobuf_decode vis (drop I64_LEN c)
                          (visit_i64 vis field_number (take I64_LEN c) v))
              | WData \<Rightarrow>
                  (case varint_decode c of
                     (Inl e, c') \<Rightarrow> (Inl (PVarint e), c', v)
                   | (Inr len, c') \<Rightarrow>
                       (let val = unat len
                        in if length c' < val
                           then (Inl (PUnexpectedEndOfInput val (length c')), c', v)
                           else protobuf_decode vis (drop val c')
                                  (visit_data vis field_number (take val c') v)))
              | WDeprecatedGroups _ \<Rightarrow> protobuf_decode vis c v
              | WI32 \<Rightarrow>
                  (if length c < I32_LEN
                   then (Inl (PUnexpectedEndOfInput I32_LEN (length c)), c, v)
                   else protobuf_decode vis (drop I32_LEN c)
                          (visit_i32 vis field_number (take I32_LEN c) v))
              | WUnknown n \<Rightarrow> (Inl (PInvalidWireType n), c, v)))"
  by pat_completeness auto
termination
  by (relation "measure (\<lambda>(vis, cursor, v). length cursor)")
     (auto dest!: varint_decode_length [OF sym] simp: I64_LEN_def I32_LEN_def)

declare protobuf_decode.simps [simp del]

section \<open>Fields\<close>

text \<open>The fields a message consists of, and the visitor that collects them.\<close>

datatype FieldValue = FVarint u64 | FI64 bytes | FI32 bytes | FData bytes

type_synonym Field = "u64 \<times> FieldValue"

definition collect_visitor :: "Field list Visitor" where
  "collect_visitor = \<lparr>
     visit_varint = (\<lambda>i n fs. fs @ [(i, FVarint n)]),
     visit_i64 = (\<lambda>i n fs. fs @ [(i, FI64 n)]),
     visit_i32 = (\<lambda>i n fs. fs @ [(i, FI32 n)]),
     visit_data = (\<lambda>i bs fs. fs @ [(i, FData bs)])\<rparr>"

fun encode_field :: "Encoder \<Rightarrow> Field \<Rightarrow> Encoder option" where
  "encode_field e (i, FVarint n) = encode_varint e i n"
| "encode_field e (i, FI64 bs) = encode_i64 e i bs"
| "encode_field e (i, FI32 bs) = encode_i32 e i bs"
| "encode_field e (i, FData bs) = encode_data e i bs"

fun encode_fields :: "Encoder \<Rightarrow> Field list \<Rightarrow> Encoder option" where
  "encode_fields e [] = Some e"
| "encode_fields e (f # fs) = Option.bind (encode_field e f) (\<lambda>e. encode_fields e fs)"

fun visit_field :: "'v Visitor \<Rightarrow> Field \<Rightarrow> 'v \<Rightarrow> 'v" where
  "visit_field vis (i, FVarint n) v = visit_varint vis i n v"
| "visit_field vis (i, FI64 bs) v = visit_i64 vis i bs v"
| "visit_field vis (i, FI32 bs) v = visit_i32 vis i bs v"
| "visit_field vis (i, FData bs) v = visit_data vis i bs v"

text \<open>The wire bytes of a field, and the fields the format can carry: a field number of at
  most 61 bits (the tag shifts it by three) and payloads of the lengths the types fix.\<close>

definition tag_of :: "u64 \<Rightarrow> WireType \<Rightarrow> u64" where
  "tag_of i t = push_bit 3 i OR ucast (WireType_to_u8 t)"

fun field_bytes :: "Field \<Rightarrow> bytes" where
  "field_bytes (i, FVarint n) = varint_bytes (tag_of i WVarint) @ varint_bytes n"
| "field_bytes (i, FI64 bs) = varint_bytes (tag_of i WI64) @ bs"
| "field_bytes (i, FI32 bs) = varint_bytes (tag_of i WI32) @ bs"
| "field_bytes (i, FData bs) =
     varint_bytes (tag_of i WData) @ varint_bytes (of_nat (length bs)) @ bs"

fun field_ok :: "Field \<Rightarrow> bool" where
  "field_ok (i, FVarint n) \<longleftrightarrow> unat i < 2 ^ 61"
| "field_ok (i, FI64 bs) \<longleftrightarrow> unat i < 2 ^ 61 \<and> length bs = 8"
| "field_ok (i, FI32 bs) \<longleftrightarrow> unat i < 2 ^ 61 \<and> length bs = 4"
| "field_ok (i, FData bs) \<longleftrightarrow> unat i < 2 ^ 61 \<and> length bs < 2 ^ 64"

definition fields_bytes :: "Field list \<Rightarrow> bytes" where
  "fields_bytes fs = concat (map field_bytes fs)"

lemma fields_bytes_simps [simp]:
  "fields_bytes [] = []" "fields_bytes (f # fs) = field_bytes f @ fields_bytes fs"
  by (simp_all add: fields_bytes_def)

section \<open>Encoder correctness\<close>

text \<open>An encoder whose position is within its slice.\<close>

definition enc_ok :: "Encoder \<Rightarrow> bool" where
  "enc_ok e \<longleftrightarrow> epos e \<le> length (ebuf e) \<and> start_len e = length (ebuf e)"

text \<open>The encoder after writing \<open>bs\<close> at the cursor.\<close>

definition enc_write :: "Encoder \<Rightarrow> bytes \<Rightarrow> Encoder" where
  "enc_write e bs = e\<lparr>ebuf := take (epos e) (ebuf e) @ bs @ drop (epos e + length bs) (ebuf e),
                      epos := epos e + length bs\<rparr>"

definition enc_room :: "Encoder \<Rightarrow> nat" where
  "enc_room e = length (ebuf e) - epos e"

lemma length_enc_out: "length (enc_out e) = enc_room e"
  by (simp add: enc_out_def enc_room_def)

lemma enc_write_ok [simp]:
  assumes "enc_ok e" and "length bs \<le> enc_room e"
  shows "enc_ok (enc_write e bs)" "enc_room (enc_write e bs) = enc_room e - length bs"
  using assms by (auto simp: enc_ok_def enc_write_def enc_room_def)

lemma enc_write_append:
  assumes "enc_ok e" and "length (bs @ cs) \<le> enc_room e"
  shows "enc_write (enc_write e bs) cs = enc_write e (bs @ cs)"
  using assms by (auto simp: enc_write_def enc_ok_def enc_room_def min_def add.commute
      add.left_commute drop_Cons')

lemma encode_varint_value_eq:
  "encode_varint_value e v =
     (if length (varint_bytes v) \<le> enc_room e then Some (enc_write e (varint_bytes v)) else None)"
  by (simp add: encode_varint_value_def varint_encode_eq enc_room_def enc_write_def enc_out_def
      add.commute)

lemma enc_copy_eq:
  "enc_copy e bs = (if length bs \<le> enc_room e then Some (enc_write e bs) else None)"
  by (simp add: enc_copy_def enc_room_def enc_write_def enc_out_def add.commute)

lemma encode_tag_eq:
  "encode_field_id_and_wire_type e i t =
     (if length (varint_bytes (tag_of i t)) \<le> enc_room e
      then Some (enc_write e (varint_bytes (tag_of i t))) else None)"
  by (simp add: encode_field_id_and_wire_type_def tag_of_def encode_varint_value_eq)

lemmas encode_step_eqs =
  encode_varint_def encode_i64_def encode_i32_def encode_data_def encode_tag_eq
  encode_varint_value_eq enc_copy_eq

lemma encode_field_eq:
  assumes "enc_ok e"
  shows "encode_field e f =
     (if length (field_bytes f) \<le> enc_room e then Some (enc_write e (field_bytes f)) else None)"
  by (cases "(e, f)" rule: encode_field.cases)
     (use assms in \<open>auto simp: encode_step_eqs enc_write_append\<close>)

lemma encode_fields_eq:
  "enc_ok e \<Longrightarrow> encode_fields e fs =
     (if length (fields_bytes fs) \<le> enc_room e then Some (enc_write e (fields_bytes fs)) else None)"
proof (induction fs arbitrary: e)
  case Nil
  then show ?case by (simp add: enc_write_def)
next
  case (Cons f fs)
  show ?case
  proof (cases "length (field_bytes f) \<le> enc_room e")
    case True
    with Cons show ?thesis by (auto simp: encode_field_eq enc_write_append)
  next
    case False
    with Cons.prems show ?thesis by (simp add: encode_field_eq)
  qed
qed

lemma num_encoded_write:
  "length bs \<le> length out \<Longrightarrow> num_encoded (enc_write (protobuf_encode out) bs) = length bs"
  by (simp add: num_encoded_def enc_out_def enc_write_def protobuf_encode_def)

lemma enc_ok_new [simp]: "enc_ok (protobuf_encode out)" "enc_room (protobuf_encode out) = length out"
  by (simp_all add: enc_ok_def protobuf_encode_def enc_room_def)

section \<open>Decoder correctness\<close>

lemma bit_7_int [simp]: "bit (7 :: int) n \<longleftrightarrow> n < 3"
proof -
  have "(7 :: int) = mask 3" by (simp add: mask_eq_exp_minus_1)
  then show ?thesis by (simp only: bit_mask_iff) simp
qed

lemma bit_u64_high: "unat (i :: u64) < 2 ^ k \<Longrightarrow> k \<le> n \<Longrightarrow> \<not> bit i n"
proof
  assume "unat i < 2 ^ k" "k \<le> n" and b: "bit i n"
  have "bit (take_bit k (unat i)) n"
    using b \<open>unat i < 2 ^ k\<close> by (simp add: take_bit_nat_eq_self bit_unsigned_iff)
  with \<open>k \<le> n\<close> show False by (simp add: bit_take_bit_iff)
qed

lemma drop_bit_tag:
  assumes "unat i < 2 ^ 61" and "(w :: u64) AND 7 = w"
  shows "drop_bit 3 (push_bit 3 i OR w) = i"
proof (rule bit_eqI)
  fix n
  have "\<not> bit w (3 + n)" by (subst assms(2) [symmetric]) (simp add: bit_simps)
  moreover have "bit i n \<Longrightarrow> n < 61"
    using bit_u64_high [OF assms(1), of n] not_le by blast
  ultimately show "bit (drop_bit 3 (push_bit 3 i OR w)) n = bit i n"
    by (auto simp: bit_simps)
qed

lemma and_tag:
  assumes "(w :: u64) AND 7 = w"
  shows "(push_bit 3 i OR w) AND 7 = w"
proof (rule bit_eqI)
  fix n
  have "bit w n \<Longrightarrow> n < 3" by (subst (asm) assms [symmetric]) (simp add: bit_simps)
  then show "bit ((push_bit 3 i OR w) AND 7) n = bit w n" by (auto simp: bit_simps)
qed

lemma tag_fields [wire_simps]:
  assumes "unat i < 2 ^ 61" and "t \<in> {WVarint, WI64, WData, WI32}"
  shows "drop_bit 3 (tag_of i t) = i"
    and "WireType_from_u8 (ucast (tag_of i t AND 7)) = t"
proof -
  have low: "(ucast (WireType_to_u8 t) :: u64) AND 7 = ucast (WireType_to_u8 t)"
    using assms(2) by auto
  show "drop_bit 3 (tag_of i t) = i"
    unfolding tag_of_def by (rule drop_bit_tag [OF assms(1) low])
  show "WireType_from_u8 (ucast (tag_of i t AND 7)) = t"
    unfolding tag_of_def and_tag [OF low] using assms(2)
    by (auto simp: WireType_from_u8_def)
qed

lemma varint_bytes_append_not_Nil [simp]: "varint_bytes v @ xs \<noteq> []"
  by simp

lemma protobuf_decode_field:
  assumes "field_ok f"
  shows "protobuf_decode vis (field_bytes f @ rest) v
       = protobuf_decode vis rest (visit_field vis f v)"
proof -
  obtain i x where f: "f = (i, x)" by (cases f)
  show ?thesis
    by (cases x) (use f assms in \<open>subst protobuf_decode.simps,
      simp add: wire_simps unat_of_nat_u64 I64_LEN_def I32_LEN_def\<close>)+
qed

lemma protobuf_decode_fields:
  "list_all field_ok fs \<Longrightarrow>
   protobuf_decode vis (fields_bytes fs @ rest) v
     = protobuf_decode vis rest (fold (visit_field vis) fs v)"
  by (induction fs arbitrary: v) (simp_all add: protobuf_decode_field)

lemma protobuf_decode_Nil [simp]: "protobuf_decode vis [] v = (Inr (), [], v)"
  by (simp add: protobuf_decode.simps)

lemma fold_collect: "fold (visit_field collect_visitor) fs acc = acc @ fs"
proof (induction fs arbitrary: acc)
  case (Cons f fs)
  obtain i x where "f = (i, x)" by (cases f)
  with Cons show ?case by (cases x) (simp_all add: collect_visitor_def)
qed simp

text \<open>A \<open>DecoderGroups\<close> tag carries no value and is skipped; wire types 6 and 7 are rejected.\<close>

lemma protobuf_decode_bad_wire_type:
  assumes "varint_decode cursor = (Inr tag, c)" and "unat (tag AND 7) \<in> {6, 7}"
  shows "protobuf_decode vis cursor v = (Inl (PInvalidWireType (ucast (tag AND 7))), c, v)"
proof -
  have "cursor \<noteq> []" using assms(1) by (auto simp: varint_decode_def)
  moreover have "tag AND 7 = 6 \<or> tag AND 7 = 7"
    using assms(2) by (auto simp: word_unat_eq_iff)
  ultimately show ?thesis
    using assms(1) by (subst protobuf_decode.simps) (auto simp: WireType_from_u8_def)
qed

section \<open>Properties\<close>

text \<open>
  (C28) Protobuf round trip: encoding any list of well-formed fields into a slice panics exactly
  when the slice is too short; otherwise \<open>num_encoded\<close> is the number of bytes written, and
  decoding those bytes visits exactly the encoded fields, in order, and consumes everything.
\<close>

theorem protobuf_roundtrip:
  assumes "list_all field_ok fs"
  shows "case encode_fields (protobuf_encode out) fs of
           None \<Rightarrow> length out < length (fields_bytes fs)
         | Some e \<Rightarrow> num_encoded e = length (fields_bytes fs) \<and>
             protobuf_decode collect_visitor (take (num_encoded e) (ebuf e)) [] = (Inr (), [], fs)"
proof (cases "length (fields_bytes fs) \<le> length out")
  case True
  let ?e = "enc_write (protobuf_encode out) (fields_bytes fs)"
  have "take (length (fields_bytes fs)) (ebuf ?e) = fields_bytes fs"
    by (simp add: enc_write_def protobuf_encode_def)
  with True protobuf_decode_fields [OF assms, of collect_visitor "[]" "[]"] show ?thesis
    by (simp add: encode_fields_eq num_encoded_write fold_collect)
next
  case False
  then show ?thesis by (simp add: encode_fields_eq)
qed

theorem protobuf_roundtrip_witness:
  "\<exists>e. encode_fields (protobuf_encode (replicate 8 0)) [(1, FVarint 150), (2, FData [104, 105])]
        = Some e \<and>
     protobuf_decode collect_visitor (take (num_encoded e) (ebuf e)) []
        = (Inr (), [], [(1, FVarint 150), (2, FData [104, 105])])"
proof -
  let ?fs = "[(1, FVarint 150), (2, FData [104, 105])] :: Field list"
  have ok: "list_all field_ok ?fs" by simp
  have "length (fields_bytes ?fs) = 7" by code_simp
  with protobuf_roundtrip [OF ok, of "replicate 8 0"] show ?thesis
    by (auto split: option.splits)
qed

end
