(* ===== verification/PeerIds.thy ===== *)
theory PeerIds
  imports Protobuf
begin

text \<open>
  \<open>src/utils/peer_id.rs\<close>: identities and peer identifiers. The signature scheme
  (\<open>ed25519_dalek\<close>) and the base58 codec (\<open>bs58\<close>) are third-party code: they are the parameters
  of type \<open>Ed25519\<close> and \<open>Bs58\<close>. A peer identifier is the identity multihash of the protobuf
  encoding of an Ed25519 public key, 38 bytes.
\<close>

section \<open>Third-party parameters\<close>

record 'k Ed25519 =
  ed_from_bytes :: "bytes \<Rightarrow> 'k"
  ed_public :: "'k \<Rightarrow> bytes"
  ed_sign :: "'k \<Rightarrow> bytes \<Rightarrow> bytes"
  ed_verify :: "bytes \<Rightarrow> bytes \<Rightarrow> bytes \<Rightarrow> bool option"

text \<open>
  \<open>ed_verify key msg sig\<close>: \<open>None\<close> when the key bytes are not a valid verifying key. \<open>bs_onto s n\<close>
  decodes onto a buffer of \<open>n\<close> bytes: an error, or the bytes written.
\<close>

record 'e Bs58 =
  bs_encode :: "bytes \<Rightarrow> utf8_string"
  bs_onto :: "utf8_string \<Rightarrow> nat \<Rightarrow> 'e + bytes"

section \<open>Identity\<close>

record 'k Identity =
  signing_key :: 'k

definition Identity_from_random_bytes :: "'k Ed25519 \<Rightarrow> bytes \<Rightarrow> 'k Identity" where
  "Identity_from_random_bytes ed bs = \<lparr>signing_key = ed_from_bytes ed bs\<rparr>"

definition public_key_bytes :: "'k Ed25519 \<Rightarrow> 'k Identity \<Rightarrow> bytes" where
  "public_key_bytes ed i = ed_public ed (signing_key i)"

definition Identity_sign :: "'k Ed25519 \<Rightarrow> 'k Identity \<Rightarrow> bytes \<Rightarrow> bytes" where
  "Identity_sign ed i message = ed_sign ed (signing_key i) message"

definition verify_ed25519 :: "'k Ed25519 \<Rightarrow> bytes \<Rightarrow> bytes \<Rightarrow> bytes \<Rightarrow> bool" where
  "verify_ed25519 ed pubkey message signature =
     (case ed_verify ed pubkey message signature of None \<Rightarrow> False | Some b \<Rightarrow> b)"

section \<open>Peer identifiers\<close>

definition PEER_ID_LEN :: nat where "PEER_ID_LEN = 38"

record PeerId =
  multihash :: bytes

datatype 'e PeerIdFromBase58Error =
    NotEd25519
  | Base58 'e
  | WrongLength nat nat
  | CannotDecodeVarint varint_error

text \<open>\<open>None\<close>: the key does not fit the 38 byte buffer, a panic.\<close>

definition PeerId_from_ed25519_public_key :: "bytes \<Rightarrow> PeerId option" where
  "PeerId_from_ed25519_public_key key =
     (let buf = (replicate PEER_ID_LEN 0)[0 := 0] in
      case varint_encode 36 (drop 1 buf) of
        None \<Rightarrow> None
      | Some (b1, _) \<Rightarrow>
          (let buf = take 1 buf @ b1 in
           case Option.bind (encode_varint (protobuf_encode (drop 2 buf)) 1 1)
                  (\<lambda>e. encode_data e 2 key) of
             None \<Rightarrow> None
           | Some e \<Rightarrow> Some \<lparr>multihash = take 2 buf @ ebuf e\<rparr>))"

definition Identity_peer_id :: "'k Ed25519 \<Rightarrow> 'k Identity \<Rightarrow> PeerId option" where
  "Identity_peer_id ed i = PeerId_from_ed25519_public_key (public_key_bytes ed i)"

definition PeerId_from_base58 :: "'e Bs58 \<Rightarrow> utf8_string \<Rightarrow> 'e PeerIdFromBase58Error + PeerId" where
  "PeerId_from_base58 bs s =
     (case bs_onto bs s PEER_ID_LEN of
        Inl e \<Rightarrow> Inl (Base58 e)
      | Inr decoded \<Rightarrow>
          (let buf = decoded @ replicate (PEER_ID_LEN - length decoded) 0 in
           if length decoded \<noteq> PEER_ID_LEN then Inl (WrongLength PEER_ID_LEN (length decoded))
           else case varint_decode buf of
             (Inl e, _) \<Rightarrow> Inl (CannotDecodeVarint e)
           | (Inr code, cursor) \<Rightarrow>
               (if code \<noteq> 0 then Inl NotEd25519
                else case varint_decode cursor of
                  (Inl e, _) \<Rightarrow> Inl (CannotDecodeVarint e)
                | (Inr digest_len, cursor) \<Rightarrow>
                    (if length cursor \<noteq> 36 \<or> digest_len \<noteq> 36
                     then Inl (WrongLength 36 (length cursor))
                     else Inr \<lparr>multihash = buf\<rparr>))))"

definition PeerId_to_base58 :: "'e Bs58 \<Rightarrow> PeerId \<Rightarrow> utf8_string" where
  "PeerId_to_base58 bs p = bs_encode bs (multihash p)"

section \<open>Correctness\<close>

lemma key_fields: "fields_bytes [(1, FVarint 1), (2, FData key)] =
    [8, 1, 18] @ varint_bytes (of_nat (length key)) @ key"
proof -
  have "tag_of 1 WVarint = 8" "tag_of 2 WData = 18" by (simp_all add: tag_of_def)
  moreover have "varint_bytes 8 = [8]" "varint_bytes 1 = [1]" "varint_bytes 18 = [18]"
    by (simp_all add: varint_bytes.simps)
  ultimately show ?thesis by (simp add: fields_bytes_def)
qed

lemma encode_key:
  "Option.bind (encode_varint e 1 1) (\<lambda>e. encode_data e 2 key)
     = encode_fields e [(1, FVarint 1), (2, FData key)]"
  by simp

lemma varint_bytes_36: "varint_bytes 36 = [36]" and varint_bytes_32: "varint_bytes 32 = [32]"
  by (simp_all add: varint_bytes.simps)

lemma peer_id_of_key:
  assumes "length key = 32"
  shows "PeerId_from_ed25519_public_key key = Some \<lparr>multihash = [0, 36, 8, 1, 18, 32] @ key\<rparr>"
proof -
  have b1: "varint_encode 36 (drop 1 (replicate 38 0)) = Some (36 # replicate 36 0, 1)"
    by (simp add: varint_encode_eq varint_bytes_36 numeral_eq_Suc)
  have len: "length (fields_bytes [(1, FVarint 1), (2, FData key)]) = 36"
    using assms by (simp only: key_fields) (simp add: varint_bytes_32)
  have enc: "encode_fields (protobuf_encode (replicate 36 0)) [(1, FVarint 1), (2, FData key)]
      = Some (enc_write (protobuf_encode (replicate 36 0)) ([8, 1, 18, 32] @ key))"
    unfolding encode_fields_eq [OF enc_ok_new(1)] len unfolding key_fields
    using assms by (simp add: varint_bytes_32)
  have upd: "(replicate 38 0)[0 := 0] = (replicate 38 0 :: bytes)"
    by (simp add: numeral_eq_Suc)
  have tk: "take 1 (replicate 38 (0 :: u8)) = [0]" by (simp add: numeral_eq_Suc)
  show ?thesis
    unfolding PeerId_from_ed25519_public_key_def PEER_ID_LEN_def Let_def upd b1 encode_key
    using enc assms by (simp add: tk enc_write_def protobuf_encode_def)
qed

lemma varint_decode_byte:
  assumes "unat b < 128" shows "varint_decode (b # bs) = (Inr (ucast b), bs)"
proof -
  have "(ucast (ucast b :: u64) :: u8) = b" by (rule bit_eqI) (auto simp: bit_simps)
  then have "varint_bytes (ucast b) = [b]"
    using assms varint_bytes_small [of "ucast b"]
    by (simp add: unsigned_ucast_eq take_bit_nat_eq_self)
  with varint_decode_bytes [of "ucast b" bs] show ?thesis by simp
qed

lemma ucast_36: "(ucast (36 :: u64) :: u8) = 36"
  by simp

lemma varint_loop_length: "varint_decode_loop d bs = (Inr v, rest) \<Longrightarrow> length rest < length bs"
  by (induction bs arbitrary: d) (fastforce split: DecoderOutput.splits)+

lemma varint_decode_one_byte:
  assumes "varint_decode (b # bs) = (Inr v, rest)" and "length bs \<le> length rest"
  shows "unat b < 128 \<and> v = ucast b \<and> rest = bs"
proof -
  have "b AND 128 = 0"
  proof (rule ccontr)
    assume "b AND 128 \<noteq> 0"
    then obtain d where "varint_decode_loop d bs = (Inr v, rest)"
      using assms(1)
      by (auto simp: varint_decode_def Decoder_feed_def Decoder_new_def Let_def split: if_splits)
    with varint_loop_length [of d bs v rest] assms(2) show False by simp
  qed
  then have nb: "\<not> bit b 7" using bit_and_iff [of b 128 7] by (simp add: bit_simps)
  have "unat b < 2 ^ 7"
  proof (rule ccontr)
    assume "\<not> unat b < 2 ^ 7"
    moreover have "unat b < 2 ^ 8" using unsigned_less [of b, where 'a = nat] by simp
    ultimately have "odd (unat b div 2 ^ 7)" by (cases "unat b div 2 ^ 7 = 1") auto
    then have "bit (unat b) 7" by (simp add: bit_iff_odd)
    with nb show False by (simp add: bit_unsigned_iff)
  qed
  with assms(1) varint_decode_byte [of b bs] show ?thesis by simp
qed

lemma from_base58_accepts:
  assumes "bs_onto bs s PEER_ID_LEN = Inr (0 # 36 # digest)" and "length digest = 36"
  shows "PeerId_from_base58 bs s = Inr \<lparr>multihash = 0 # 36 # digest\<rparr>"
  using assms varint_decode_byte [of 0 "36 # digest"] varint_decode_byte [of 36 digest]
  by (simp add: PeerId_from_base58_def PEER_ID_LEN_def)

lemma from_base58_prefix:
  assumes "PeerId_from_base58 bs s = Inr q"
  shows "\<exists>digest. bs_onto bs s PEER_ID_LEN = Inr (0 # 36 # digest) \<and> length digest = 36 \<and>
    q = \<lparr>multihash = 0 # 36 # digest\<rparr>"
proof -
  obtain buf c1 c2 where dec: "bs_onto bs s PEER_ID_LEN = Inr buf" "length buf = 38"
    "varint_decode buf = (Inr 0, c1)" "varint_decode c1 = (Inr 36, c2)" "length c2 = 36"
    "q = \<lparr>multihash = buf\<rparr>"
    using assms
    by (auto simp: PeerId_from_base58_def PEER_ID_LEN_def Let_def
        split: sum.splits if_splits prod.splits)
  obtain b0 r0 where b0: "buf = b0 # r0" using dec(2) by (cases buf) auto
  have "length c2 < length c1" "length c1 < length buf"
    using varint_loop_length [OF dec(4) [unfolded varint_decode_def]]
      varint_loop_length [OF dec(3) [unfolded varint_decode_def]] by simp_all
  with dec(2, 5) b0 have "length r0 \<le> length c1" by simp
  from varint_decode_one_byte [OF dec(3) [unfolded b0] this]
  have v0: "unat b0 < 128" "(0 :: u64) = ucast b0" "c1 = r0" by simp_all
  obtain b1 r1 where b1: "c1 = b1 # r1" using \<open>length c2 < length c1\<close> by (cases c1) auto
  have "length r1 \<le> length c2" using dec(2, 5) b0 b1 v0(3) by simp
  from varint_decode_one_byte [OF dec(4) [unfolded b1] this]
  have v1: "unat b1 < 128" "(36 :: u64) = ucast b1" "c2 = r1" by simp_all
  have ucast2: "(ucast (ucast b :: u64) :: u8) = b" for b :: u8 by (rule bit_eqI) (auto simp: bit_simps)
  have "b0 = 0" using ucast2 [of b0] unfolding v0(2) [symmetric] by simp
  moreover have "b1 = 36" using ucast2 [of b1] unfolding v1(2) [symmetric] by simp
  ultimately have "buf = 0 # 36 # r1" "length r1 = 36" using b0 b1 v0(3) v1(3) dec(5) by simp_all
  with dec(1, 6) show ?thesis by blast
qed

section \<open>Properties\<close>

text \<open>
  (C34) Peer identifiers. The identifier of a 32 byte key is the 38 byte identity multihash of the
  protobuf-encoded key, from which the key can be read off; given a base58 codec that decodes what
  it encodes, printing and parsing gives the same identifier; and parsing accepts exactly the
  strings that decode to 38 bytes starting with the identity code and the length 36.
\<close>

theorem peer_id_roundtrip:
  assumes bs: "\<forall>b. length b = PEER_ID_LEN \<longrightarrow> bs_onto bs (bs_encode bs b) PEER_ID_LEN = Inr b"
    and key: "length key = 32"
  shows "(\<exists>p. PeerId_from_ed25519_public_key key = Some p \<and> length (multihash p) = PEER_ID_LEN \<and>
      drop 6 (multihash p) = key \<and> PeerId_from_base58 bs (PeerId_to_base58 bs p) = Inr p) \<and>
    (PeerId_from_base58 bs s = Inr q \<longleftrightarrow>
      (\<exists>digest. bs_onto bs s PEER_ID_LEN = Inr (0 # 36 # digest) \<and> length digest = 36 \<and>
                q = \<lparr>multihash = 0 # 36 # digest\<rparr>))"
proof
  show "PeerId_from_base58 bs s = Inr q \<longleftrightarrow>
      (\<exists>digest. bs_onto bs s PEER_ID_LEN = Inr (0 # 36 # digest) \<and> length digest = 36 \<and>
                q = \<lparr>multihash = 0 # 36 # digest\<rparr>)"
    by (auto simp: from_base58_accepts dest: from_base58_prefix)
  let ?h = "[0, 36, 8, 1, 18, 32] @ key"
  have len: "length ?h = PEER_ID_LEN" using key by (simp add: PEER_ID_LEN_def)
  have "bs_onto bs (PeerId_to_base58 bs \<lparr>multihash = ?h\<rparr>) PEER_ID_LEN = Inr (0 # 36 # ([8, 1, 18, 32] @ key))"
    using bs len by (simp add: PeerId_to_base58_def)
  then have "PeerId_from_base58 bs (PeerId_to_base58 bs \<lparr>multihash = ?h\<rparr>) = Inr \<lparr>multihash = ?h\<rparr>"
    using from_base58_accepts [of bs _ "[8, 1, 18, 32] @ key"] key by simp
  with peer_id_of_key [OF key] len
  show "\<exists>p. PeerId_from_ed25519_public_key key = Some p \<and> length (multihash p) = PEER_ID_LEN \<and>
      drop 6 (multihash p) = key \<and> PeerId_from_base58 bs (PeerId_to_base58 bs p) = Inr p"
    by (intro exI [of _ "\<lparr>multihash = ?h\<rparr>"]) simp
qed

definition plain_codec :: "unit Bs58" where
  "plain_codec = \<lparr>bs_encode = (\<lambda>b. b), bs_onto = (\<lambda>s n. if length s \<le> n then Inr s else Inl ())\<rparr>"

theorem peer_id_roundtrip_witness:
  "\<exists>p. PeerId_from_ed25519_public_key (replicate 32 7) = Some p \<and>
     PeerId_from_base58 plain_codec (PeerId_to_base58 plain_codec p) = Inr p"
proof -
  have law: "\<forall>b. length b = PEER_ID_LEN \<longrightarrow> bs_onto plain_codec (bs_encode plain_codec b) PEER_ID_LEN = Inr b"
    by (simp add: plain_codec_def)
  have len: "length (replicate 32 (7 :: u8)) = 32" by simp
  from peer_id_roundtrip [OF law len, of "[]" undefined] show ?thesis by blast
qed

end
