(* ===== verification/Noise.thy ===== *)
theory Noise
  imports PeerIds AsyncStream
begin

text \<open>
  \<open>src/layers/noise.rs\<close>: the noise handshake of the dialer and the encrypted transport streams.
  The noise state machine itself is the third-party crate \<open>snow\<close>: its handshake and transport
  states are type parameters, its operations the fields of the parameter of type \<open>Snow\<close> (an
  error is a number). The functions are straight-line or looping code over awaited stream
  operations: one run of the future is modelled, and \<open>Pending\<close> means that it is suspended in one
  of them. \<open>None\<close> is a panic, or fuel that ran out in the loop of \<open>read_exact\<close>.
\<close>

section \<open>Third-party parameters\<close>

type_synonym snow_error = nat

record ('h, 't) Snow =
  sn_build_initiator :: "snow_error + bytes \<times> 'h"
  sn_write_message :: "'h \<Rightarrow> bytes \<Rightarrow> snow_error + bytes \<times> 'h"
  sn_read_message :: "'h \<Rightarrow> bytes \<Rightarrow> snow_error + bytes \<times> 'h"
  sn_get_remote_static :: "'h \<Rightarrow> bytes option"
  sn_into_transport_mode :: "'h \<Rightarrow> snow_error + 't"
  st_write_message :: "'t \<Rightarrow> bytes \<Rightarrow> (snow_error + bytes) \<times> 't"
  st_read_message :: "'t \<Rightarrow> bytes \<Rightarrow> (snow_error + bytes) \<times> 't"

definition STATIC_KEY_DOMAIN :: bytes where
  "STATIC_KEY_DOMAIN = bytes_of ''noise-libp2p-static-key:''"

definition MAX_NOISE_MSG :: nat where "MAX_NOISE_MSG = 65535"
definition MAX_PLAINTEXT :: nat where "MAX_PLAINTEXT = MAX_NOISE_MSG - 16"

section \<open>Frames\<close>

definition send_frame :: "'w write_op \<Rightarrow> 'w \<Rightarrow> bytes \<Rightarrow> ((async_write_error + unit) poll \<times> 'w) option" where
  "send_frame wr w data =
     (if MAX_NOISE_MSG < length data then None
      else Some (wr w (u16_to_be_bytes (of_nat (length data)) @ data)))"

definition recv_frame :: "'r read_op \<Rightarrow> 'r \<Rightarrow> (async_read_error + bytes) poll \<times> 'r" where
  "recv_frame rd r =
     (case rd r 2 of
        (Pending, r') \<Rightarrow> (Pending, r')
      | (Ready (Inl e), r') \<Rightarrow> (Ready (Inl e), r')
      | (Ready (Inr len_buf), r') \<Rightarrow>
          rd r' (unat (u16_from_be_bytes (len_buf ! 0) (len_buf ! 1))))"

section \<open>Transport streams\<close>

text \<open>
  Reader and writer share the transport state. Each uses one direction of it, and keeps it as its own.
\<close>

record ('r, 't) NoiseReadStream =
  nr_reader :: 'r
  nr_read_buf :: bytes
  nr_transport :: 't

definition NoiseReadStream_new :: "'r \<Rightarrow> 't \<Rightarrow> ('r, 't) NoiseReadStream" where
  "NoiseReadStream_new r t = \<lparr>nr_reader = r, nr_read_buf = [], nr_transport = t\<rparr>"

fun noise_read_exact ::
  "'r read_op \<Rightarrow> ('t \<Rightarrow> bytes \<Rightarrow> (snow_error + bytes) \<times> 't) \<Rightarrow> nat \<Rightarrow> nat \<Rightarrow> bytes
     \<Rightarrow> ('r, 't) NoiseReadStream \<Rightarrow> ((async_read_error + bytes) poll \<times> ('r, 't) NoiseReadStream) option" where
  "noise_read_exact rd rm 0 n buf s = None"
| "noise_read_exact rd rm (Suc fuel) n buf s =
     (if n \<le> length buf then Some (Ready (Inr buf), s)
      else if nr_read_buf s \<noteq> [] then
        (let k = min (length (nr_read_buf s)) (n - length buf) in
         noise_read_exact rd rm fuel n (buf @ take k (nr_read_buf s))
           (s\<lparr>nr_read_buf := drop k (nr_read_buf s)\<rparr>))
      else case recv_frame rd (nr_reader s) of
        (Pending, r) \<Rightarrow> Some (Pending, s\<lparr>nr_reader := r\<rparr>)
      | (Ready (Inl e), r) \<Rightarrow> Some (Ready (Inl e), s\<lparr>nr_reader := r\<rparr>)
      | (Ready (Inr frame), r) \<Rightarrow>
          (case rm (nr_transport s) frame of
             (Inl e, t) \<Rightarrow>
               Some (Ready (Inl (AsyncReadError (OpaqueError e))), s\<lparr>nr_reader := r, nr_transport := t\<rparr>)
           | (Inr decrypted, t) \<Rightarrow>
               noise_read_exact rd rm fuel n buf
                 (s\<lparr>nr_reader := r, nr_transport := t, nr_read_buf := nr_read_buf s @ decrypted\<rparr>)))"

record ('w, 't) NoiseWriteStream =
  nw_writer :: 'w
  nw_transport :: 't

definition NoiseWriteStream_new :: "'w \<Rightarrow> 't \<Rightarrow> ('w, 't) NoiseWriteStream" where
  "NoiseWriteStream_new w t = \<lparr>nw_writer = w, nw_transport = t\<rparr>"

text \<open>\<open>data.chunks(MAX_PLAINTEXT)\<close>, one encrypted frame each.\<close>

function noise_write_all ::
  "'w write_op \<Rightarrow> ('t \<Rightarrow> bytes \<Rightarrow> (snow_error + bytes) \<times> 't) \<Rightarrow> bytes
     \<Rightarrow> ('w, 't) NoiseWriteStream \<Rightarrow> ((async_write_error + unit) poll \<times> ('w, 't) NoiseWriteStream) option" where
  "noise_write_all wr wm data s =
     (if data = [] then Some (Ready (Inr ()), s)
      else case wm (nw_transport s) (take MAX_PLAINTEXT data) of
        (Inl e, t) \<Rightarrow> Some (Ready (Inl (AsyncWriteError (OpaqueError e))), s\<lparr>nw_transport := t\<rparr>)
      | (Inr encrypted, t) \<Rightarrow>
          (case send_frame wr (nw_writer s) encrypted of
             None \<Rightarrow> None
           | Some (Pending, w) \<Rightarrow> Some (Pending, s\<lparr>nw_transport := t, nw_writer := w\<rparr>)
           | Some (Ready (Inl e), w) \<Rightarrow> Some (Ready (Inl e), s\<lparr>nw_transport := t, nw_writer := w\<rparr>)
           | Some (Ready (Inr _), w) \<Rightarrow>
               noise_write_all wr wm (drop MAX_PLAINTEXT data) (s\<lparr>nw_transport := t, nw_writer := w\<rparr>)))"
  by pat_completeness auto
termination
  by (relation "measure (\<lambda>(wr, wm, data, s). length data)") (auto simp: MAX_PLAINTEXT_def MAX_NOISE_MSG_def)

declare noise_write_all.simps [simp del]

section \<open>The handshake payload\<close>

record NoiseHandshakePayload =
  nh_key :: bytes
  nh_signature :: bytes

datatype NoiseHandshakeFromProtobufError =
    NhProtobuf protobuf_error
  | InvalidNoisePayload bytes
  | InvalidKey bytes
  | InvalidKeyLength nat
  | InvalidSignatureLength nat

definition payload_to_protobuf :: "NoiseHandshakePayload \<Rightarrow> bytes \<Rightarrow> (bytes \<times> nat) option" where
  "payload_to_protobuf p out =
     (case Option.bind (encode_varint (protobuf_encode (replicate 128 0)) 1 1)
             (\<lambda>e. encode_data e 2 (nh_key p)) of
        None \<Rightarrow> None
      | Some k \<Rightarrow>
          (case Option.bind (encode_data (protobuf_encode out) 1 (take (num_encoded k) (ebuf k)))
                  (\<lambda>e. encode_data e 2 (nh_signature p)) of
             None \<Rightarrow> None
           | Some e \<Rightarrow> Some (ebuf e, num_encoded e)))"

definition noise_visitor :: "(bytes option \<times> bytes option) Visitor" where
  "noise_visitor = default_visitor\<lparr>visit_data := (\<lambda>field_id bs (key, sig).
     if field_id = 1 then (Some bs, sig) else if field_id = 2 then (key, Some bs) else (key, sig))\<rparr>"

definition decode_outer_noise_payload_protobuf ::
  "bytes \<Rightarrow> NoiseHandshakeFromProtobufError + bytes \<times> bytes" where
  "decode_outer_noise_payload_protobuf data =
     (case protobuf_decode noise_visitor data (None, None) of
        (Inl e, _, _) \<Rightarrow> Inl (NhProtobuf e)
      | (Inr _, _, (identity_key, identity_sig)) \<Rightarrow>
          (case identity_sig of
             None \<Rightarrow> Inl (InvalidNoisePayload data)
           | Some sig \<Rightarrow>
               (if length sig \<noteq> 64 then Inl (InvalidSignatureLength (length sig))
                else case identity_key of
                  None \<Rightarrow> Inl (InvalidNoisePayload data)
                | Some key \<Rightarrow> Inr (key, sig))))"

definition key_visitor :: "(u64 option \<times> bytes option) Visitor" where
  "key_visitor = default_visitor\<lparr>
     visit_varint := (\<lambda>field_id n (ty, v). if field_id = 1 then (Some n, v) else (ty, v)),
     visit_data := (\<lambda>field_id bs (ty, v). if field_id = 2 then (ty, Some bs) else (ty, v))\<rparr>"

definition decode_ed25519_public_key_protobuf :: "bytes \<Rightarrow> NoiseHandshakeFromProtobufError + bytes" where
  "decode_ed25519_public_key_protobuf data =
     (case protobuf_decode key_visitor data (None, None) of
        (Inl e, _, _) \<Rightarrow> Inl (NhProtobuf e)
      | (Inr _, _, (ty, value)) \<Rightarrow>
          (case value of
             None \<Rightarrow> Inl (InvalidKey data)
           | Some key_data \<Rightarrow>
               (if ty \<noteq> Some 1 then Inl (InvalidKey data)
                else if length key_data \<noteq> 32 then Inl (InvalidKeyLength (length key_data))
                else Inr key_data)))"

definition payload_from_protobuf :: "bytes \<Rightarrow> NoiseHandshakeFromProtobufError + NoiseHandshakePayload" where
  "payload_from_protobuf bs =
     (case decode_outer_noise_payload_protobuf bs of
        Inl e \<Rightarrow> Inl e
      | Inr (key_protobuf, signature) \<Rightarrow>
          (case decode_ed25519_public_key_protobuf key_protobuf of
             Inl e \<Rightarrow> Inl e
           | Inr key \<Rightarrow> Inr \<lparr>nh_key = key, nh_signature = signature\<rparr>))"

section \<open>The handshake\<close>

datatype noise_error =
    NAsyncRead async_read_error
  | NAsyncWrite async_write_error
  | NSnow snow_error
  | NFromProtobuf NoiseHandshakeFromProtobufError
  | NRemoteStaticKeyNotAvailable
  | NRemotePeerIdMismatch PeerId PeerId
  | NInvalidIdentitySignatureFromRemote

text \<open>
  Message 2 read and its identity checked: the peer identifier and the handshake state. \<open>None\<close> is
  the panic of a peer identifier that does not fit its buffer.
\<close>

definition check_remote ::
  "('h, 't) Snow \<Rightarrow> 'k Ed25519 \<Rightarrow> PeerId option \<Rightarrow> 'h \<Rightarrow> bytes \<Rightarrow> (noise_error + PeerId \<times> 'h) option" where
  "check_remote sn ed expected_peer_id noise0 msg =
     (case sn_read_message sn noise0 msg of
        Inl e \<Rightarrow> Some (Inl (NSnow e))
      | Inr (payload_bytes, noise) \<Rightarrow>
          (case payload_from_protobuf payload_bytes of
             Inl e \<Rightarrow> Some (Inl (NFromProtobuf e))
           | Inr noise_payload \<Rightarrow>
               (case sn_get_remote_static sn noise of
                  None \<Rightarrow> Some (Inl NRemoteStaticKeyNotAvailable)
                | Some remote_static \<Rightarrow>
                    (if \<not> verify_ed25519 ed (nh_key noise_payload) (STATIC_KEY_DOMAIN @ remote_static)
                            (nh_signature noise_payload)
                     then Some (Inl NInvalidIdentitySignatureFromRemote)
                     else case PeerId_from_ed25519_public_key (nh_key noise_payload) of
                       None \<Rightarrow> None
                     | Some remote_peer_id \<Rightarrow>
                         (case expected_peer_id of
                            Some expected \<Rightarrow>
                              (if remote_peer_id \<noteq> expected
                               then Some (Inl (NRemotePeerIdMismatch expected remote_peer_id))
                               else Some (Inr (remote_peer_id, noise)))
                          | None \<Rightarrow> Some (Inr (remote_peer_id, noise)))))))"

text \<open>Message 3: our identity, encrypted and sent, and the transition to transport mode.\<close>

definition send_identity ::
  "('h, 't) Snow \<Rightarrow> 'k Ed25519 \<Rightarrow> 'w write_op \<Rightarrow> 'k Identity \<Rightarrow> bytes \<Rightarrow> 'h \<Rightarrow> 'w
     \<Rightarrow> ((noise_error + 't) poll \<times> 'w) option" where
  "send_identity sn ed wr identity dh_public noise w =
     (let signed_msg = STATIC_KEY_DOMAIN @ dh_public in
      case payload_to_protobuf \<lparr>nh_key = public_key_bytes ed identity,
             nh_signature = Identity_sign ed identity signed_msg\<rparr> (replicate MAX_NOISE_MSG 0) of
        None \<Rightarrow> None
      | Some (buf, len) \<Rightarrow>
          (case sn_write_message sn noise (take len buf) of
             Inl e \<Rightarrow> Some (Ready (Inl (NSnow e)), w)
           | Inr (ct, noise) \<Rightarrow>
               (case send_frame wr w ct of
                  None \<Rightarrow> None
                | Some (Pending, w) \<Rightarrow> Some (Pending, w)
                | Some (Ready (Inl e), w) \<Rightarrow> Some (Ready (Inl (NAsyncWrite e)), w)
                | Some (Ready (Inr _), w) \<Rightarrow>
                    (case sn_into_transport_mode sn noise of
                       Inl e \<Rightarrow> Some (Ready (Inl (NSnow e)), w)
                     | Inr t \<Rightarrow> Some (Ready (Inr t), w)))))"

definition handshake_dialer ::
  "('h, 't) Snow \<Rightarrow> 'k Ed25519 \<Rightarrow> 'r read_op \<Rightarrow> 'w write_op \<Rightarrow> 'k Identity \<Rightarrow> PeerId option \<Rightarrow> 'r \<Rightarrow> 'w
     \<Rightarrow> ((noise_error + 't \<times> PeerId) poll \<times> 'r \<times> 'w) option" where
  "handshake_dialer sn ed rd wr identity expected_peer_id r w =
     (case sn_build_initiator sn of
        Inl e \<Rightarrow> Some (Ready (Inl (NSnow e)), r, w)
      | Inr (dh_public, noise) \<Rightarrow>
          (case sn_write_message sn noise [] of
             Inl e \<Rightarrow> Some (Ready (Inl (NSnow e)), r, w)
           | Inr (msg1, noise) \<Rightarrow>
               (case send_frame wr w msg1 of
                  None \<Rightarrow> None
                | Some (Pending, w) \<Rightarrow> Some (Pending, r, w)
                | Some (Ready (Inl e), w) \<Rightarrow> Some (Ready (Inl (NAsyncWrite e)), r, w)
                | Some (Ready (Inr _), w) \<Rightarrow>
                    (case recv_frame rd r of
                       (Pending, r) \<Rightarrow> Some (Pending, r, w)
                     | (Ready (Inl e), r) \<Rightarrow> Some (Ready (Inl (NAsyncRead e)), r, w)
                     | (Ready (Inr msg2), r) \<Rightarrow>
                         (case check_remote sn ed expected_peer_id noise msg2 of
                            None \<Rightarrow> None
                          | Some (Inl e) \<Rightarrow> Some (Ready (Inl e), r, w)
                          | Some (Inr (remote_peer_id, noise)) \<Rightarrow>
                              (case send_identity sn ed wr identity dh_public noise w of
                                 None \<Rightarrow> None
                               | Some (Pending, w) \<Rightarrow> Some (Pending, r, w)
                               | Some (Ready (Inl e), w) \<Rightarrow> Some (Ready (Inl e), r, w)
                               | Some (Ready (Inr t), w) \<Rightarrow>
                                   Some (Ready (Inr (t, remote_peer_id)), r, w)))))))"

section \<open>Payload correctness\<close>

lemma encode_two_data:
  "Option.bind (encode_data e i a) (\<lambda>e. encode_data e j b) = encode_fields e [(i, FData a), (j, FData b)]"
  by simp

lemma encode_fields_new:
  assumes "length (fields_bytes fs) \<le> length out"
  shows "\<exists>e. encode_fields (protobuf_encode out) fs = Some e \<and> num_encoded e = length (fields_bytes fs) \<and>
    take (num_encoded e) (ebuf e) = fields_bytes fs"
proof -
  let ?e = "enc_write (protobuf_encode out) (fields_bytes fs)"
  have "take (length (fields_bytes fs)) (ebuf ?e) = fields_bytes fs"
    by (simp add: enc_write_def protobuf_encode_def)
  with assms show ?thesis by (simp add: encode_fields_eq num_encoded_write)
qed

lemma key_proto_length: "length key = 32 \<Longrightarrow> length (fields_bytes [(1, FVarint 1), (2, FData key)]) = 36"
  by (simp only: key_fields) (simp add: varint_bytes_32)

lemma decode_key_proto:
  assumes "length key = 32"
  shows "decode_ed25519_public_key_protobuf (fields_bytes [(1, FVarint 1), (2, FData key)]) = Inr key"
proof -
  have "list_all field_ok [(1, FVarint 1), (2, FData key)]" using assms by simp
  from protobuf_decode_fields [OF this, of key_visitor "[]" "(None, None)"] assms show ?thesis
    by (simp add: decode_ed25519_public_key_protobuf_def key_visitor_def default_visitor_def
        del: fields_bytes_simps)
qed

lemma decode_outer:
  assumes "length sig = 64" and "length key < 2 ^ 64"
  shows "decode_outer_noise_payload_protobuf (fields_bytes [(1, FData key), (2, FData sig)]) = Inr (key, sig)"
proof -
  have "list_all field_ok [(1, FData key), (2, FData sig)]" using assms by simp
  from protobuf_decode_fields [OF this, of noise_visitor "[]" "(None, None)"] assms show ?thesis
    by (simp add: decode_outer_noise_payload_protobuf_def noise_visitor_def default_visitor_def
        del: fields_bytes_simps)
qed

lemma outer_length:
  assumes "length inner = 36" and "length sig = 64"
  shows "length (fields_bytes [(1, FData inner), (2, FData sig)]) = 104"
proof -
  have "tag_of 1 WData = 10" "tag_of 2 WData = 18" by (simp_all add: tag_of_def)
  moreover have "varint_bytes 10 = [10]" "varint_bytes 18 = [18]" "varint_bytes 36 = [36]" "varint_bytes 64 = [64]"
    by (simp_all add: varint_bytes.simps)
  ultimately show ?thesis using assms by simp
qed

lemma payload_to_protobuf_ok:
  assumes "length (nh_key p) = 32" and "length (nh_signature p) = 64" and "104 \<le> length out"
  shows "\<exists>out'. payload_to_protobuf p out = Some (out', 104) \<and>
    payload_from_protobuf (take 104 out') = Inr \<lparr>nh_key = nh_key p, nh_signature = nh_signature p\<rparr>"
proof -
  define inner where "inner = fields_bytes [(1, FVarint 1), (2, FData (nh_key p))]"
  have il: "length inner = 36" unfolding inner_def by (rule key_proto_length [OF assms(1)])
  have "length inner \<le> length (replicate 128 (0 :: u8))" using il by simp
  then obtain k where k: "encode_fields (protobuf_encode (replicate 128 0)) [(1, FVarint 1), (2, FData (nh_key p))] = Some k"
    "take (num_encoded k) (ebuf k) = inner"
    using encode_fields_new [of "[(1, FVarint 1), (2, FData (nh_key p))]" "replicate 128 0"]
    unfolding inner_def by blast
  have ol: "length (fields_bytes [(1, FData inner), (2, FData (nh_signature p))]) = 104"
    by (rule outer_length [OF il assms(2)])
  obtain e where e: "encode_fields (protobuf_encode out) [(1, FData inner), (2, FData (nh_signature p))] = Some e"
    "num_encoded e = 104" "take 104 (ebuf e) = fields_bytes [(1, FData inner), (2, FData (nh_signature p))]"
    using encode_fields_new [of "[(1, FData inner), (2, FData (nh_signature p))]" out] assms(3) ol by auto
  have "payload_to_protobuf p out = Some (ebuf e, 104)"
    unfolding payload_to_protobuf_def encode_key encode_two_data k(1) option.case k(2) e(1) e(2) ..
  moreover have "payload_from_protobuf (take 104 (ebuf e)) = Inr \<lparr>nh_key = nh_key p, nh_signature = nh_signature p\<rparr>"
    using decode_outer [OF assms(2), of inner] il decode_key_proto [OF assms(1)]
    unfolding e(3) payload_from_protobuf_def by (simp add: inner_def [symmetric] del: fields_bytes_simps)
  ultimately show ?thesis by blast
qed

section \<open>Frames and streams\<close>

lemma u16_length: "n \<le> MAX_NOISE_MSG \<Longrightarrow> unat (of_nat n :: u16) = n"
  by (simp add: MAX_NOISE_MSG_def unat_of_nat take_bit_nat_eq_self)

definition noise_frame :: "bytes \<Rightarrow> bytes" where
  "noise_frame ct = u16_to_be_bytes (of_nat (length ct)) @ ct"

context byte_source
begin

lemma recv_frame_ready:
  assumes "avail r = noise_frame ct @ rest" and "length ct \<le> MAX_NOISE_MSG"
  obtains r' where "recv_frame rd r = (Ready (Inr ct), r')" "avail r' = rest"
proof -
  let ?l = "u16_to_be_bytes (of_nat (length ct))"
  obtain r1 where r1: "rd r 2 = (Ready (Inr ?l), r1)" "avail r1 = ct @ rest"
    using rd_exact [of r ?l "ct @ rest" 2] assms(1) by (auto simp: noise_frame_def)
  obtain r2 where r2: "rd r1 (length ct) = (Ready (Inr ct), r2)" "avail r2 = rest"
    using rd_exact [of r1 ct rest "length ct"] r1(2) by auto
  have "unat (u16_from_be_bytes (?l ! 0) (?l ! 1)) = length ct"
    using u16_length [OF assms(2)] by (simp add: u16_to_be_bytes_def u16_be_roundtrip)
  with r1 r2 that [of r2] show ?thesis by (simp add: recv_frame_def)
qed

end

text \<open>
  What the streams rely on from \<open>snow\<close>: two transport states are paired when what one encrypts the
  other decrypts, which pairs the states after the exchange again; a ciphertext is 16 bytes longer
  than its plaintext.
\<close>

definition snow_paired ::
  "('t \<Rightarrow> bytes \<Rightarrow> (snow_error + bytes) \<times> 't) \<Rightarrow> ('u \<Rightarrow> bytes \<Rightarrow> (snow_error + bytes) \<times> 'u)
     \<Rightarrow> ('t \<Rightarrow> 'u \<Rightarrow> bool) \<Rightarrow> bool" where
  "snow_paired wm rm P \<longleftrightarrow>
     (\<forall>t u pt. P t u \<longrightarrow> length pt \<le> MAX_PLAINTEXT \<longrightarrow>
        (\<exists>ct t' u'. wm t pt = (Inr ct, t') \<and> rm u ct = (Inr pt, u') \<and> P t' u' \<and>
                    length ct = length pt + 16))"

text \<open>Ciphertexts that decrypt, one after the other, to the given non-empty plaintexts.\<close>

fun decrypts :: "('u \<Rightarrow> bytes \<Rightarrow> (snow_error + bytes) \<times> 'u) \<Rightarrow> 'u \<Rightarrow> bytes list \<Rightarrow> bytes list \<Rightarrow> bool" where
  "decrypts rm u [] [] = True"
| "decrypts rm u (ct # cts) (pt # pts) =
     (\<exists>u'. rm u ct = (Inr pt, u') \<and> pt \<noteq> [] \<and> length ct \<le> MAX_NOISE_MSG \<and> decrypts rm u' cts pts)"
| "decrypts rm u _ _ = False"

text \<open>The state after reading the ciphertexts.\<close>

definition after_reading :: "('u \<Rightarrow> bytes \<Rightarrow> (snow_error + bytes) \<times> 'u) \<Rightarrow> bytes list \<Rightarrow> 'u \<Rightarrow> 'u" where
  "after_reading rm cts u = fold (\<lambda>ct u. snd (rm u ct)) cts u"

lemma after_reading_simps [simp]:
  "after_reading rm [] u = u" "after_reading rm (ct # cts) u = after_reading rm cts (snd (rm u ct))"
  "after_reading rm (cts @ cts') u = after_reading rm cts' (after_reading rm cts u)"
  by (simp_all add: after_reading_def)

lemma decrypts_append:
  "decrypts rm u cts pts \<Longrightarrow> decrypts rm (after_reading rm cts u) cts' pts' \<Longrightarrow>
   decrypts rm u (cts @ cts') (pts @ pts')"
  by (induction rm u cts pts rule: decrypts.induct) auto

lemma noise_write_all_ok:
  assumes "snow_paired wm rm P" and "P (nw_transport s) u"
  shows "\<exists>s' cts pts. noise_write_all mock_write_all wm data s = Some (Ready (Inr ()), s') \<and>
    ms_write_buf (nw_writer s') = ms_write_buf (nw_writer s) @ concat (map noise_frame cts) \<and>
    decrypts rm u cts pts \<and> concat pts = data \<and> P (nw_transport s') (after_reading rm cts u)"
  using assms(2)
proof (induction "length data" arbitrary: data s u rule: less_induct)
  case less
  show ?case
  proof (cases "data = []")
    case True
    then show ?thesis
      using less.prems by (intro exI [of _ s] exI [of _ "[]"]) (simp add: noise_write_all.simps)
  next
    case False
    let ?pt = "take MAX_PLAINTEXT data"
    obtain ct t' u' where w: "wm (nw_transport s) ?pt = (Inr ct, t')" "rm u ct = (Inr ?pt, u')" "P t' u'"
      "length ct = length ?pt + 16"
      using assms(1) less.prems unfolding snow_paired_def by (metis length_take min.cobounded2)
    have ct: "length ct \<le> MAX_NOISE_MSG" using w(4) by (simp add: MAX_PLAINTEXT_def MAX_NOISE_MSG_def)
    define s1 where "s1 = s\<lparr>nw_transport := t',
      nw_writer := (nw_writer s)\<lparr>ms_write_buf := ms_write_buf (nw_writer s) @ noise_frame ct\<rparr>\<rparr>"
    have step: "noise_write_all mock_write_all wm data s =
        noise_write_all mock_write_all wm (drop MAX_PLAINTEXT data) s1"
      using False w(1) ct
      by (subst noise_write_all.simps)
         (simp add: send_frame_def mock_write_all_def s1_def noise_frame_def)
    have "length (drop MAX_PLAINTEXT data) < length data"
      using False by (simp add: MAX_PLAINTEXT_def MAX_NOISE_MSG_def)
    from less.hyps [OF this, of s1 u'] w(3) obtain s' cts pts
      where ih: "noise_write_all mock_write_all wm (drop MAX_PLAINTEXT data) s1 = Some (Ready (Inr ()), s')"
        "ms_write_buf (nw_writer s') = ms_write_buf (nw_writer s1) @ concat (map noise_frame cts)"
        "decrypts rm u' cts pts" "concat pts = drop MAX_PLAINTEXT data"
        "P (nw_transport s') (after_reading rm cts u')"
      by (auto simp: s1_def)
    have "?pt \<noteq> []" using False by (simp add: MAX_PLAINTEXT_def MAX_NOISE_MSG_def)
    with step ih w(2) ct show ?thesis
      by (intro exI [of _ s'] exI [of _ "ct # cts"] exI [of _ "?pt # pts"]) (simp add: s1_def)
  qed
qed

text \<open>The plaintext a read stream can still deliver, as an invariant of its reads.\<close>

definition noise_source ::
  "('u \<Rightarrow> bytes \<Rightarrow> (snow_error + bytes) \<times> 'u) \<Rightarrow> ('r \<Rightarrow> bytes) \<Rightarrow> ('r, 'u) NoiseReadStream \<Rightarrow> bytes \<Rightarrow> bool" where
  "noise_source rm av s data \<longleftrightarrow>
     (\<exists>cts pts. av (nr_reader s) = concat (map noise_frame cts) \<and> decrypts rm (nr_transport s) cts pts \<and>
        data = nr_read_buf s @ concat pts)"

context byte_source
begin

lemma noise_read_exact_ok:
  "noise_source rm avail s data \<Longrightarrow> n \<le> length buf + length data \<Longrightarrow> length buf \<le> n \<Longrightarrow>
   2 * (n - length buf) + (if nr_read_buf s = [] then 1 else 0) < fuel \<Longrightarrow>
   \<exists>s'. noise_read_exact rd rm fuel n buf s = Some (Ready (Inr (buf @ take (n - length buf) data)), s') \<and>
        noise_source rm avail s' (drop (n - length buf) data)"
proof (induction fuel arbitrary: buf s data)
  case (Suc fuel)
  show ?case
  proof (cases "n \<le> length buf")
    case True
    with Suc.prems show ?thesis by simp
  next
    case False
    show ?thesis
    proof (cases "nr_read_buf s = []")
      case empty: False
      let ?b = "nr_read_buf s"
      define k where "k = min (length ?b) (n - length buf)"
      define s1 where "s1 = s\<lparr>nr_read_buf := drop k ?b\<rparr>"
      obtain rest where data: "data = ?b @ rest" and src1: "noise_source rm avail s1 (drop k ?b @ rest)"
        using Suc.prems(1) by (auto simp: noise_source_def s1_def)
      have k: "0 < k" "k \<le> length ?b" "k \<le> n - length buf"
        using empty False by (auto simp: k_def)
      have "\<exists>s'. noise_read_exact rd rm fuel n (buf @ take k ?b) s1 =
          Some (Ready (Inr ((buf @ take k ?b) @ take (n - length (buf @ take k ?b)) (drop k ?b @ rest))), s') \<and>
          noise_source rm avail s' (drop (n - length (buf @ take k ?b)) (drop k ?b @ rest))"
      proof (rule Suc.IH [OF src1])
        show "n \<le> length (buf @ take k ?b) + length (drop k ?b @ rest)"
          using Suc.prems(2) k data by simp
        show "length (buf @ take k ?b) \<le> n" using k False by simp
        show "2 * (n - length (buf @ take k ?b)) + (if nr_read_buf s1 = [] then 1 else 0) < fuel"
        proof -
          have "2 * (n - length buf) < Suc fuel" using Suc.prems(4) empty by simp
          moreover have "length (buf @ take k ?b) = length buf + k" using k by simp
          ultimately show ?thesis using k by (cases "nr_read_buf s1 = []") arith+
        qed
      qed
      moreover have "take k ?b @ take (n - length (buf @ take k ?b)) (drop k ?b @ rest)
          = take (n - length buf) data"
        "drop (n - length (buf @ take k ?b)) (drop k ?b @ rest) = drop (n - length buf) data"
      proof -
        have d: "data = take k ?b @ drop k ?b @ rest" using data by simp
        have l: "length (take k ?b) = k" using k by simp
        show "take k ?b @ take (n - length (buf @ take k ?b)) (drop k ?b @ rest) = take (n - length buf) data"
          unfolding d using k l by (simp add: diff_diff_add)
        show "drop (n - length (buf @ take k ?b)) (drop k ?b @ rest) = drop (n - length buf) data"
          unfolding d using k l by (simp add: diff_diff_add)
      qed
      ultimately show ?thesis using False empty by (simp add: Let_def k_def [symmetric] s1_def)
    next
      case True
      obtain cts pts where av: "avail (nr_reader s) = concat (map noise_frame cts)"
        and dec: "decrypts rm (nr_transport s) cts pts" and data: "data = concat pts"
        using Suc.prems(1) True by (auto simp: noise_source_def)
      have "data \<noteq> []" using Suc.prems(2) False by auto
      with dec data obtain ct cts' pt pts' u where cs: "cts = ct # cts'" "pts = pt # pts'"
        and u: "rm (nr_transport s) ct = (Inr pt, u)" "pt \<noteq> []" "length ct \<le> MAX_NOISE_MSG"
          "decrypts rm u cts' pts'"
        by (cases cts; cases pts) auto
      obtain r where r: "recv_frame rd (nr_reader s) = (Ready (Inr ct), r)"
        "avail r = concat (map noise_frame cts')"
        by (rule recv_frame_ready [of "nr_reader s" ct "concat (map noise_frame cts')"])
           (use av cs u in simp_all)
      define s1 where "s1 = s\<lparr>nr_reader := r, nr_transport := u, nr_read_buf := pt\<rparr>"
      have "noise_source rm avail s1 data"
        using r(2) u(4) data cs by (auto simp: noise_source_def s1_def)
      then have "\<exists>s'. noise_read_exact rd rm fuel n buf s1 =
          Some (Ready (Inr (buf @ take (n - length buf) data)), s') \<and>
          noise_source rm avail s' (drop (n - length buf) data)"
        by (rule Suc.IH) (use Suc.prems u(2) True in \<open>auto simp: s1_def\<close>)
      then show ?thesis using False True r(1) u(1) by (simp add: s1_def)
    qed
  qed
qed simp

end

section \<open>Properties\<close>


text \<open>A transport for the witness: the nonce as sixteen equal tag bytes, checked by the receiver.\<close>

definition tag_write :: "u8 \<Rightarrow> bytes \<Rightarrow> (snow_error + bytes) \<times> u8" where
  "tag_write t pt = (Inr (pt @ replicate 16 t), t + 1)"

definition tag_read :: "u8 \<Rightarrow> bytes \<Rightarrow> (snow_error + bytes) \<times> u8" where
  "tag_read u ct =
     (if drop (length ct - 16) ct = replicate 16 u then (Inr (take (length ct - 16) ct), u + 1)
      else (Inl 1, u))"


lemma handshake_checked:
  assumes "handshake_dialer sn ed rd wr identity expected r w = Some (Ready (Inr (t, peer)), r', w')"
  obtains noise msg2 noise' where "check_remote sn ed expected noise msg2 = Some (Inr (peer, noise'))"
  using assms that
  by (auto simp: handshake_dialer_def split: sum.splits prod.splits option.splits poll.splits)

lemma check_remote_authentic:
  assumes "check_remote sn ed expected noise msg2 = Some (Inr (peer, noise'))"
  obtains payload remote_static p where "sn_read_message sn noise msg2 = Inr (payload, noise')"
    "sn_get_remote_static sn noise' = Some remote_static" "payload_from_protobuf payload = Inr p"
    "verify_ed25519 ed (nh_key p) (STATIC_KEY_DOMAIN @ remote_static) (nh_signature p)"
    "PeerId_from_ed25519_public_key (nh_key p) = Some peer" "\<forall>e. expected = Some e \<longrightarrow> peer = e"
  using assms that
  by (fastforce simp: check_remote_def split: sum.splits prod.splits option.splits if_splits)

text \<open>
  (C13) The handshake authenticates. If the dialer's handshake succeeds with a peer identifier, then
  the remote proved possession of the key behind that identifier: the identity key it sent signed
  the static key that the noise protocol authenticated, the identifier is the one of that key, and
  it is the expected one if one was expected.
\<close>

theorem handshake_authenticates:
  assumes "handshake_dialer sn ed rd wr identity expected r w = Some (Ready (Inr (t, peer)), r', w')"
  shows "\<exists>noise msg2 payload noise' remote_static.
    sn_read_message sn noise msg2 = Inr (payload, noise') \<and>
    sn_get_remote_static sn noise' = Some remote_static \<and>
    (\<exists>p. payload_from_protobuf payload = Inr p \<and>
       verify_ed25519 ed (nh_key p) (STATIC_KEY_DOMAIN @ remote_static) (nh_signature p) \<and>
       PeerId_from_ed25519_public_key (nh_key p) = Some peer) \<and>
    (\<forall>e. expected = Some e \<longrightarrow> peer = e)"
proof -
  obtain noise msg2 noise' where "check_remote sn ed expected noise msg2 = Some (Inr (peer, noise'))"
    by (rule handshake_checked [OF assms])
  then show ?thesis by (rule check_remote_authentic) blast
qed

text \<open>A stand-in for \<open>snow\<close> and the signature scheme, for the witness: the remote sends the given payload.\<close>

definition duplex_write :: "u8 \<times> u8 \<Rightarrow> bytes \<Rightarrow> (snow_error + bytes) \<times> u8 \<times> u8" where
  "duplex_write t pt = (case tag_write (fst t) pt of (x, s) \<Rightarrow> (x, s, snd t))"

definition duplex_read :: "u8 \<times> u8 \<Rightarrow> bytes \<Rightarrow> (snow_error + bytes) \<times> u8 \<times> u8" where
  "duplex_read t ct = (case tag_read (snd t) ct of (x, u) \<Rightarrow> (x, fst t, u))"

definition toy_snow :: "bytes \<Rightarrow> (unit, u8 \<times> u8) Snow" where
  "toy_snow payload = \<lparr>sn_build_initiator = Inr ([1], ()), sn_write_message = (\<lambda>h pt. Inr ([2], h)),
     sn_read_message = (\<lambda>h ct. Inr (payload, h)), sn_get_remote_static = (\<lambda>h. Some [3]),
     sn_into_transport_mode = (\<lambda>h. Inr (1, 2)), st_write_message = duplex_write,
     st_read_message = duplex_read\<rparr>"

definition toy_ed25519 :: "unit Ed25519" where
  "toy_ed25519 = \<lparr>ed_from_bytes = (\<lambda>b. ()), ed_public = (\<lambda>k. replicate 32 7),
     ed_sign = (\<lambda>k m. replicate 64 8), ed_verify = (\<lambda>k m s. Some (k = replicate 32 7 \<and> s = replicate 64 8))\<rparr>"

lemma toy_handshake:
  assumes "ms_read_buf r = noise_frame [9] @ rest"
  obtains payload peer r' w' where
    "handshake_dialer (toy_snow payload) toy_ed25519 mock_read_exact mock_write_all identity None r w
      = Some (Ready (Inr ((1, 2), peer)), r', w')" "ms_read_buf r' = rest"
proof -
  let ?p = "\<lparr>nh_key = replicate 32 7, nh_signature = replicate 64 8\<rparr>"
  obtain out where out: "payload_from_protobuf (take 104 out) = Inr ?p"
    using payload_to_protobuf_ok [of ?p "replicate 104 0"] by auto
  obtain peer where peer: "PeerId_from_ed25519_public_key (replicate 32 7) = Some peer"
    using peer_id_of_key [of "replicate 32 7"] by simp
  let ?sn = "toy_snow (take 104 out)"
  have ver: "verify_ed25519 toy_ed25519 (replicate 32 7) m (replicate 64 8)" for m
    by (simp add: verify_ed25519_def toy_ed25519_def)
  have chk: "check_remote ?sn toy_ed25519 None () [9] = Some (Inr (peer, ()))"
    using out peer ver by (simp add: check_remote_def toy_snow_def)
  obtain r' where r': "recv_frame mock_read_exact r = (Ready (Inr [9]), r')" "ms_read_buf r' = rest"
    using mock.recv_frame_ready [OF assms] by (auto simp: MAX_NOISE_MSG_def)
  have sf: "\<exists>w'. send_frame mock_write_all v [b] = Some (Ready (Inr ()), w')" for v b
    by (simp add: send_frame_def mock_write_all_def MAX_NOISE_MSG_def)
  then obtain w1 where w1: "send_frame mock_write_all w [2] = Some (Ready (Inr ()), w1)" by blast
  from sf obtain w2 where w2: "send_frame mock_write_all w1 [2] = Some (Ready (Inr ()), w2)" by blast
  let ?q = "\<lparr>nh_key = public_key_bytes toy_ed25519 identity,
      nh_signature = Identity_sign toy_ed25519 identity (STATIC_KEY_DOMAIN @ [1])\<rparr>"
  obtain buf where "payload_to_protobuf ?q (replicate MAX_NOISE_MSG 0) = Some (buf, 104)"
    using payload_to_protobuf_ok [of ?q "replicate MAX_NOISE_MSG 0"]
    by (auto simp: public_key_bytes_def Identity_sign_def toy_ed25519_def MAX_NOISE_MSG_def)
  then have "send_identity ?sn toy_ed25519 mock_write_all identity [1] () w1 = Some (Ready (Inr (1, 2)), w2)"
    using w2 by (simp add: send_identity_def toy_snow_def Let_def)
  then have "handshake_dialer ?sn toy_ed25519 mock_read_exact mock_write_all identity None r w
      = Some (Ready (Inr ((1, 2), peer)), r', w2)"
    using chk r'(1) w1 by (simp add: handshake_dialer_def) (simp add: toy_snow_def)
  with that r'(2) show ?thesis by blast
qed

theorem handshake_authenticates_witness:
  "\<exists>payload peer r' w'. handshake_dialer (toy_snow payload) toy_ed25519 mock_read_exact mock_write_all
      \<lparr>signing_key = ()\<rparr> None (mock_extend (noise_frame [9]) mock_new) mock_new
      = Some (Ready (Inr ((1, 2), peer)), r', w') \<and>
     (\<exists>p. payload_from_protobuf payload = Inr p \<and>
        verify_ed25519 toy_ed25519 (nh_key p) (STATIC_KEY_DOMAIN @ [3]) (nh_signature p))"
proof -
  have "ms_read_buf (mock_extend (noise_frame [9]) mock_new) = noise_frame [9] @ []"
    by (simp add: mock_new_def)
  then obtain payload peer r' w' where hs: "handshake_dialer (toy_snow payload) toy_ed25519 mock_read_exact
      mock_write_all \<lparr>signing_key = ()\<rparr> None (mock_extend (noise_frame [9]) mock_new) mock_new
      = Some (Ready (Inr ((1, 2), peer)), r', w')"
    by (rule toy_handshake)
  from handshake_authenticates [OF hs] have "\<exists>p. payload_from_protobuf payload = Inr p \<and>
      verify_ed25519 toy_ed25519 (nh_key p) (STATIC_KEY_DOMAIN @ [3]) (nh_signature p)"
    by (auto simp: toy_snow_def)
  with hs show ?thesis by blast
qed

text \<open>
  (C33) The handshake payload round-trips: the payload of a 32 byte key and a 64 byte signature
  encodes into 104 bytes, and decoding them gives it back.
\<close>

theorem handshake_payload_roundtrip:
  assumes "length key = 32" and "length sig = 64" and "104 \<le> length out"
  shows "\<exists>out'. payload_to_protobuf \<lparr>nh_key = key, nh_signature = sig\<rparr> out = Some (out', 104) \<and>
    payload_from_protobuf (take 104 out') = Inr \<lparr>nh_key = key, nh_signature = sig\<rparr>"
  using payload_to_protobuf_ok [of "\<lparr>nh_key = key, nh_signature = sig\<rparr>" out] assms by simp

theorem handshake_payload_roundtrip_witness:
  "\<exists>out'. payload_to_protobuf \<lparr>nh_key = replicate 32 1, nh_signature = replicate 64 2\<rparr> (replicate 200 0)
     = Some (out', 104) \<and>
   payload_from_protobuf (take 104 out') = Inr \<lparr>nh_key = replicate 32 1, nh_signature = replicate 64 2\<rparr>"
  by (rule handshake_payload_roundtrip) simp_all

end
