(* ===== verification/Timers.thy ===== *)
theory Timers
  imports Prelude
begin

text \<open>
  \<open>src/platform.rs\<close> and \<open>src/utils/timers.rs\<close>: what the crate asks of its platform, the naive
  timeout built on it, and the queue of request timers.

  The platform is a parameter: \<open>pf_sleep\<close> creates a sleep future of type \<open>'z\<close>, \<open>pf_poll\<close> polls one,
  both in the platform's current state \<open>'p\<close> (its clock). A poll reports whether it was ready,
  whether it called the waker before it returned, and the future afterwards. \<open>Duration\<close>s are
  numbers of nanoseconds. The waker of a suspended sleep may be called at any later time, which is
  the step \<open>timers_wake\<close>.
\<close>

section \<open>Platform\<close>

type_synonym duration = nat

record ('p, 'z) PlatformT =
  fill_with_random_bytes :: "'p \<Rightarrow> nat \<Rightarrow> bytes"
  pf_sleep :: "'p \<Rightarrow> duration \<Rightarrow> 'z"
  pf_poll :: "'p \<Rightarrow> 'z \<Rightarrow> unit poll \<times> bool \<times> 'z"

text \<open>One poll of the future of \<open>timeout\<close>; \<open>fut\<close> is the outcome of polling the future inside.\<close>

definition timeout_poll ::
  "('p, 'z) PlatformT \<Rightarrow> 'p \<Rightarrow> 'z \<Rightarrow> 'a poll \<Rightarrow> (unit + 'a) poll \<times> 'z" where
  "timeout_poll pf p s fut =
     (case fut of
        Ready val \<Rightarrow> (Ready (Inr val), s)
      | Pending \<Rightarrow>
          (case pf_poll pf p s of
             (Ready _, _, s') \<Rightarrow> (Ready (Inl ()), s')
           | (Pending, _, s') \<Rightarrow> (Pending, s')))"

section \<open>Timers\<close>

record ('t, 'z) Timers =
  poll_next :: bool
  tm_duration :: duration
  timers :: "('t \<times> 'z) list"

definition timers_new :: "duration \<Rightarrow> ('t, 'z) Timers" where
  "timers_new d = \<lparr>poll_next = False, tm_duration = d, timers = []\<rparr>"

definition timers_add :: "('p, 'z) PlatformT \<Rightarrow> 'p \<Rightarrow> 't \<Rightarrow> ('t, 'z) Timers \<Rightarrow> ('t, 'z) Timers" where
  "timers_add pf p item t0 =
     (let fut = pf_sleep pf p (tm_duration t0);
          t = t0\<lparr>timers := timers t0 @ [(item, fut)]\<rparr>
      in if length (timers t) = 1 then t\<lparr>poll_next := True\<rparr> else t)"

text \<open>\<open>PollWaker::wake\<close>.\<close>

definition timers_wake :: "('t, 'z) Timers \<Rightarrow> ('t, 'z) Timers" where
  "timers_wake t = t\<lparr>poll_next := True\<rparr>"

definition timers_try_next ::
  "('p, 'z) PlatformT \<Rightarrow> 'p \<Rightarrow> ('t, 'z) Timers \<Rightarrow> 't option \<times> ('t, 'z) Timers" where
  "timers_try_next pf p t0 =
     (if \<not> poll_next t0 then (None, t0)
      else case timers t0 of
        [] \<Rightarrow> (None, t0)
      | (item, fut) # rest \<Rightarrow>
          (case pf_poll pf p fut of
             (res, woken, fut') \<Rightarrow>
               (let t = (if woken then timers_wake t0 else t0)\<lparr>timers := rest\<rparr> in
                case res of
                  Pending \<Rightarrow> (None, t\<lparr>poll_next := False, timers := (item, fut') # rest\<rparr>)
                | Ready _ \<Rightarrow> (Some item, t))))"

section \<open>Runs\<close>

text \<open>
  A run of a timer set with the items added and the items handed out so far. \<open>armed\<close> records that
  the first sleep was polled, is pending and holds a waker that has not been called.
\<close>

inductive timers_run ::
  "('p, 'z) PlatformT \<Rightarrow> ('t, 'z) Timers \<Rightarrow> bool \<Rightarrow> 't list \<Rightarrow> 't list \<Rightarrow> bool" for pf where
  tr_new: "timers_run pf (timers_new d) False [] []"
| tr_add: "timers_run pf t armed added emitted \<Longrightarrow>
    timers_run pf (timers_add pf p item t) armed (added @ [item]) emitted"
| tr_wake: "timers_run pf t armed added emitted \<Longrightarrow>
    timers_run pf (timers_wake t) False added emitted"
| tr_none: "timers_run pf t armed added emitted \<Longrightarrow> timers_try_next pf p t = (None, t') \<Longrightarrow>
    armed' = (armed \<or> timers t \<noteq> [] \<and> poll_next t \<and> \<not> fst (snd (pf_poll pf p (snd (hd (timers t)))))) \<Longrightarrow>
    timers_run pf t' armed' added emitted"
| tr_some: "timers_run pf t armed added emitted \<Longrightarrow> timers_try_next pf p t = (Some item, t') \<Longrightarrow>
    timers_run pf t' False added (emitted @ [item])"

text \<open>The documented behaviour of a sleep that does not wake its task while it reports \<open>Pending\<close>.\<close>

definition quiet :: "('p, 'z) PlatformT \<Rightarrow> bool" where
  "quiet pf \<longleftrightarrow> (\<forall>p z woken z'. pf_poll pf p z = (Pending, woken, z') \<longrightarrow> \<not> woken)"

lemma try_next_None:
  assumes "timers_try_next pf p t = (None, t')"
  shows "map fst (timers t') = map fst (timers t) \<and>
    (poll_next t' \<longrightarrow> timers t' = [] \<or> poll_next t \<and> timers t = []) \<and> (\<not> poll_next t \<longrightarrow> t' = t)"
  using assms
  by (auto simp: timers_try_next_def timers_wake_def Let_def split: if_splits list.splits prod.splits poll.splits)

lemma try_next_Some:
  assumes "timers_try_next pf p t = (Some item, t')"
  shows "map fst (timers t) = item # map fst (timers t') \<and> poll_next t' \<and> poll_next t \<and>
    fst (pf_poll pf p (snd (hd (timers t)))) = Ready ()"
  using assms
  by (auto simp: timers_try_next_def timers_wake_def Let_def split: if_splits list.splits prod.splits poll.splits)

lemma timers_run_fifo:
  "timers_run pf t armed added emitted \<Longrightarrow> added = emitted @ map fst (timers t)"
proof (induction rule: timers_run.induct)
  case (tr_none t armed added emitted p t' armed')
  then show ?case using try_next_None [OF tr_none(2)] by simp
next
  case (tr_some t armed added emitted p item t')
  then show ?case using try_next_Some [OF tr_some(2)] by simp
qed (simp_all add: timers_new_def timers_add_def timers_wake_def Let_def)

lemma timers_run_armed:
  assumes "timers_run pf t armed added emitted" and q: "quiet pf"
  shows "timers t = [] \<or> poll_next t \<or> armed"
  using assms(1)
proof (induction rule: timers_run.induct)
  case (tr_none t armed added emitted p t' armed')
  then show ?case using try_next_None [OF tr_none(2)] q
    by (auto simp: timers_try_next_def quiet_def Let_def split: if_splits list.splits prod.splits poll.splits)
next
  case (tr_some t armed added emitted p item t')
  then show ?case using try_next_Some [OF tr_some(2)] by simp
qed (auto simp: timers_new_def timers_add_def timers_wake_def Let_def)

text \<open>Once the first sleeps are ready, as many calls hand out their items in order.\<close>

fun try_nexts :: "('p, 'z) PlatformT \<Rightarrow> 'p \<Rightarrow> nat \<Rightarrow> ('t, 'z) Timers \<Rightarrow> 't option list \<times> ('t, 'z) Timers" where
  "try_nexts pf p 0 t = ([], t)"
| "try_nexts pf p (Suc n) t =
     (case timers_try_next pf p t of (r, t1) \<Rightarrow>
        (case try_nexts pf p n t1 of (rs, t2) \<Rightarrow> (r # rs, t2)))"

lemma try_nexts_ready:
  assumes "poll_next t" and "timers t = ready @ rest"
    and "\<forall>e \<in> set ready. fst (pf_poll pf p (snd e)) = Ready ()"
  shows "\<exists>t'. try_nexts pf p (length ready) t = (map (Some \<circ> fst) ready, t') \<and>
    timers t' = rest \<and> poll_next t'"
  using assms
proof (induction ready arbitrary: t)
  case (Cons e es)
  obtain item fut where e: "e = (item, fut)" by fastforce
  obtain woken fut' where pl: "pf_poll pf p fut = (Ready (), woken, fut')"
    using Cons.prems(3) e by (metis fst_conv list.set_intros(1) prod_cases3 snd_conv)
  define t1 where "t1 = (if woken then timers_wake t else t)\<lparr>timers := es @ rest\<rparr>"
  have tn: "timers_try_next pf p t = (Some item, t1)"
    using Cons.prems(1, 2) e pl by (simp add: timers_try_next_def t1_def Let_def)
  have "poll_next t1" "timers t1 = es @ rest"
    using Cons.prems(1) by (simp_all add: t1_def timers_wake_def)
  from Cons.IH [OF this] Cons.prems(3) tn e show ?case by auto
qed simp


text \<open>A platform for the witnesses: a sleep is its deadline on a clock counted in nanoseconds.\<close>

definition clock_platform :: "bool \<Rightarrow> (nat, nat) PlatformT" where
  "clock_platform wakes = \<lparr>fill_with_random_bytes = (\<lambda>p n. replicate n (of_nat p)),
     pf_sleep = (\<lambda>p d. p + d),
     pf_poll = (\<lambda>p z. (if z \<le> p then Ready () else Pending, wakes, z))\<rparr>"


text \<open>
  A wake during a poll is lost. When the first sleep calls its waker while it reports
  \<open>Pending\<close> (as a future may to be polled again), \<open>try_next\<close> clears \<open>poll_next\<close> after the poll and
  with it the wake: from then on no call hands out anything, even when the sleep has finished,
  until some waker is called again.
\<close>

theorem timers_lose_wake:
  assumes "poll_next t" and "timers t = (item, fut) # rest"
    and "pf_poll pf p fut = (Pending, True, fut')"
    and "timers_try_next pf p t = (r, t')"
  shows "r = None \<and> timers t' = (item, fut') # rest \<and> \<not> poll_next t' \<and>
    (\<forall>p'. timers_try_next pf p' t' = (None, t'))"
  using assms by (auto simp: timers_try_next_def Let_def)

theorem timers_lose_wake_witness:
  "\<exists>r t'. timers_try_next (clock_platform True) 0 (timers_add (clock_platform True) 0 (7::nat) (timers_new 5)) = (r, t') \<and>
     timers t' = [(7, 5)] \<and> fst (pf_poll (clock_platform True) 9 5) = Ready () \<and>
     timers_try_next (clock_platform True) 9 t' = (None, t')"
proof -
  let ?pf = "clock_platform True"
  let ?t = "timers_add ?pf 0 (7::nat) (timers_new 5)"
  obtain r t' where nx: "timers_try_next ?pf 0 ?t = (r, t')" by fastforce
  have "poll_next ?t" "timers ?t = [(7, 5)]" "pf_poll ?pf 0 5 = (Pending, True, 5)"
    by (simp_all add: timers_add_def timers_new_def clock_platform_def Let_def)
  from timers_lose_wake [OF this nx] nx show ?thesis by (auto simp: clock_platform_def)
qed

end
