(* ===== verification/Protocols.thy ===== *)
theory Protocols
  imports Timers
begin

text \<open>
  \<open>src/protocol.rs\<close>, \<open>src/utils/opaque_id.rs\<close> and the data of \<open>src/configuration.rs\<close>: the protocols
  a connection knows, their identifiers and the connection's configuration. The process-wide
  counter behind \<open>OpaqueId::new\<close> is passed explicitly.
\<close>

section \<open>Protocols\<close>

record RequestProtocol =
  rp_name :: utf8_string
  rp_allow_inbound :: bool
  rp_timeout :: "duration option"
  rp_max_response_size_in_bytes :: nat

definition RequestProtocol_new :: "utf8_string \<Rightarrow> RequestProtocol" where
  "RequestProtocol_new name = \<lparr>rp_name = name, rp_allow_inbound = False, rp_timeout = None,
     rp_max_response_size_in_bytes = usize_max\<rparr>"

definition rp_with_allow_inbound :: "bool \<Rightarrow> RequestProtocol \<Rightarrow> RequestProtocol" where
  "rp_with_allow_inbound allow p = p\<lparr>rp_allow_inbound := allow\<rparr>"

definition rp_with_max_response_size :: "nat \<Rightarrow> RequestProtocol \<Rightarrow> RequestProtocol" where
  "rp_with_max_response_size n p = p\<lparr>rp_max_response_size_in_bytes := n\<rparr>"

definition rp_with_timeout :: "duration \<Rightarrow> RequestProtocol \<Rightarrow> RequestProtocol" where
  "rp_with_timeout d p = p\<lparr>rp_timeout := Some d\<rparr>"

record SubscriptionProtocol =
  sp_name :: utf8_string
  sp_allow_inbound :: bool
  sp_max_response_size_in_bytes :: nat
  sp_our_handshake :: bytes
  sp_validate_their_handshake :: "bytes \<Rightarrow> bool"

definition SubscriptionProtocol_new ::
  "utf8_string \<Rightarrow> bytes \<Rightarrow> (bytes \<Rightarrow> bool) \<Rightarrow> SubscriptionProtocol" where
  "SubscriptionProtocol_new name our_handshake validate_their_handshake =
     \<lparr>sp_name = name, sp_allow_inbound = True, sp_max_response_size_in_bytes = usize_max,
      sp_our_handshake = our_handshake, sp_validate_their_handshake = validate_their_handshake\<rparr>"

definition sp_with_allow_inbound :: "bool \<Rightarrow> SubscriptionProtocol \<Rightarrow> SubscriptionProtocol" where
  "sp_with_allow_inbound allow p = p\<lparr>sp_allow_inbound := allow\<rparr>"

definition sp_with_max_response_size :: "nat \<Rightarrow> SubscriptionProtocol \<Rightarrow> SubscriptionProtocol" where
  "sp_with_max_response_size n p = p\<lparr>sp_max_response_size_in_bytes := n\<rparr>"

datatype AnyProtocol = AnyRequest RequestProtocol | AnySubscription SubscriptionProtocol

fun as_request :: "AnyProtocol \<Rightarrow> RequestProtocol option" where
  "as_request (AnyRequest p) = Some p"
| "as_request (AnySubscription _) = None"

fun as_subscription :: "AnyProtocol \<Rightarrow> SubscriptionProtocol option" where
  "as_subscription (AnyRequest _) = None"
| "as_subscription (AnySubscription p) = Some p"

section \<open>Identifiers\<close>

datatype OpaqueId = OpaqueId (opaque_get: nat)
datatype RequestProtocolId = RequestProtocolId nat
datatype SubscriptionProtocolId = SubscriptionProtocolId nat

text \<open>The derived orders of the identifiers compare the numbers.\<close>

instantiation OpaqueId :: linorder
begin

definition less_eq_OpaqueId :: "OpaqueId \<Rightarrow> OpaqueId \<Rightarrow> bool" where
  "less_eq_OpaqueId a b \<longleftrightarrow> opaque_get a \<le> opaque_get b"

definition less_OpaqueId :: "OpaqueId \<Rightarrow> OpaqueId \<Rightarrow> bool" where
  "less_OpaqueId a b \<longleftrightarrow> opaque_get a < opaque_get b"

instance
  by standard (auto simp: less_eq_OpaqueId_def less_OpaqueId_def opaque_get_def split: OpaqueId.splits)

end

text \<open>\<open>fetch_add\<close> on an \<open>AtomicUsize\<close> wraps around.\<close>

definition OpaqueId_new :: "nat \<Rightarrow> OpaqueId \<times> nat" where
  "OpaqueId_new counter = (OpaqueId counter, (counter + 1) mod (usize_max + 1))"

definition request_id_from :: "OpaqueId \<Rightarrow> RequestProtocolId" where
  "request_id_from i = RequestProtocolId (opaque_get i)"

definition subscription_id_from :: "OpaqueId \<Rightarrow> SubscriptionProtocolId" where
  "subscription_id_from i = SubscriptionProtocolId (opaque_get i)"

section \<open>Configuration\<close>

record Configuration =
  identity_secret :: "bytes option"
  noise_timeout :: duration
  multistream_timeout :: duration
  protocols :: "(OpaqueId \<times> AnyProtocol) list"

definition from_secs :: "nat \<Rightarrow> duration" where
  "from_secs n = n * 1000000000"

definition Configuration_default :: Configuration where
  "Configuration_default = \<lparr>identity_secret = None, noise_timeout = from_secs 30,
     multistream_timeout = from_secs 10, protocols = []\<rparr>"

text \<open>
  The trait \<open>Protocol\<close> is passed as its two members: the conversion into \<open>AnyProtocol\<close> and the
  conversion of the fresh identifier.
\<close>

definition add_protocol ::
  "('p \<Rightarrow> AnyProtocol) \<Rightarrow> (OpaqueId \<Rightarrow> 'i) \<Rightarrow> 'p \<Rightarrow> nat \<Rightarrow> Configuration \<Rightarrow> 'i \<times> nat \<times> Configuration" where
  "add_protocol into_any_protocol id_from protocol counter cfg =
     (case OpaqueId_new counter of
        (next_id, counter') \<Rightarrow>
          (id_from next_id, counter',
           cfg\<lparr>protocols := protocols cfg @ [(next_id, into_any_protocol protocol)]\<rparr>))"

abbreviation add_request_protocol where
  "add_request_protocol \<equiv> add_protocol AnyRequest request_id_from"

abbreviation add_subscription_protocol where
  "add_subscription_protocol \<equiv> add_protocol AnySubscription subscription_id_from"

definition with_identity :: "bytes \<Rightarrow> Configuration \<Rightarrow> Configuration" where
  "with_identity secret_bytes cfg = cfg\<lparr>identity_secret := Some secret_bytes\<rparr>"

definition with_noise_timeout :: "duration \<Rightarrow> Configuration \<Rightarrow> Configuration" where
  "with_noise_timeout d cfg = cfg\<lparr>noise_timeout := d\<rparr>"

definition with_multistream_timeout :: "duration \<Rightarrow> Configuration \<Rightarrow> Configuration" where
  "with_multistream_timeout d cfg = cfg\<lparr>multistream_timeout := d\<rparr>"

section \<open>Identifiers are unique\<close>

text \<open>
  Configurations that a program can build while the counter goes from 0 to \<open>counter\<close>: other
  configurations may draw identifiers from it in between.
\<close>

inductive configured :: "nat \<Rightarrow> Configuration \<Rightarrow> bool" where
  cf_new: "configured counter Configuration_default"
| cf_request: "configured counter cfg \<Longrightarrow> counter < usize_max \<Longrightarrow>
    add_request_protocol p counter cfg = (i, counter', cfg') \<Longrightarrow> configured counter' cfg'"
| cf_subscription: "configured counter cfg \<Longrightarrow> counter < usize_max \<Longrightarrow>
    add_subscription_protocol q counter cfg = (j, counter', cfg') \<Longrightarrow> configured counter' cfg'"
| cf_elsewhere: "configured counter cfg \<Longrightarrow> counter \<le> counter' \<Longrightarrow> configured counter' cfg"
| cf_identity: "configured counter cfg \<Longrightarrow> configured counter (with_identity secret cfg)"
| cf_noise_timeout: "configured counter cfg \<Longrightarrow> configured counter (with_noise_timeout d cfg)"
| cf_multistream_timeout:
    "configured counter cfg \<Longrightarrow> configured counter (with_multistream_timeout d cfg)"

lemmas configured_simps = OpaqueId_new_def add_protocol_def with_identity_def
  with_noise_timeout_def with_multistream_timeout_def Configuration_default_def

lemma configured_ids:
  "configured counter cfg \<Longrightarrow> distinct (map (opaque_get \<circ> fst) (protocols cfg)) \<and>
     (\<forall>e \<in> set (protocols cfg). opaque_get (fst e) < counter)"
proof (induction rule: configured.induct)
  case (cf_request counter cfg p i counter' cfg')
  then have "Suc counter mod Suc usize_max = Suc counter" by simp
  with cf_request show ?case by (fastforce simp: configured_simps)
next
  case (cf_subscription counter cfg q j counter' cfg')
  then have "Suc counter mod Suc usize_max = Suc counter" by simp
  with cf_subscription show ?case by (fastforce simp: configured_simps)
qed (auto simp: configured_simps)

text \<open>Protocols are listed in the order in which their identifiers were drawn.\<close>

lemma configured_order: "configured counter cfg \<Longrightarrow> sorted_wrt (<) (map fst (protocols cfg))"
proof (induction rule: configured.induct)
  case (cf_request counter cfg p i counter' cfg')
  with configured_ids [OF cf_request(1)] show ?case
    by (auto simp: configured_simps sorted_wrt_append less_OpaqueId_def)
next
  case (cf_subscription counter cfg q j counter' cfg')
  with configured_ids [OF cf_subscription(1)] show ?case
    by (auto simp: configured_simps sorted_wrt_append less_OpaqueId_def)
qed (auto simp: configured_simps)

end
