(* ===== verification/Connection.thy ===== *)
theory Connection
  imports YamuxMultistream MultistreamDialer Noise Protocols
begin

text \<open>
  \<open>src/connection.rs\<close> with the errors of \<open>src/error.rs\<close> and the connecting half of
  \<open>src/configuration.rs\<close>: a connection to one peer, with request-response and subscription
  protocols on top of the multistream layer.

  A connection is a record of the fields of \<open>Connection\<close>; \<open>'r\<close> and \<open>'w\<close> are the (encrypted) stream
  types below the yamux session and \<open>'z\<close> is the platform's sleep future. \<open>next_inner\<close> is a loop
  with one await point, the multistream's \<open>next\<close>. A suspended future is therefore the suspended
  future of that call (its \<open>work_units\<close>, see \<open>YamuxMultistream\<close>); a new one starts at the top of
  the loop. A panic of a layer below is \<open>CnPanic\<close>, and \<open>None\<close> in the operations.
\<close>

section \<open>Errors\<close>

datatype ProtocolError =
    PMultistream dialer_error
  | PNoise noise_error
  | PYamuxMultistream ms_error

datatype ConnectionError =
    NoiseNegotiationTimeout
  | YamuxNegotiationTimeout
  | NoiseHandshakeTimeout
  | SubscriptionProtocolNotFound SubscriptionProtocolId
  | SubscriptionClosed SubscriptionProtocolId
  | SubscriptionNotReady SubscriptionProtocolId
  | RequestProtocolNotFound RequestProtocolId
  | AlreadySubscribed SubscriptionProtocolId
  | ConnProtocolError ProtocolError

datatype StreamError = StreamProtocolError ProtocolError

section \<open>Messages\<close>

datatype ResponseId = ResponseId YamuxStreamId
datatype RequestId = RequestId YamuxStreamId

datatype Request = RqValue bytes | RqCancelled | RqErrorPayloadTooLarge

datatype RequestResponseError =
    RrTimeout
  | RrProtocolRejected
  | RrClosedByRemote
  | RrRemotePayloadTooLarge
  | RrMultistreamProtocolError

datatype RequestResponse = RsValue bytes | RsCancelled | RsError RequestResponseError

datatype SubscriptionResponseError =
    SrProtocolRejected
  | SrOurHandshakeRejected
  | SrTheirHandshakeRejected
  | SrRemotePayloadTooLarge
  | SrMultistreamProtocolError

datatype SubscriptionResponse =
    SrOpened
  | SrValue bytes
  | SrClosed
  | SrError SubscriptionResponseError

datatype Message =
    MRequest ResponseId RequestProtocolId Request
  | MResponse RequestId RequestProtocolId RequestResponse
  | MNotification SubscriptionProtocolId SubscriptionResponse

section \<open>State\<close>

datatype RequestState = AwaitingProtocolConfirmation bytes | AwaitingResponsePayload

record 'z RequestDetails =
  rq_protocol_id :: RequestProtocolId
  rq_protocol :: RequestProtocol
  rq_timeouts :: "(YamuxStreamId, 'z) Timers option"

datatype SubscriptionStreamState =
    SsClosed
  | SsHandshake YamuxStreamId
  | SsOpen YamuxStreamId

fun ss_is_closed :: "SubscriptionStreamState \<Rightarrow> bool" where
  "ss_is_closed SsClosed = True"
| "ss_is_closed _ = False"

fun ss_is_open :: "SubscriptionStreamState \<Rightarrow> bool" where
  "ss_is_open (SsOpen _) = True"
| "ss_is_open _ = False"

fun ss_stream_id :: "SubscriptionStreamState \<Rightarrow> YamuxStreamId option" where
  "ss_stream_id (SsHandshake i) = Some i"
| "ss_stream_id (SsOpen i) = Some i"
| "ss_stream_id SsClosed = None"

record SubscriptionDetails =
  sd_protocol_id :: SubscriptionProtocolId
  sd_protocol :: SubscriptionProtocol
  our_stream :: SubscriptionStreamState
  their_stream :: SubscriptionStreamState

definition inbound_stream_id :: "SubscriptionDetails \<Rightarrow> YamuxStreamId option" where
  "inbound_stream_id p = ss_stream_id (their_stream p)"

definition outbound_stream_id :: "SubscriptionDetails \<Rightarrow> YamuxStreamId option" where
  "outbound_stream_id p = ss_stream_id (our_stream p)"

record ('r, 'w, 'z) Connection =
  cn_yamux :: "('r, 'w) YamuxMultistream"
  remote_id :: PeerId
  cn_our_id :: PeerId
  subscription_details :: "SubscriptionDetails list"
  request_details :: "'z RequestDetails list"
  incoming_requests :: "(YamuxStreamId, RequestProtocolId) btree"
  inflight_requests :: "(YamuxStreamId, RequestProtocolId \<times> RequestState) btree"
  next_buf :: "Message list"
  cn_finished :: bool

definition our_id :: "('r, 'w, 'z) Connection \<Rightarrow> PeerId" where
  "our_id c = cn_our_id c"

definition their_id :: "('r, 'w, 'z) Connection \<Rightarrow> PeerId" where
  "their_id c = remote_id c"

text \<open>\<open>iter_mut().find(P)\<close> and an update of what it found.\<close>

fun update_first :: "('a \<Rightarrow> bool) \<Rightarrow> ('a \<Rightarrow> 'a) \<Rightarrow> 'a list \<Rightarrow> 'a list" where
  "update_first P f [] = []"
| "update_first P f (x # xs) = (if P x then f x # xs else x # update_first P f xs)"

section \<open>Operations\<close>

definition conn_request ::
  "('p, 'z) PlatformT \<Rightarrow> 'p \<Rightarrow> RequestProtocolId \<Rightarrow> bytes \<Rightarrow> ('r, 'w, 'z) Connection
     \<Rightarrow> ((ConnectionError + RequestId) \<times> ('r, 'w, 'z) Connection) option" where
  "conn_request pf now protocol_id req c =
     (case List.find (\<lambda>p. rq_protocol_id p = protocol_id) (request_details c) of
        None \<Rightarrow> Some (Inl (RequestProtocolNotFound protocol_id), c)
      | Some p \<Rightarrow>
          (case ym_open_stream [rp_name (rq_protocol p)]
                  (rp_max_response_size_in_bytes (rq_protocol p)) (cn_yamux c) of
             None \<Rightarrow> None
           | Some (Inl e, y) \<Rightarrow>
               Some (Inl (ConnProtocolError (PYamuxMultistream e)), c\<lparr>cn_yamux := y\<rparr>)
           | Some (Inr stream_id, y) \<Rightarrow>
               Some (Inr (RequestId stream_id),
                 c\<lparr>cn_yamux := y,
                   request_details := update_first (\<lambda>p. rq_protocol_id p = protocol_id)
                     (\<lambda>p. p\<lparr>rq_timeouts := map_option (timers_add pf now stream_id) (rq_timeouts p)\<rparr>)
                     (request_details c),
                   inflight_requests := bt_insert stream_id
                     (protocol_id, AwaitingProtocolConfirmation req) (inflight_requests c)\<rparr>)))"

definition conn_cancel_request :: "RequestId \<Rightarrow> ('r, 'w, 'z) Connection \<Rightarrow> ('r, 'w, 'z) Connection" where
  "conn_cancel_request rid c =
     (case rid of RequestId i \<Rightarrow>
        (case bt_get (inflight_requests c) i of
           None \<Rightarrow> c
         | Some (protocol_id, _) \<Rightarrow>
             c\<lparr>inflight_requests := bt_remove i (inflight_requests c),
               cn_yamux := ym_reset_stream_immediately i (cn_yamux c),
               next_buf := next_buf c @ [MResponse rid protocol_id RsCancelled]\<rparr>))"

definition conn_respond ::
  "ResponseId \<Rightarrow> bytes \<Rightarrow> ('r, 'w, 'z) Connection \<Rightarrow> ('r, 'w, 'z) Connection option" where
  "conn_respond rid response c =
     (case rid of ResponseId i \<Rightarrow>
        (case ym_send_data i response (cn_yamux c) of
           None \<Rightarrow> None
         | Some (_, y) \<Rightarrow> Some (c\<lparr>cn_yamux := ym_close_stream i y\<rparr>)))"

definition conn_subscribe ::
  "SubscriptionProtocolId \<Rightarrow> ('r, 'w, 'z) Connection
     \<Rightarrow> ((ConnectionError + unit) \<times> ('r, 'w, 'z) Connection) option" where
  "conn_subscribe protocol_id c =
     (case List.find (\<lambda>p. sd_protocol_id p = protocol_id) (subscription_details c) of
        None \<Rightarrow> Some (Inl (SubscriptionProtocolNotFound protocol_id), c)
      | Some p \<Rightarrow>
          (if \<not> ss_is_closed (our_stream p) then Some (Inl (AlreadySubscribed (sd_protocol_id p)), c)
           else case ym_open_stream [sp_name (sd_protocol p)]
                  (sp_max_response_size_in_bytes (sd_protocol p)) (cn_yamux c) of
             None \<Rightarrow> None
           | Some (Inl e, y) \<Rightarrow>
               Some (Inl (ConnProtocolError (PYamuxMultistream e)), c\<lparr>cn_yamux := y\<rparr>)
           | Some (Inr stream_id, y) \<Rightarrow>
               Some (Inr (),
                 c\<lparr>cn_yamux := y,
                   subscription_details := update_first (\<lambda>p. sd_protocol_id p = protocol_id)
                     (\<lambda>p. p\<lparr>our_stream := SsHandshake stream_id\<rparr>) (subscription_details c)\<rparr>)))"

definition conn_send_notification ::
  "SubscriptionProtocolId \<Rightarrow> bytes \<Rightarrow> ('r, 'w, 'z) Connection
     \<Rightarrow> ((ConnectionError + unit) \<times> ('r, 'w, 'z) Connection) option" where
  "conn_send_notification protocol_id notif c =
     (case List.find (\<lambda>p. sd_protocol_id p = protocol_id) (subscription_details c) of
        None \<Rightarrow> Some (Inl (SubscriptionProtocolNotFound protocol_id), c)
      | Some p \<Rightarrow>
          (case our_stream p of
             SsClosed \<Rightarrow> Some (Inl (SubscriptionClosed protocol_id), c)
           | SsHandshake _ \<Rightarrow> Some (Inl (SubscriptionNotReady protocol_id), c)
           | SsOpen stream_id \<Rightarrow>
               (case ym_send_data stream_id notif (cn_yamux c) of
                  None \<Rightarrow> None
                | Some (Inl e, y) \<Rightarrow>
                    Some (Inl (ConnProtocolError (PYamuxMultistream e)), c\<lparr>cn_yamux := y\<rparr>)
                | Some (Inr _, y) \<Rightarrow> Some (Inr (), c\<lparr>cn_yamux := y\<rparr>))))"

definition ym_reset_opt ::
  "YamuxStreamId option \<Rightarrow> ('r, 'w) YamuxMultistream \<Rightarrow> ('r, 'w) YamuxMultistream" where
  "ym_reset_opt i y = (case i of Some j \<Rightarrow> ym_reset_stream_immediately j y | None \<Rightarrow> y)"

definition cancel_subscription_silently ::
  "SubscriptionProtocolId \<Rightarrow> ('r, 'w, 'z) Connection \<Rightarrow> bool \<times> ('r, 'w, 'z) Connection" where
  "cancel_subscription_silently pid c =
     (case List.find (\<lambda>p. sd_protocol_id p = pid) (subscription_details c) of
        None \<Rightarrow> (False, c)
      | Some p \<Rightarrow>
          (True,
           c\<lparr>cn_yamux := ym_reset_opt (ss_stream_id (their_stream p))
               (ym_reset_opt (ss_stream_id (our_stream p)) (cn_yamux c)),
             subscription_details := update_first (\<lambda>p. sd_protocol_id p = pid)
               (\<lambda>p. p\<lparr>our_stream := SsClosed, their_stream := SsClosed\<rparr>) (subscription_details c)\<rparr>))"

definition conn_cancel_subscription ::
  "SubscriptionProtocolId \<Rightarrow> ('r, 'w, 'z) Connection \<Rightarrow> ('r, 'w, 'z) Connection" where
  "conn_cancel_subscription pid c0 =
     (case cancel_subscription_silently pid c0 of
        (True, c) \<Rightarrow> c\<lparr>next_buf := next_buf c @ [MNotification pid SrClosed]\<rparr>
      | (False, c) \<Rightarrow> c)"

section \<open>The next message\<close>

fun handle_request_timeouts_loop ::
  "('p, 'z) PlatformT \<Rightarrow> 'p \<Rightarrow> 'z RequestDetails list
     \<Rightarrow> (YamuxStreamId, RequestProtocolId \<times> RequestState) btree
     \<Rightarrow> (YamuxStreamId \<times> RequestProtocolId) option \<times> 'z RequestDetails list \<times>
        (YamuxStreamId, RequestProtocolId \<times> RequestState) btree" where
  "handle_request_timeouts_loop pf now [] inflight = (None, [], inflight)"
| "handle_request_timeouts_loop pf now (details # ds) inflight =
     (let continue = (\<lambda>details. case handle_request_timeouts_loop pf now ds inflight of
            (r, ds', inflight') \<Rightarrow> (r, details # ds', inflight'))
      in case rq_timeouts details of
        None \<Rightarrow> continue details
      | Some timeouts \<Rightarrow>
          (case timers_try_next pf now timeouts of
             (r, timeouts') \<Rightarrow>
               (let details' = details\<lparr>rq_timeouts := Some timeouts'\<rparr> in
                case r of
                  None \<Rightarrow> continue details'
                | Some stream_id \<Rightarrow>
                    (case bt_get inflight stream_id of
                       None \<Rightarrow> continue details'
                     | Some (protocol_id, _) \<Rightarrow>
                         (Some (stream_id, protocol_id), details' # ds,
                          bt_remove stream_id inflight)))))"

definition handle_request_timeouts ::
  "('p, 'z) PlatformT \<Rightarrow> 'p \<Rightarrow> ('r, 'w, 'z) Connection \<Rightarrow> Message option \<times> ('r, 'w, 'z) Connection" where
  "handle_request_timeouts pf now c =
     (case handle_request_timeouts_loop pf now (request_details c) (inflight_requests c) of
        (r, ds, inflight) \<Rightarrow>
          (let c' = c\<lparr>request_details := ds, inflight_requests := inflight\<rparr> in
           case r of
             None \<Rightarrow> (None, c')
           | Some (stream_id, protocol_id) \<Rightarrow>
               (Some (MResponse (RequestId stream_id) protocol_id (RsError RrTimeout)),
                c'\<lparr>cn_yamux := ym_reset_stream_immediately stream_id (cn_yamux c')\<rparr>)))"

datatype conn_outcome =
    CnContinue
  | CnReturn "StreamError + Message option"
  | CnPending
  | CnPanic
  | CnOutOfFuel

abbreviation cn_message :: "Message \<Rightarrow> conn_outcome" where
  "cn_message m \<equiv> CnReturn (Inr (Some m))"

text \<open>\<open>?\<close> on a call of the multistream layer.\<close>

definition conn_try ::
  "((ms_error + 'a) \<times> ('r, 'w) YamuxMultistream) option
     \<Rightarrow> ('a \<Rightarrow> ('r, 'w, 'z) Connection \<Rightarrow> conn_outcome \<times> ('r, 'w, 'z) Connection)
     \<Rightarrow> ('r, 'w, 'z) Connection \<Rightarrow> conn_outcome \<times> ('r, 'w, 'z) Connection" where
  "conn_try r k c =
     (case r of
        None \<Rightarrow> (CnPanic, c)
      | Some (Inl e, y) \<Rightarrow>
          (CnReturn (Inl (StreamProtocolError (PYamuxMultistream e))), c\<lparr>cn_yamux := y\<rparr>)
      | Some (Inr a, y) \<Rightarrow> k a (c\<lparr>cn_yamux := y\<rparr>))"

text \<open>A message on a request stream on which one response is expected.\<close>

definition inflight_reply ::
  "YamuxStreamId \<Rightarrow> RequestProtocolId \<Rightarrow> RequestResponse \<Rightarrow> bool \<Rightarrow> ('r, 'w, 'z) Connection
     \<Rightarrow> conn_outcome \<times> ('r, 'w, 'z) Connection" where
  "inflight_reply stream_id protocol_id res reset c =
     (cn_message (MResponse (RequestId stream_id) protocol_id res),
      c\<lparr>inflight_requests := bt_remove stream_id (inflight_requests c),
        cn_yamux := (if reset then ym_reset_stream_immediately stream_id (cn_yamux c) else cn_yamux c)\<rparr>)"

definition on_inflight ::
  "YamuxStreamId \<Rightarrow> RequestProtocolId \<Rightarrow> RequestState \<Rightarrow> MsOutputState \<Rightarrow> ('r, 'w, 'z) Connection
     \<Rightarrow> conn_outcome \<times> ('r, 'w, 'z) Connection" where
  "on_inflight stream_id protocol_id info st c =
     (case info of
        AwaitingProtocolConfirmation req \<Rightarrow>
          (case st of
             OutgoingAccepted _ \<Rightarrow>
               conn_try (ym_send_data stream_id req (cn_yamux c))
                 (\<lambda>_ c. (CnContinue,
                    c\<lparr>cn_yamux := ym_close_stream stream_id (cn_yamux c),
                      inflight_requests := bt_insert stream_id (protocol_id, AwaitingResponsePayload)
                        (inflight_requests c)\<rparr>))
                 (c\<lparr>inflight_requests := bt_insert stream_id
                      (protocol_id, AwaitingProtocolConfirmation []) (inflight_requests c)\<rparr>)
           | OutgoingRejected \<Rightarrow>
               inflight_reply stream_id protocol_id (RsError RrProtocolRejected) False c
           | _ \<Rightarrow> inflight_reply stream_id protocol_id (RsError RrMultistreamProtocolError) True c)
      | AwaitingResponsePayload \<Rightarrow>
          (case st of
             MsData bytes \<Rightarrow> inflight_reply stream_id protocol_id (RsValue bytes) True c
           | MsClosed CrClosedByRemote \<Rightarrow>
               inflight_reply stream_id protocol_id (RsError RrClosedByRemote) True c
           | MsClosed IncomingMessageTooLarge \<Rightarrow>
               inflight_reply stream_id protocol_id (RsError RrRemotePayloadTooLarge) False c
           | _ \<Rightarrow> inflight_reply stream_id protocol_id (RsError RrMultistreamProtocolError) True c))"

text \<open>A message on an incoming request stream, already removed from the table.\<close>

definition on_incoming_request ::
  "YamuxStreamId \<Rightarrow> RequestProtocolId \<Rightarrow> MsOutputState \<Rightarrow> ('r, 'w, 'z) Connection
     \<Rightarrow> conn_outcome \<times> ('r, 'w, 'z) Connection" where
  "on_incoming_request stream_id protocol_id st c =
     (let reply = (\<lambda>req. (cn_message (MRequest (ResponseId stream_id) protocol_id req), c)) in
      case st of
        MsData payload \<Rightarrow> reply (RqValue payload)
      | MsClosed CrClosedByRemote \<Rightarrow> reply RqCancelled
      | MsClosed IncomingMessageTooLarge \<Rightarrow> reply RqErrorPayloadTooLarge
      | _ \<Rightarrow> (CnContinue, c\<lparr>cn_yamux := ym_reset_stream_immediately stream_id (cn_yamux c)\<rparr>))"

text \<open>Give up a subscription and tell the user why.\<close>

definition sub_end ::
  "SubscriptionProtocolId \<Rightarrow> SubscriptionResponse \<Rightarrow> ('r, 'w, 'z) Connection
     \<Rightarrow> conn_outcome \<times> ('r, 'w, 'z) Connection" where
  "sub_end protocol_id res c =
     (cn_message (MNotification protocol_id res), snd (cancel_subscription_silently protocol_id c))"

text \<open>Tell the user once both streams of a subscription are open; \<open>p\<close> is its updated entry.\<close>

definition sub_opened ::
  "SubscriptionDetails \<Rightarrow> ('r, 'w, 'z) Connection \<Rightarrow> conn_outcome \<times> ('r, 'w, 'z) Connection" where
  "sub_opened p c =
     (if ss_is_open (our_stream p) \<and> ss_is_open (their_stream p)
      then (cn_message (MNotification (sd_protocol_id p) SrOpened), c)
      else (CnContinue, c))"

text \<open>
  A message on the stream we opened for subscription \<open>p\<close>, the first entry that satisfies \<open>P\<close>.
\<close>

definition on_outbound ::
  "(SubscriptionDetails \<Rightarrow> bool) \<Rightarrow> SubscriptionDetails \<Rightarrow> MsOutputState \<Rightarrow> ('r, 'w, 'z) Connection
     \<Rightarrow> conn_outcome \<times> ('r, 'w, 'z) Connection" where
  "on_outbound P p st c =
     (let protocol_id = sd_protocol_id p in
      case our_stream p of
        SsHandshake stream_id \<Rightarrow>
          (case st of
             OutgoingAccepted _ \<Rightarrow>
               conn_try (ym_send_data stream_id (sp_our_handshake (sd_protocol p)) (cn_yamux c))
                 (\<lambda>_ c. (CnContinue, c)) c
           | OutgoingRejected \<Rightarrow> sub_end protocol_id (SrError SrProtocolRejected) c
           | MsData their_handshake \<Rightarrow>
               (if sp_validate_their_handshake (sd_protocol p) their_handshake then
                  (let p' = p\<lparr>our_stream := SsOpen stream_id\<rparr> in
                   sub_opened p' (c\<lparr>subscription_details :=
                     update_first P (\<lambda>_. p') (subscription_details c)\<rparr>))
                else sub_end protocol_id (SrError SrTheirHandshakeRejected) c)
           | MsClosed CrClosedByRemote \<Rightarrow> sub_end protocol_id (SrError SrOurHandshakeRejected) c
           | MsClosed IncomingMessageTooLarge \<Rightarrow>
               sub_end protocol_id (SrError SrRemotePayloadTooLarge) c
           | IncomingProtocol _ \<Rightarrow> sub_end protocol_id (SrError SrMultistreamProtocolError) c)
      | SsOpen _ \<Rightarrow>
          (case st of
             MsClosed CrClosedByRemote \<Rightarrow> sub_end protocol_id SrClosed c
           | MsClosed IncomingMessageTooLarge \<Rightarrow>
               sub_end protocol_id (SrError SrRemotePayloadTooLarge) c
           | _ \<Rightarrow> sub_end protocol_id (SrError SrMultistreamProtocolError) c)
      | SsClosed \<Rightarrow> (CnContinue, c))"

text \<open>
  A message on the stream the remote opened for subscription \<open>p\<close> (the first entry that satisfies
  \<open>P\<close>), or a remote stream that proposes its protocol.
\<close>

definition open_our_side ::
  "(SubscriptionDetails \<Rightarrow> bool) \<Rightarrow> SubscriptionDetails \<Rightarrow> ('r, 'w, 'z) Connection
     \<Rightarrow> conn_outcome \<times> ('r, 'w, 'z) Connection" where
  "open_our_side P p c =
     (if ss_is_closed (our_stream p) then
        conn_try (ym_open_stream [sp_name (sd_protocol p)]
            (sp_max_response_size_in_bytes (sd_protocol p)) (cn_yamux c))
          (\<lambda>stream_id c. (CnContinue, c\<lparr>subscription_details :=
             update_first P (\<lambda>_. p\<lparr>our_stream := SsHandshake stream_id\<rparr>) (subscription_details c)\<rparr>))
          (c\<lparr>subscription_details := update_first P (\<lambda>_. p) (subscription_details c)\<rparr>)
      else (CnContinue, c\<lparr>subscription_details := update_first P (\<lambda>_. p) (subscription_details c)\<rparr>))"

definition on_inbound ::
  "(SubscriptionDetails \<Rightarrow> bool) \<Rightarrow> SubscriptionDetails \<Rightarrow> YamuxStreamId \<Rightarrow> MsOutputState
     \<Rightarrow> ('r, 'w, 'z) Connection \<Rightarrow> conn_outcome \<times> ('r, 'w, 'z) Connection" where
  "on_inbound P p stream_id st c =
     (let protocol_id = sd_protocol_id p in
      case their_stream p of
        SsClosed \<Rightarrow>
          (if \<not> sp_allow_inbound (sd_protocol p) \<and> ss_is_closed (our_stream p)
           then (CnContinue, c\<lparr>cn_yamux := ym_reset_stream_immediately stream_id (cn_yamux c)\<rparr>)
           else conn_try (ym_accept_protocol stream_id
                    (sp_max_response_size_in_bytes (sd_protocol p)) (cn_yamux c))
                  (\<lambda>_. open_our_side P (p\<lparr>their_stream := SsHandshake stream_id\<rparr>)) c)
      | SsHandshake stream_id \<Rightarrow>
          (case st of
             MsData their_handshake \<Rightarrow>
               (if sp_validate_their_handshake (sd_protocol p) their_handshake then
                  conn_try (ym_send_data stream_id (sp_our_handshake (sd_protocol p)) (cn_yamux c))
                    (\<lambda>_ c. let p' = p\<lparr>their_stream := SsOpen stream_id\<rparr> in
                       sub_opened p' (c\<lparr>subscription_details :=
                         update_first P (\<lambda>_. p') (subscription_details c)\<rparr>)) c
                else sub_end protocol_id (SrError SrTheirHandshakeRejected) c)
           | MsClosed CrClosedByRemote \<Rightarrow> sub_end protocol_id SrClosed c
           | MsClosed IncomingMessageTooLarge \<Rightarrow>
               sub_end protocol_id (SrError SrRemotePayloadTooLarge) c
           | _ \<Rightarrow> sub_end protocol_id (SrError SrMultistreamProtocolError) c)
      | SsOpen _ \<Rightarrow>
          (case st of
             MsData data \<Rightarrow> (cn_message (MNotification protocol_id (SrValue data)), c)
           | MsClosed CrClosedByRemote \<Rightarrow> sub_end protocol_id SrClosed c
           | MsClosed IncomingMessageTooLarge \<Rightarrow>
               sub_end protocol_id (SrError SrRemotePayloadTooLarge) c
           | _ \<Rightarrow> sub_end protocol_id (SrError SrMultistreamProtocolError) c))"

text \<open>A stream that nothing is known about.\<close>

definition on_unknown ::
  "YamuxStreamId \<Rightarrow> MsOutputState \<Rightarrow> ('r, 'w, 'z) Connection
     \<Rightarrow> conn_outcome \<times> ('r, 'w, 'z) Connection" where
  "on_unknown stream_id st c =
     (case st of
        IncomingProtocol _ \<Rightarrow>
          conn_try (ym_reject_protocol stream_id (cn_yamux c)) (\<lambda>_ c. (CnContinue, c)) c
      | MsClosed _ \<Rightarrow> (CnContinue, c)
      | _ \<Rightarrow> (CnContinue, c\<lparr>cn_yamux := ym_reset_stream_immediately stream_id (cn_yamux c)\<rparr>))"

definition proposes :: "MsOutputState \<Rightarrow> utf8_string \<Rightarrow> bool" where
  "proposes st name = (case st of IncomingProtocol n \<Rightarrow> n = name | _ \<Rightarrow> False)"

definition is_outbound :: "YamuxStreamId \<Rightarrow> SubscriptionDetails \<Rightarrow> bool" where
  "is_outbound i p = (outbound_stream_id p = Some i)"

definition is_inbound :: "YamuxStreamId \<Rightarrow> MsOutputState \<Rightarrow> SubscriptionDetails \<Rightarrow> bool" where
  "is_inbound i st p = (inbound_stream_id p = Some i \<or> proposes st (sp_name (sd_protocol p)))"

definition serves :: "MsOutputState \<Rightarrow> 'z RequestDetails \<Rightarrow> bool" where
  "serves st r = (rp_allow_inbound (rq_protocol r) \<and> proposes st (rp_name (rq_protocol r)))"

definition conn_dispatch ::
  "MsOutput \<Rightarrow> ('r, 'w, 'z) Connection \<Rightarrow> conn_outcome \<times> ('r, 'w, 'z) Connection" where
  "conn_dispatch out c =
     (let i = mo_stream_id out; st = mo_state out in
      case bt_get (inflight_requests c) i of
        Some (protocol_id, info) \<Rightarrow> on_inflight i protocol_id info st c
      | None \<Rightarrow>
      (case bt_get (incoming_requests c) i of
         Some protocol_id \<Rightarrow>
           on_incoming_request i protocol_id st
             (c\<lparr>incoming_requests := bt_remove i (incoming_requests c)\<rparr>)
       | None \<Rightarrow>
      (case List.find (is_outbound i) (subscription_details c) of
         Some p \<Rightarrow> on_outbound (is_outbound i) p st c
       | None \<Rightarrow>
      (case List.find (is_inbound i st) (subscription_details c) of
         Some p \<Rightarrow> on_inbound (is_inbound i st) p i st c
       | None \<Rightarrow>
      (case List.find (serves st) (request_details c) of
         Some r \<Rightarrow>
           conn_try (ym_accept_protocol i (rp_max_response_size_in_bytes (rq_protocol r)) (cn_yamux c))
             (\<lambda>_ c. (CnContinue, c\<lparr>incoming_requests :=
                bt_insert i (rq_protocol_id r) (incoming_requests c)\<rparr>)) c
       | None \<Rightarrow> on_unknown i st c)))))"

text \<open>
  From the await point on: \<open>u\<close> are the \<open>work_units\<close> of the multistream future being polled,
  \<open>fuel\<close> and \<open>k\<close> bound its work.
\<close>

definition conn_await ::
  "'r read_op \<Rightarrow> 'w write_op \<Rightarrow> (bytes \<Rightarrow> nat) \<Rightarrow> nat \<Rightarrow> nat \<Rightarrow> nat \<Rightarrow> ('r, 'w, 'z) Connection
     \<Rightarrow> conn_outcome \<times> nat \<times> ('r, 'w, 'z) Connection" where
  "conn_await rd wr sl fuel k u c0 =
     (case ym_next rd wr sl fuel k u (cn_yamux c0) of
        Panic \<Rightarrow> (CnPanic, 0, c0)
      | OutOfFuel \<Rightarrow> (CnOutOfFuel, 0, c0)
      | Done (p, u', y) \<Rightarrow>
          (let c = c0\<lparr>cn_yamux := y\<rparr> in
           case p of
             Pending \<Rightarrow> (CnPending, u', c)
           | Ready None \<Rightarrow> (CnReturn (Inr None), 0, c)
           | Ready (Some (Inl e)) \<Rightarrow>
               (CnReturn (Inl (StreamProtocolError (PYamuxMultistream e))), 0, c)
           | Ready (Some (Inr out)) \<Rightarrow>
               (case conn_dispatch out c of (r, c') \<Rightarrow> (r, 0, c'))))"

text \<open>The part of the loop body before the await point.\<close>

definition conn_top ::
  "('p, 'z) PlatformT \<Rightarrow> 'p \<Rightarrow> ('r, 'w, 'z) Connection \<Rightarrow> Message option \<times> ('r, 'w, 'z) Connection" where
  "conn_top pf now c =
     (case next_buf c of
        message # rest \<Rightarrow> (Some message, c\<lparr>next_buf := rest\<rparr>)
      | [] \<Rightarrow> handle_request_timeouts pf now c)"

text \<open>
  One poll of \<open>next_inner\<close>. \<open>fut\<close> is \<open>None\<close> for a new future and \<open>Some u\<close> for one suspended at the
  await point; \<open>n\<close> bounds the iterations and \<open>clk n\<close> is the platform's state in the iteration
  with \<open>n\<close> more to go.
\<close>

fun conn_next_inner ::
  "('p, 'z) PlatformT \<Rightarrow> (nat \<Rightarrow> 'p) \<Rightarrow> 'r read_op \<Rightarrow> 'w write_op \<Rightarrow> (bytes \<Rightarrow> nat) \<Rightarrow> nat \<Rightarrow> nat \<Rightarrow> nat
     \<Rightarrow> nat option \<Rightarrow> ('r, 'w, 'z) Connection
     \<Rightarrow> ((StreamError + Message option) poll \<times> nat option \<times> ('r, 'w, 'z) Connection) run" where
  "conn_next_inner pf clk rd wr sl fuel k 0 fut c = OutOfFuel"
| "conn_next_inner pf clk rd wr sl fuel k (Suc n) fut c =
     (case (case fut of Some u \<Rightarrow> (None, c) | None \<Rightarrow> conn_top pf (clk n) c) of
        (Some message, c1) \<Rightarrow> Done (Ready (Inr (Some message)), None, c1)
      | (None, c1) \<Rightarrow>
          (case conn_await rd wr sl fuel k (case fut of Some u \<Rightarrow> u | None \<Rightarrow> 0) c1 of
             (CnContinue, _, c2) \<Rightarrow> conn_next_inner pf clk rd wr sl fuel k n None c2
           | (CnReturn r, _, c2) \<Rightarrow> Done (Ready r, None, c2)
           | (CnPending, u, c2) \<Rightarrow> Done (Pending, Some u, c2)
           | (CnPanic, _, _) \<Rightarrow> Panic
           | (CnOutOfFuel, _, _) \<Rightarrow> OutOfFuel))"

text \<open>
  One poll of \<open>next\<close>: a new future looks at \<open>finished\<close> first, a suspended one is beyond that test.
\<close>

definition conn_next ::
  "('p, 'z) PlatformT \<Rightarrow> (nat \<Rightarrow> 'p) \<Rightarrow> 'r read_op \<Rightarrow> 'w write_op \<Rightarrow> (bytes \<Rightarrow> nat) \<Rightarrow> nat \<Rightarrow> nat \<Rightarrow> nat
     \<Rightarrow> nat option \<Rightarrow> ('r, 'w, 'z) Connection
     \<Rightarrow> ((StreamError + Message) option poll \<times> nat option \<times> ('r, 'w, 'z) Connection) run" where
  "conn_next pf clk rd wr sl fuel k n fut c =
     (if fut = None \<and> cn_finished c then Done (Ready None, None, c)
      else case conn_next_inner pf clk rd wr sl fuel k n fut c of
        Panic \<Rightarrow> Panic
      | OutOfFuel \<Rightarrow> OutOfFuel
      | Done (Pending, fut', c') \<Rightarrow> Done (Pending, fut', c')
      | Done (Ready (Inr None), _, c') \<Rightarrow> Done (Ready None, None, c'\<lparr>cn_finished := True\<rparr>)
      | Done (Ready (Inl e), _, c') \<Rightarrow> Done (Ready (Some (Inl e)), None, c'\<lparr>cn_finished := True\<rparr>)
      | Done (Ready (Inr (Some msg)), _, c') \<Rightarrow> Done (Ready (Some (Inr msg)), None, c'))"

section \<open>Connecting\<close>

definition connection_tables ::
  "Configuration \<Rightarrow> SubscriptionDetails list \<times> 'z RequestDetails list" where
  "connection_tables config =
     (map (\<lambda>(pid, p). \<lparr>sd_protocol_id = SubscriptionProtocolId (opaque_get pid), sd_protocol = p,
             our_stream = SsClosed, their_stream = SsClosed\<rparr>)
        (List.map_filter (\<lambda>(pid, p). map_option (Pair pid) (as_subscription p)) (protocols config)),
      map (\<lambda>(pid, p). \<lparr>rq_protocol_id = RequestProtocolId (opaque_get pid), rq_protocol = p,
             rq_timeouts = map_option timers_new (rp_timeout p)\<rparr>)
        (List.map_filter (\<lambda>(pid, p). map_option (Pair pid) (as_request p)) (protocols config)))"

definition connection_identity ::
  "('p, 'z) PlatformT \<Rightarrow> 'p \<Rightarrow> 'k Ed25519 \<Rightarrow> Configuration \<Rightarrow> 'k Identity" where
  "connection_identity pf now ed config =
     (case identity_secret config of
        Some key \<Rightarrow> Identity_from_random_bytes ed key
      | None \<Rightarrow> Identity_from_random_bytes ed (fill_with_random_bytes pf now 32))"

end
