(* ===== verification/SessionEffects.thy ===== *)
theory SessionEffects
  imports YamuxMultistream
begin

text \<open>
  What the multistream layer does to the yamux session below it. It only touches the session by
  calling its operations, so that every relation that these keep is kept by the layer's own
  operations and by its \<open>next\<close>. The locales say this once: \<open>session_effects\<close> for what neither
  polls nor opens streams, \<open>session_polls\<close> and \<open>session_opens\<close> for the two extensions.
\<close>

locale session_effects =
  fixes Q :: "('r, 'w) YamuxSession \<Rightarrow> ('r, 'w) YamuxSession \<Rightarrow> bool"
  assumes Q_refl: "Q s s"
    and Q_trans: "Q s s' \<Longrightarrow> Q s' s'' \<Longrightarrow> Q s s''"
    and Q_send: "session_send_data i d s = (r, s') \<Longrightarrow> Q s s'"
    and Q_close: "Q s (on_shared (yamux_close_stream i) s)"
    and Q_reset: "Q s (on_shared (yamux_reset_stream_immediately i) s)"
begin

lemma send_all_effect: "send_all i cs s = (r, s') \<Longrightarrow> Q s s'"
proof (induction cs arbitrary: s)
  case (Cons c cs)
  obtain r1 s1 where s1: "session_send_data i c s = (r1, s1)" by fastforce
  with Cons Q_send [OF s1] show ?case by (cases r1) (auto intro: Q_trans)
qed (simp add: Q_refl)

lemma send_chunks_effect: "send_chunks i len cs m = Some (r, m') \<Longrightarrow> Q (ym_inner m) (ym_inner m')"
  by (erule send_chunks_inner) (simp add: send_all_effect del: send_all.simps)

lemma sends_effect:
  "send_multistream_data i d m = Some (r, m') \<Longrightarrow> Q (ym_inner m) (ym_inner m')"
  "send_multistream_data_with_newline i d m = Some (r, m') \<Longrightarrow> Q (ym_inner m) (ym_inner m')"
  by (simp_all add: send_multistream_data_def send_multistream_data_with_newline_def send_chunks_effect)

lemma inner_set [simp]: "ym_inner (ym_set i e m) = ym_inner m"
  by (simp add: ym_set_def)

lemma ops_effect:
  "ym_send_data i d m = Some (r, m') \<Longrightarrow> Q (ym_inner m) (ym_inner m')"
  "ym_accept_protocol i n m = Some (r, m') \<Longrightarrow> Q (ym_inner m) (ym_inner m')"
  "ym_reject_protocol i m = Some (r, m') \<Longrightarrow> Q (ym_inner m) (ym_inner m')"
  by (auto simp: ym_send_data_def ym_accept_protocol_def ym_reject_protocol_def Q_refl dest: sends_effect
      split: option.splits if_splits MultistreamState.splits)

lemma close_effect: "Q (ym_inner m) (ym_inner (ym_close_stream i m))"
  by (simp add: ym_close_stream_def Q_close Q_refl split: option.split)

lemma reset_effect: "Q (ym_inner m) (ym_inner (ym_reset_stream_immediately i m))"
  by (simp add: ym_reset_stream_immediately_def Q_reset)

lemma after_send_effect:
  assumes "ym_inner m0 = ym_inner m"
  shows "Q (ym_inner m) (ym_inner (snd (ms_after_send (send_multistream_data i d m) m0)))"
    and "Q (ym_inner m) (ym_inner (snd (ms_after_send (send_multistream_data_with_newline i d m) m0)))"
  using assms by (auto simp: ms_after_send_def Q_refl dest: sends_effect split: option.splits prod.splits sum.splits)

lemma after_send_set_effect:
  "Q (ym_inner m) (ym_inner (snd (ms_after_send (send_multistream_data i d (ym_set j e m)) (ym_set j e m))))"
  "Q (ym_inner m) (ym_inner (snd (ms_after_send (send_multistream_data_with_newline i d (ym_set j e m)) (ym_set j e m))))"
  using after_send_effect [of "ym_set j e m" "ym_set j e m"] by simp_all

lemma message_effect: "Q (ym_inner m) (ym_inner (snd (ym_message i e msg m)))"
  by (auto simp: ym_message_def Let_def after_send_set_effect reset_effect Q_refl
      split: MultistreamState.splits option.splits list.splits)

lemma drain_effect:
  assumes "ym_drain i u m = (st, u', m')" shows "Q (ym_inner m) (ym_inner m')"
proof -
  have "Q (ym_inner m1) (ym_inner m2)" if "ym_message i e msg m1 = (st1, m2)" for e msg m1 st1 m2
    using message_effect [of m1 i e msg] that by simp
  with assms show ?thesis
    by (fastforce simp: ym_drain_def Let_def Q_refl split: option.splits sum.splits prod.splits)
qed

lemma yamux_output_effect: "ym_yamux_output out m = (r, m') \<Longrightarrow> Q (ym_inner m) (ym_inner m')"
  by (auto simp: ym_yamux_output_def Let_def reset_effect Q_refl split: OutputState.splits option.splits if_splits)

end

locale session_polls = session_effects +
  fixes rd and wr and sl
  assumes Q_next: "yamux_next rd wr sl fuel s = Done (p, s') \<Longrightarrow> Q s s'"
begin

lemma pull_effect:
  assumes pl: "ym_pull rd wr sl fuel u m = (r, u', m')" shows "Q (ym_inner m) (ym_inner m')"
proof (cases "read_from_stream_buffer m")
  case None
  show ?thesis
  proof (cases "yamux_next rd wr sl fuel (ym_inner m)")
    case (Done x)
    obtain p s where x: "x = (p, s)" by fastforce
    have s: "Q (ym_inner m) s" using Q_next Done x by simp
    have out: "ym_yamux_output out (m\<lparr>ym_inner := s\<rparr>) = (r1, m1) \<Longrightarrow> Q (ym_inner m) (ym_inner m1)" for out r1 m1
      using Q_trans [OF s] yamux_output_effect [of out "m\<lparr>ym_inner := s\<rparr>" r1 m1] by simp
    from pl None Done x s show ?thesis
      by (auto simp: ym_pull_def Let_def dest: out split: poll.splits option.splits sum.splits prod.splits)
  qed (use pl None in \<open>simp_all add: ym_pull_def Q_refl\<close>)
qed (use pl in \<open>auto simp: ym_pull_def Let_def Q_refl\<close>)

lemma iter_effect: "ym_iter rd wr sl fuel u m = (st, u', m') \<Longrightarrow> Q (ym_inner m) (ym_inner m')"
  by (auto simp: ym_iter_def dest!: pull_effect dest: drain_effect intro: Q_trans split: prod.splits sum.splits)

lemma next_inner_effect: "ym_next_inner rd wr sl fuel k u m = Done (p, u', m') \<Longrightarrow> Q (ym_inner m) (ym_inner m')"
proof (induction k arbitrary: u m)
  case (Suc k)
  obtain st u1 m1 where it: "ym_iter rd wr sl fuel u m = (st, u1, m1)" by (metis prod_cases3)
  with Suc iter_effect [OF it] show ?case by (cases st) (auto simp: Q_refl intro: Q_trans split: if_splits)
qed simp

lemma next_effect: "ym_next rd wr sl fuel k u m = Done (p, u', m') \<Longrightarrow> Q (ym_inner m) (ym_inner m')"
  by (auto simp: ym_next_def dest: next_inner_effect split: run.splits prod.splits poll.splits)

end

locale session_opens = session_effects +
  assumes Q_open: "session_open_stream s = Some (i, s') \<Longrightarrow> Q s s'"
begin

lemma open_effect:
  assumes "ym_open_stream ps n m = Some (r, m')" shows "Q (ym_inner m) (ym_inner m')"
proof -
  obtain i s where op: "session_open_stream (ym_inner m) = Some (i, s)"
    using assms by (auto simp: ym_open_stream_def split: option.splits)
  have s: "Q (ym_inner m) s" by (rule Q_open [OF op])
  have "send_multistream_data i d (m\<lparr>ym_inner := s\<rparr>) = Some (r1, m1) \<Longrightarrow> Q (ym_inner m) (ym_inner m1)" for d r1 m1
    using Q_trans [OF s] sends_effect(1) [of i d "m\<lparr>ym_inner := s\<rparr>" r1 m1] by simp
  moreover have "Q (ym_inner m) (ym_inner m1) \<Longrightarrow> send_multistream_data_with_newline i d m1 = Some (r2, m2) \<Longrightarrow>
      Q (ym_inner m) (ym_inner m2)" for d m1 r2 m2
    using Q_trans sends_effect(2) by blast
  ultimately show ?thesis
    using assms op s
    by (fastforce simp: ym_open_stream_def Let_def split: list.splits option.splits sum.splits prod.splits)
qed

end

section \<open>The next identifier\<close>

text \<open>Only opening a stream moves the identifier of the next one.\<close>

interpretation same_id: session_polls "\<lambda>s s'. next_stream_id s' = next_stream_id s" rd wr sl
  by unfold_locales
     (auto simp: session_send_data_def on_shared_def yamux_next_def yamux_next_inner_def Let_def
       split: if_splits run.splits prod.splits poll.splits sum.splits option.splits OutputState.splits)

section \<open>The invariant of the session\<close>

lemma yamux_inv_session_send: "session_send_data i d s = (r, s') \<Longrightarrow> yamux_inv s \<Longrightarrow> yamux_inv s'"
  using yamux_inv_api(1) [of s i d] by (auto simp: session_send_data_def split: prod.splits)

interpretation kept_inv: session_opens "\<lambda>s s'. yamux_inv s \<longrightarrow> yamux_inv s'"
  by unfold_locales (auto simp: yamux_inv_api(2,4) dest: yamux_inv_session_send yamux_inv_open)

end
