(* ===== verification/ConnectionRuns.thy ===== *)
theory ConnectionRuns
  imports Connection SessionEffects
begin

text \<open>
  Runs of a connection: everything its user, its transport and its platform can do, in any order,
  with the requests it issues and the messages it hands out. On top of them the contract that the
  documentation of \<open>request\<close> gives: at most one response per request, for every request.

  Locale \<open>ledger\<close> is that contract for any system that issues tickets in increasing order and
  answers them. Connections are interpreted as such a system in section \<open>Requests\<close>.
\<close>

section \<open>Runs\<close>

inductive trace :: "('s \<Rightarrow> 'l \<Rightarrow> 's \<Rightarrow> bool) \<Rightarrow> 's \<Rightarrow> 'l list \<Rightarrow> 's \<Rightarrow> bool" for step s where
  trace_nil: "trace step s [] s"
| trace_step: "trace step s ls t \<Longrightarrow> step t l u \<Longrightarrow> trace step s (ls @ [l]) u"

locale ledger =
  fixes step :: "'s \<Rightarrow> 'l \<Rightarrow> 's \<Rightarrow> bool"
    and issued :: "'l \<Rightarrow> 'i::linorder list"
    and answered :: "'l \<Rightarrow> 'i list"
    and pending :: "'s \<Rightarrow> 'i \<Rightarrow> nat"
    and bound :: "'s \<Rightarrow> 'i"
  assumes conserve: "step s l t \<Longrightarrow> (\<And>j. bound s \<le> j \<Longrightarrow> pending s j = 0) \<Longrightarrow>
      pending t i + count_list (answered l) i = pending s i + count_list (issued l) i"
    and issue_fresh: "step s l t \<Longrightarrow> distinct (issued l) \<and> (\<forall>i \<in> set (issued l). bound s \<le> i \<and> i < bound t)"
    and bound_mono: "step s l t \<Longrightarrow> bound s \<le> bound t"
begin

definition balanced :: "'s \<Rightarrow> 'l list \<Rightarrow> bool" where
  "balanced s ls \<longleftrightarrow>
     (\<forall>i. pending s i + count_list (concat (map answered ls)) i = count_list (concat (map issued ls)) i) \<and>
     distinct (concat (map issued ls)) \<and> (\<forall>i \<in> set (concat (map issued ls)). i < bound s)"

lemma balanced_trace:
  assumes "trace step s ls t" and "\<And>i. pending s i = 0"
  shows "balanced t ls"
  using assms(1)
proof (induction rule: trace.induct)
  case (trace_nil)
  then show ?case using assms(2) by (simp add: balanced_def)
next
  case (trace_step ls t l u)
  define iss ans where "iss = concat (map issued ls)" and "ans = concat (map answered ls)"
  note defs = iss_def [symmetric] ans_def [symmetric]
  have bal: "pending t i + count_list ans i = count_list iss i" for i
    using trace_step.IH unfolding balanced_def defs by blast
  have dist: "distinct iss" and lt: "\<And>i. i \<in> set iss \<Longrightarrow> i < bound t"
    using trace_step.IH unfolding balanced_def defs by blast+
  have zero: "pending t j = 0" if "bound t \<le> j" for j
  proof -
    have "j \<notin> set iss" using lt [of j] that by auto
    then have "count_list iss j = 0" by (simp add: count_list_0_iff)
    with bal [of j] show ?thesis by simp
  qed
  have step: "pending u i + count_list (answered l) i = pending t i + count_list (issued l) i" for i
    by (rule conserve [OF trace_step.hyps(2) zero])
  note fr = issue_fresh [OF trace_step.hyps(2)]
  have "set iss \<inter> set (issued l) = {}" using lt fr by force
  moreover have "\<forall>i \<in> set (iss @ issued l). i < bound u"
    using lt fr bound_mono [OF trace_step.hyps(2)] by fastforce
  moreover have "pending u i + count_list (ans @ answered l) i = count_list (iss @ issued l) i" for i
    using step [of i] bal [of i] by simp
  ultimately have "(\<forall>i. pending u i + count_list (ans @ answered l) i = count_list (iss @ issued l) i) \<and>
      distinct (iss @ issued l) \<and> (\<forall>i \<in> set (iss @ issued l). i < bound u)"
    using dist fr by (simp del: set_append)
  then show ?case unfolding balanced_def by (simp only: map_append concat_append defs) simp
qed

lemma count_distinct_le: "distinct xs \<Longrightarrow> count_list xs i \<le> 1"
  by (induction xs) (auto simp: count_list_0_iff)

lemma exactly_once:
  assumes "trace step s ls t" and "\<And>i. pending s i = 0"
  shows "if i \<in> set (concat (map issued ls))
    then count_list (concat (map answered ls)) i + pending t i = 1
    else count_list (concat (map answered ls)) i = 0 \<and> pending t i = 0"
proof -
  let ?iss = "concat (map issued ls)" and ?ans = "concat (map answered ls)"
  note b = balanced_trace [OF assms, unfolded balanced_def]
  have eq: "pending t i + count_list ?ans i = count_list ?iss i" and "distinct ?iss"
    using b by blast+
  then have "count_list ?iss i = (if i \<in> set ?iss then 1 else 0)"
    using count_distinct_le [of ?iss i] count_list_0_iff [of ?iss i] by (auto simp del: set_concat)
  with eq show ?thesis by (cases "i \<in> set ?iss") (simp_all del: set_concat)
qed

end

section \<open>Steps of a connection\<close>

datatype conn_label = LRequested YamuxStreamId | LMessage Message | LSilent

definition conn_wake :: "nat \<Rightarrow> ('r, 'w, 'z) Connection \<Rightarrow> ('r, 'w, 'z) Connection" where
  "conn_wake j c = c\<lparr>request_details := (request_details c)
     [j := (request_details c ! j)\<lparr>rq_timeouts := map_option timers_wake (rq_timeouts (request_details c ! j))\<rparr>]\<rparr>"

definition conn_set_reader :: "'r \<Rightarrow> ('r, 'w, 'z) Connection \<Rightarrow> ('r, 'w, 'z) Connection" where
  "conn_set_reader r c = c\<lparr>cn_yamux := (cn_yamux c)\<lparr>ym_inner := (ym_inner (cn_yamux c))
     \<lparr>ys_world := (ys_world (ym_inner (cn_yamux c)))\<lparr>yw_reader := r\<rparr>\<rparr>\<rparr>\<rparr>"

fun poll_label :: "(StreamError + Message) option poll \<Rightarrow> conn_label" where
  "poll_label (Ready (Some (Inr m))) = LMessage m"
| "poll_label _ = LSilent"

text \<open>
  A state is the connection with the suspended future of \<open>next\<close>, if there is one. Any other call
  needs the connection mutably, so the suspended future has been dropped.
\<close>

inductive conn_step ::
  "('p, 'z) PlatformT \<Rightarrow> 'r read_op \<Rightarrow> 'w write_op \<Rightarrow> (bytes \<Rightarrow> nat)
     \<Rightarrow> ('r, 'w, 'z) Connection \<times> nat option \<Rightarrow> conn_label \<Rightarrow> ('r, 'w, 'z) Connection \<times> nat option \<Rightarrow> bool"
  for pf rd wr sl where
  cs_request: "conn_request pf now pid req c = Some (Inr (RequestId i), c') \<Longrightarrow>
    conn_step pf rd wr sl (c, fut) (LRequested i) (c', None)"
| cs_request_err: "conn_request pf now pid req c = Some (Inl e, c') \<Longrightarrow>
    conn_step pf rd wr sl (c, fut) LSilent (c', None)"
| cs_cancel_request: "conn_step pf rd wr sl (c, fut) LSilent (conn_cancel_request rid c, None)"
| cs_respond: "conn_respond sid response c = Some c' \<Longrightarrow>
    conn_step pf rd wr sl (c, fut) LSilent (c', None)"
| cs_subscribe: "conn_subscribe spid c = Some (res, c') \<Longrightarrow>
    conn_step pf rd wr sl (c, fut) LSilent (c', None)"
| cs_send: "conn_send_notification spid notif c = Some (res, c') \<Longrightarrow>
    conn_step pf rd wr sl (c, fut) LSilent (c', None)"
| cs_cancel_subscription:
    "conn_step pf rd wr sl (c, fut) LSilent (conn_cancel_subscription spid c, None)"
| cs_next: "conn_next pf clk rd wr sl fuel k n fut c = Done (p, fut', c') \<Longrightarrow>
    conn_step pf rd wr sl (c, fut) (poll_label p) (c', fut')"
| cs_drop: "conn_step pf rd wr sl (c, fut) LSilent (c, None)"
| cs_wake: "conn_step pf rd wr sl (c, fut) LSilent (conn_wake j c, fut)"
| cs_transport: "conn_step pf rd wr sl (c, fut) LSilent (conn_set_reader r c, fut)"

text \<open>A connection as \<open>from_stream\<close> returns it.\<close>

definition fresh_connection :: "('r, 'w, 'z) Connection \<Rightarrow> bool" where
  "fresh_connection c \<longleftrightarrow> (\<exists>r w. cn_yamux c = ym_new (yamux_new r w)) \<and>
     incoming_requests c = bt_empty \<and> inflight_requests c = bt_empty \<and> next_buf c = [] \<and> \<not> cn_finished c \<and>
     (\<forall>p \<in> set (subscription_details c). our_stream p = SsClosed \<and> their_stream p = SsClosed)"

section \<open>Stream identifiers only grow\<close>

definition nid :: "('r, 'w) YamuxMultistream \<Rightarrow> YamuxStreamId" where
  "nid m = next_stream_id (ym_inner m)"

lemma nid_simps [simp]:
  "nid (ym_set i e m) = nid m"
  "nid (m\<lparr>read_from_stream_buffer := r\<rparr>) = nid m"
  "nid (m\<lparr>ym_bufs := b\<rparr>) = nid m"
  "nid (m\<lparr>ym_inner := s\<rparr>) = next_stream_id s"
  "next_stream_id (on_shared f s) = next_stream_id s"
  by (simp_all add: nid_def on_shared_def ym_set_def)

lemma nid_ops [simp]:
  "nid (ym_reset_stream_immediately i m) = nid m"
  "nid (ym_close_stream i m) = nid m"
  "nid (ym_reset_opt j m) = nid m"
  by (auto simp: ym_reset_stream_immediately_def ym_close_stream_def nid_def on_shared_def ym_set_def ym_reset_opt_def
      split: option.splits)

lemma nid_sends:
  "send_multistream_data i d m = Some (r, m') \<Longrightarrow> nid m' = nid m"
  "send_multistream_data_with_newline i d m = Some (r, m') \<Longrightarrow> nid m' = nid m"
  by (simp_all add: nid_def same_id.sends_effect)

lemma nid_send_data: "ym_send_data i d m = Some (r, m') \<Longrightarrow> nid m' = nid m"
  and nid_accept: "ym_accept_protocol i n m = Some (r, m') \<Longrightarrow> nid m' = nid m"
  and nid_reject: "ym_reject_protocol i m = Some (r, m') \<Longrightarrow> nid m' = nid m"
  by (simp_all add: nid_def same_id.ops_effect)

lemma nid_open:
  assumes "ym_open_stream ps n m = Some (r, m')"
  shows "nid m < nid m' \<and> (\<forall>i. r = Inr i \<longrightarrow> i = nid m)"
proof -
  obtain i s where op: "session_open_stream (ym_inner m) = Some (i, s)"
    using assms by (auto simp: ym_open_stream_def split: option.splits)
  have i: "i = nid m" and lt: "nid m < next_stream_id s"
    using op sid_increment_unat [of "nid m" "next_stream_id s"]
    by (auto simp: session_open_stream_def yamux_open_stream_def nid_def Let_def word_less_nat_alt
        split: option.splits)
  from assms op i lt show ?thesis
    by (auto simp: ym_open_stream_def Let_def dest!: nid_sends
        split: list.splits option.splits sum.splits prod.splits)
qed

lemma nid_next: "ym_next rd wr sl fuel k u m = Done (p, u', m') \<Longrightarrow> nid m' = nid m"
  by (simp add: nid_def same_id.next_effect)

section \<open>Opening a stream succeeds\<close>

text \<open>A stream whose queue does not end in a close or a reset takes data.\<close>

definition sendable :: "('r, 'w) YamuxSession \<Rightarrow> YamuxStreamId \<Rightarrow> bool" where
  "sendable s i \<longleftrightarrow> (\<exists>st. get_stream (ys_shared s) i = Some st \<and>
     (outbound_buf st = [] \<or> last (outbound_buf st) \<notin> {MClose, MReset}))"

lemma sendable_session_send:
  assumes "sendable s i"
  shows "\<exists>s'. session_send_data i c s = (Inr (), s') \<and> sendable s' i"
proof -
  obtain st where st: "get_stream (ys_shared s) i = Some st"
    "outbound_buf st = [] \<or> last (outbound_buf st) \<notin> {MClose, MReset}"
    using assms by (auto simp: sendable_def)
  obtain res sh where sd: "yamux_send_data i c (ys_shared s) = (res, sh)" by fastforce
  have "res = Inr () \<and> (\<exists>st'. get_stream sh i = Some st' \<and> (\<exists>q d. outbound_buf st' = q @ [MData d]))"
    using st sd
    by (auto simp: yamux_send_data_def Let_def push_msg_def split: BufferedOutboundMessage.splits if_splits)
  then show ?thesis using sd by (auto simp: session_send_data_def sendable_def on_shared_def)
qed

lemma sendable_send_all: "sendable s i \<Longrightarrow> \<exists>s'. send_all i cs s = (Inr (), s') \<and> sendable s' i"
proof (induction cs arbitrary: s)
  case (Cons c cs)
  obtain s1 where "session_send_data i c s = (Inr (), s1)" "sendable s1 i"
    using sendable_session_send [OF Cons.prems] by blast
  with Cons.IH [of s1] show ?case by simp
qed simp

lemma sendable_send_chunks:
  assumes "sendable (ym_inner m) i"
  shows "\<exists>s'. send_chunks i len cs m = Some (Inr (), m\<lparr>ym_inner := s'\<rparr>) \<and> sendable s' i"
proof -
  obtain buf n where enc: "varint_encode len (replicate 10 0) = Some (buf, n)"
    using varint_fits [of len] by auto
  obtain s' where "send_all i (take n buf # cs) (ym_inner m) = (Inr (), s')" "sendable s' i"
    using sendable_send_all [OF assms] by blast
  with enc have "send_chunks i len cs m = Some (Inr (), m\<lparr>ym_inner := s'\<rparr>) \<and> sendable s' i"
    by (simp add: send_chunks_def del: send_all.simps)
  then show ?thesis by blast
qed

text \<open>
  Opening a stream fails only when the identifiers are used up: otherwise the header and the
  proposal are queued and the stream waits for the answer.
\<close>

lemma open_stream_ok:
  assumes "sid_increment (nid m) = Some n"
    and "get_stream (ys_shared (ym_inner m)) (nid m) = None"
  obtains m' where "ym_open_stream (p # ps) limit m = Some (Inr (nid m), m')"
    "ym_get m' (nid m) = Some \<lparr>ms_buffer = fb_new,
       ms_state = OutgoingProtocolWaitingForAccept False p ps, max_buffer_size = limit\<rparr>"
proof -
  obtain s where op: "session_open_stream (ym_inner m) = Some (nid m, s)" and snd: "sendable s (nid m)"
    using assms
    by (auto simp: session_open_stream_def yamux_open_stream_def nid_def Let_def sendable_def on_shared_def
        push_msg_def StreamState_new_def)
  obtain s1 where "send_multistream_data (nid m) MULTISTREAM_PROTOCOL_NAME_WITH_NEWLINE (m\<lparr>ym_inner := s\<rparr>) =
      Some (Inr (), m\<lparr>ym_inner := s1\<rparr>)" and snd1: "sendable s1 (nid m)"
    using sendable_send_chunks [of "m\<lparr>ym_inner := s\<rparr>" "nid m"] snd
    by (auto simp: send_multistream_data_def)
  moreover obtain s2 where "send_multistream_data_with_newline (nid m) p (m\<lparr>ym_inner := s1\<rparr>) =
      Some (Inr (), m\<lparr>ym_inner := s2\<rparr>)"
    using sendable_send_chunks [of "m\<lparr>ym_inner := s1\<rparr>" "nid m"] snd1
    by (auto simp: send_multistream_data_with_newline_def)
  ultimately show ?thesis using that op by (simp add: ym_open_stream_def Let_def)
qed

section \<open>Requests\<close>

fun resp_ids :: "Message \<Rightarrow> YamuxStreamId list" where
  "resp_ids (MResponse (RequestId i) _ _) = [i]"
| "resp_ids _ = []"

fun out_ids :: "conn_outcome \<Rightarrow> YamuxStreamId list" where
  "out_ids (CnReturn (Inr (Some m))) = resp_ids m"
| "out_ids _ = []"

definition pend :: "('r, 'w, 'z) Connection \<Rightarrow> YamuxStreamId \<Rightarrow> nat" where
  "pend c i = (if bt_get (inflight_requests c) i = None then 0 else 1) +
     count_list (concat (map resp_ids (next_buf c))) i"

text \<open>What a step other than a reply keeps.\<close>

definition keeps :: "('r, 'w, 'z) Connection \<Rightarrow> conn_outcome \<times> ('r, 'w, 'z) Connection \<Rightarrow> bool" where
  "keeps c x \<longleftrightarrow> inflight_requests (snd x) = inflight_requests c \<and> next_buf (snd x) = next_buf c \<and>
     nid (cn_yamux c) \<le> nid (cn_yamux (snd x)) \<and> out_ids (fst x) = []"

text \<open>What every step keeps: requests leave the books when their response is handed out.\<close>

definition accounts :: "('r, 'w, 'z) Connection \<Rightarrow> conn_outcome \<times> ('r, 'w, 'z) Connection \<Rightarrow> bool" where
  "accounts c x \<longleftrightarrow> nid (cn_yamux c) \<le> nid (cn_yamux (snd x)) \<and>
     (\<forall>i. pend (snd x) i + count_list (out_ids (fst x)) i = pend c i)"

lemma keeps_accounts: "keeps c x \<Longrightarrow> accounts c x"
  by (simp add: keeps_def accounts_def pend_def)

lemma accounts_trans:
  "accounts c (CnContinue, c1) \<Longrightarrow> accounts c1 x \<Longrightarrow> accounts c x"
  unfolding accounts_def by (auto intro: order_trans)

lemma keeps_try:
  assumes "\<And>a y. r = Some (a, y) \<Longrightarrow> nid (cn_yamux c) \<le> nid y"
    and "\<And>a y. r = Some (Inr a, y) \<Longrightarrow> keeps (c\<lparr>cn_yamux := y\<rparr>) (k a (c\<lparr>cn_yamux := y\<rparr>))"
  shows "keeps c (conn_try r k c)"
proof (cases r)
  case (Some x)
  obtain res y where x: "x = (res, y)" by fastforce
  show ?thesis
  proof (cases res)
    case (Inr a)
    with assms(2) [of a y] assms(1) [of res y] Some x show ?thesis
      by (auto simp: conn_try_def keeps_def intro: order_trans)
  qed (use assms(1) [of res y] Some x in \<open>simp add: conn_try_def keeps_def\<close>)
qed (simp add: conn_try_def keeps_def)

lemma keeps_refl [simp]: "keeps c (CnContinue, c)"
  by (simp add: keeps_def)

lemma keeps_sub_end: "keeps c (sub_end pid res c)"
  by (simp add: sub_end_def keeps_def cancel_subscription_silently_def split: option.splits)

lemma keeps_sub_opened: "keeps c (sub_opened p (c\<lparr>subscription_details := ds\<rparr>))"
  by (simp add: sub_opened_def keeps_def)

lemma keeps_reset:
  "keeps c (CnContinue, c\<lparr>cn_yamux := ym_reset_stream_immediately i (cn_yamux c)\<rparr>)"
  by (simp add: keeps_def)

lemma keeps_outbound: "keeps c (on_outbound P p st c)"
proof -
  have "keeps c (conn_try (ym_send_data i d (cn_yamux c)) (\<lambda>_ c. (CnContinue, c)) c)" for i d
    by (rule keeps_try) (auto dest: nid_send_data)
  then show ?thesis
    by (simp add: on_outbound_def Let_def keeps_sub_end keeps_sub_opened
        split: SubscriptionStreamState.splits MsOutputState.splits CloseReason.splits)
qed

lemma keeps_open_our_side: "keeps c (open_our_side P p c)"
proof -
  let ?c = "c\<lparr>subscription_details := update_first P (\<lambda>_. p) (subscription_details c)\<rparr>"
  have "keeps ?c (conn_try (ym_open_stream [sp_name (sd_protocol p)]
            (sp_max_response_size_in_bytes (sd_protocol p)) (cn_yamux c))
          (\<lambda>stream_id c. (CnContinue, c\<lparr>subscription_details :=
             update_first P (\<lambda>_. p\<lparr>our_stream := SsHandshake stream_id\<rparr>) (subscription_details c)\<rparr>)) ?c)"
    by (rule keeps_try) (auto dest: nid_open simp: keeps_def order_less_imp_le)
  then show ?thesis by (simp add: open_our_side_def keeps_def)
qed

lemma keeps_inbound: "keeps c (on_inbound P p i st c)"
proof -
  have 1: "keeps c (conn_try (ym_accept_protocol j n (cn_yamux c)) (\<lambda>_. open_our_side P q) c)" for j n q
    by (rule keeps_try) (auto dest: nid_accept intro: keeps_open_our_side)
  have 2: "keeps c (conn_try (ym_send_data j d (cn_yamux c))
      (\<lambda>_ c. sub_opened q (c\<lparr>subscription_details := update_first P (\<lambda>_. q) (subscription_details c)\<rparr>)) c)" for j d q
    by (rule keeps_try) (auto dest: nid_send_data intro: keeps_sub_opened)
  have 3: "keeps c (cn_message (MNotification q (SrValue d)), c)" for q d
    by (simp add: keeps_def)
  show ?thesis
    using 1 2 3
    by (simp add: on_inbound_def Let_def keeps_sub_end keeps_reset
        split: SubscriptionStreamState.splits MsOutputState.splits CloseReason.splits)
qed

lemma keeps_unknown: "keeps c (on_unknown i st c)"
proof -
  have "keeps c (conn_try (ym_reject_protocol j (cn_yamux c)) (\<lambda>_ c. (CnContinue, c)) c)" for j
    by (rule keeps_try) (auto dest: nid_reject)
  then show ?thesis by (simp add: on_unknown_def keeps_reset split: MsOutputState.splits)
qed

lemma keeps_incoming_request: "keeps c (on_incoming_request i pid st (c\<lparr>incoming_requests := b\<rparr>))"
  by (simp add: on_incoming_request_def keeps_def Let_def split: MsOutputState.splits CloseReason.splits)

lemma keeps_serve:
  "keeps c (conn_try (ym_accept_protocol i n (cn_yamux c))
     (\<lambda>_ c. (CnContinue, c\<lparr>incoming_requests := bt_insert i pid (incoming_requests c)\<rparr>)) c)"
  by (rule keeps_try) (auto dest: nid_accept simp: keeps_def)

lemma accounts_reply:
  "bt_get (inflight_requests c) i \<noteq> None \<Longrightarrow> accounts c (inflight_reply i pid res reset c)"
  by (auto simp: accounts_def inflight_reply_def pend_def)

lemma accounts_inflight:
  assumes "bt_get (inflight_requests c) i = Some (pid, info)"
  shows "accounts c (on_inflight i pid info st c)"
proof -
  note rep = accounts_reply [of c i]
  have "accounts c (conn_try (ym_send_data i req (cn_yamux c))
      (\<lambda>_ c. (CnContinue, c\<lparr>cn_yamux := ym_close_stream i (cn_yamux c),
         inflight_requests := bt_insert i (pid, AwaitingResponsePayload) (inflight_requests c)\<rparr>))
      (c\<lparr>inflight_requests := bt_insert i (pid, AwaitingProtocolConfirmation []) (inflight_requests c)\<rparr>))" for req
    using assms
    by (auto simp: conn_try_def accounts_def pend_def dest: nid_send_data split: option.splits prod.splits sum.splits)
  with assms rep show ?thesis
    by (simp add: on_inflight_def split: RequestState.splits MsOutputState.splits CloseReason.splits)
qed

lemma accounts_dispatch: "accounts c (conn_dispatch out c)"
proof (cases "bt_get (inflight_requests c) (mo_stream_id out)")
  case None
  then have "keeps c (conn_dispatch out c)"
    by (simp add: conn_dispatch_def Let_def keeps_outbound keeps_inbound keeps_unknown keeps_serve
        keeps_incoming_request split: option.splits)
  then show ?thesis by (rule keeps_accounts)
next
  case (Some x)
  then show ?thesis by (cases x) (simp add: conn_dispatch_def Let_def accounts_inflight)
qed

text \<open>Timeouts and the loop.\<close>

lemma timeouts_loop_accounts:
  assumes "handle_request_timeouts_loop pf now ds inflight = (r, ds', inflight')"
  shows "case r of None \<Rightarrow> inflight' = inflight
    | Some (i, pid) \<Rightarrow> bt_get inflight i \<noteq> None \<and> inflight' = bt_remove i inflight"
  using assms
proof (induction ds arbitrary: r ds' inflight')
  case (Cons d ds)
  obtain r1 ds1 in1 where rec: "handle_request_timeouts_loop pf now ds inflight = (r1, ds1, in1)"
    by (metis prod_cases3)
  note ih = Cons.IH [OF rec]
  show ?case
  proof (cases "rq_timeouts d")
    case (Some t)
    obtain x t' where tn: "timers_try_next pf now t = (x, t')" by fastforce
    show ?thesis
    proof (cases "\<exists>i. x = Some i \<and> bt_get inflight i \<noteq> None")
      case True
      then show ?thesis using Cons.prems Some tn by (auto simp: Let_def)
    next
      case False
      then have "x = None \<or> (\<exists>i. x = Some i \<and> bt_get inflight i = None)" by (metis not_None_eq)
      then have "r = r1" "inflight' = in1" using Cons.prems Some tn rec by (auto simp: Let_def)
      with ih show ?thesis by (cases r1) auto
    qed
  qed (use Cons.prems rec ih in \<open>auto simp: Let_def\<close>)
qed simp

fun message_ids :: "Message option \<Rightarrow> YamuxStreamId list" where
  "message_ids None = []"
| "message_ids (Some m) = resp_ids m"

lemma timeouts_accounts:
  assumes "handle_request_timeouts pf now c = (r, c')"
  shows "nid (cn_yamux c') = nid (cn_yamux c) \<and> next_buf c' = next_buf c \<and>
    (\<forall>i. pend c' i + count_list (message_ids r) i = pend c i)"
proof -
  obtain x ds b where lp: "handle_request_timeouts_loop pf now (request_details c) (inflight_requests c) = (x, ds, b)"
    by (metis prod_cases3)
  note l = timeouts_loop_accounts [OF lp]
  show ?thesis
  proof (cases x)
    case None
    with assms lp l show ?thesis by (auto simp: handle_request_timeouts_def pend_def Let_def)
  next
    case (Some y)
    obtain i pid where "y = (i, pid)" by fastforce
    with assms lp l Some show ?thesis
      by (auto simp: handle_request_timeouts_def pend_def Let_def split: if_splits)
  qed
qed

lemma top_accounts:
  assumes "conn_top pf now c = (r, c')"
  shows "nid (cn_yamux c') = nid (cn_yamux c) \<and> (\<forall>i. pend c' i + count_list (message_ids r) i = pend c i)"
proof (cases "next_buf c")
  case Nil
  with assms timeouts_accounts [of pf now c r c'] show ?thesis by (simp add: conn_top_def)
next
  case (Cons m ms)
  with assms show ?thesis by (auto simp: conn_top_def pend_def)
qed

lemma await_accounts:
  assumes "conn_await rd wr sl fuel k u c = (r, u', c')"
  shows "accounts c (r, c')"
proof -
  have "accounts c (CnContinue, c\<lparr>cn_yamux := y\<rparr>)" if "nid y = nid (cn_yamux c)" for y
    using that by (simp add: accounts_def pend_def)
  note set_yamux = accounts_trans [OF this]
  show ?thesis
  proof (cases "ym_next rd wr sl fuel k u (cn_yamux c)")
    case (Done x)
    obtain p u1 y where x: "x = (p, u1, y)" by (metis prod_cases3)
    have nid: "nid y = nid (cn_yamux c)" by (rule nid_next) (use Done x in blast)
    let ?c = "c\<lparr>cn_yamux := y\<rparr>"
    have "accounts ?c (r, c')"
    proof (cases "\<exists>out. p = Ready (Some (Inr out))")
      case True
      then obtain out where "p = Ready (Some (Inr out))" by blast
      with assms Done x have "conn_dispatch out ?c = (r, c')"
        by (auto simp: conn_await_def Let_def split: prod.splits)
      with accounts_dispatch [of ?c out] show ?thesis by simp
    next
      case False
      with assms Done x have "c' = ?c" "out_ids r = []"
        by (auto simp: conn_await_def Let_def split: poll.splits option.splits sum.splits)
      then show ?thesis by (simp add: accounts_def)
    qed
    then show ?thesis by (rule set_yamux [OF nid])
  qed (use assms in \<open>simp_all add: conn_await_def accounts_def\<close>)
qed

fun result_ids :: "('e + Message option) poll \<Rightarrow> YamuxStreamId list" where
  "result_ids (Ready (Inr (Some m))) = resp_ids m"
| "result_ids _ = []"

lemma next_inner_accounts:
  "conn_next_inner pf clk rd wr sl fuel k n fut c = Done (p, fut', c') \<Longrightarrow>
   nid (cn_yamux c) \<le> nid (cn_yamux c') \<and> (\<forall>i. pend c' i + count_list (result_ids p) i = pend c i)"
proof (induction n arbitrary: fut c)
  case (Suc n)
  obtain msg c1 where top: "(case fut of Some u \<Rightarrow> (None, c) | None \<Rightarrow> conn_top pf (clk n) c) = (msg, c1)"
    by fastforce
  have t: "nid (cn_yamux c1) = nid (cn_yamux c) \<and> (\<forall>i. pend c1 i + count_list (message_ids msg) i = pend c i)"
    using top by (cases fut) (auto dest: top_accounts)
  show ?case
  proof (cases msg)
    case (Some m)
    with Suc.prems top t show ?thesis by auto
  next
    case None
    obtain r u c2 where aw: "conn_await rd wr sl fuel k (case fut of Some u \<Rightarrow> u | None \<Rightarrow> 0) c1 = (r, u, c2)"
      by (metis prod_cases3)
    note a = await_accounts [OF aw, unfolded accounts_def]
    have t': "nid (cn_yamux c1) = nid (cn_yamux c)" "pend c1 i = pend c i" for i
      using t None by simp_all
    show ?thesis
    proof (cases r)
      case CnContinue
      with Suc.prems top None aw
      have "conn_next_inner pf clk rd wr sl fuel k n None c2 = Done (p, fut', c')" by simp
      from Suc.IH [OF this] a t' CnContinue show ?thesis by (auto intro: order_trans)
    next
      case (CnReturn res)
      with Suc.prems top None aw have "p = Ready res" "c' = c2" by auto
      moreover have "out_ids (CnReturn res) = result_ids (Ready res)"
        by (cases res; cases "projr res") auto
      ultimately show ?thesis using a t' CnReturn by simp
    next
      case CnPending
      with Suc.prems top None aw have "p = Pending" "c' = c2" by auto
      then show ?thesis using a t' CnPending by simp
    qed (use Suc.prems top None aw in simp_all)
  qed
qed simp

fun label_ids :: "conn_label \<Rightarrow> YamuxStreamId list" where
  "label_ids (LMessage m) = resp_ids m"
| "label_ids _ = []"

fun label_requests :: "conn_label \<Rightarrow> YamuxStreamId list" where
  "label_requests (LRequested i) = [i]"
| "label_requests _ = []"

lemma next_accounts:
  assumes "conn_next pf clk rd wr sl fuel k n fut c = Done (p, fut', c')"
  shows "nid (cn_yamux c) \<le> nid (cn_yamux c') \<and> (\<forall>i. pend c' i + count_list (label_ids (poll_label p)) i = pend c i)"
proof (cases "fut = None \<and> cn_finished c")
  case False
  show ?thesis
  proof (cases "conn_next_inner pf clk rd wr sl fuel k n fut c")
    case (Done x)
    obtain q fut1 c1 where x: "x = (q, fut1, c1)" by (metis prod_cases3)
    note a = next_inner_accounts [OF Done [unfolded x]]
    have fin: "pend (c1\<lparr>cn_finished := b\<rparr>) i = pend c1 i" for b i by (simp add: pend_def)
    show ?thesis
      using assms False Done x a fin
      by (auto simp: conn_next_def split: poll.splits sum.splits option.splits)
  qed (use assms False in \<open>simp_all add: conn_next_def\<close>)
qed (use assms in \<open>auto simp: conn_next_def\<close>)

lemma request_accounts:
  assumes "conn_request pf now pid req c = Some (res, c')"
    and "\<And>j. nid (cn_yamux c) \<le> j \<Longrightarrow> pend c j = 0"
  shows "nid (cn_yamux c) \<le> nid (cn_yamux c') \<and>
    (case res of Inl _ \<Rightarrow> \<forall>i. pend c' i = pend c i
     | Inr (RequestId j) \<Rightarrow> nid (cn_yamux c) = j \<and> j < nid (cn_yamux c') \<and>
         (\<forall>i. pend c' i = pend c i + (if i = j then 1 else 0)))"
proof (cases "List.find (\<lambda>p. rq_protocol_id p = pid) (request_details c)")
  case (Some p)
  obtain x y where op: "ym_open_stream [rp_name (rq_protocol p)]
      (rp_max_response_size_in_bytes (rq_protocol p)) (cn_yamux c) = Some (x, y)"
    using assms(1) Some by (auto simp: conn_request_def split: option.splits)
  note n = nid_open [OF op]
  show ?thesis
  proof (cases x)
    case (Inl e)
    with assms(1) Some op n show ?thesis by (auto simp: conn_request_def pend_def)
  next
    case (Inr j)
    with n have j: "j = nid (cn_yamux c)" by simp
    have fresh: "bt_get (inflight_requests c) j = None"
      using assms(2) [of j] j by (auto simp: pend_def split: if_splits)
    have res: "res = Inr (RequestId j)" and y: "cn_yamux c' = y" "next_buf c' = next_buf c"
      "inflight_requests c' = bt_insert j (pid, AwaitingProtocolConfirmation req) (inflight_requests c)"
      using assms(1) Some op Inr by (auto simp: conn_request_def)
    have "pend c' i = pend c i + (if i = j then 1 else 0)" for i
      using fresh by (simp add: pend_def y)
    then show ?thesis using n j by (simp add: res y order_less_imp_le)
  qed
qed (use assms(1) in \<open>auto simp: conn_request_def\<close>)

lemma cancel_request_accounts:
  "nid (cn_yamux (conn_cancel_request rid c)) = nid (cn_yamux c) \<and>
   pend (conn_cancel_request rid c) i = pend c i"
proof (cases rid)
  case (RequestId j)
  then show ?thesis
    by (cases "bt_get (inflight_requests c) j") (auto simp: conn_cancel_request_def pend_def split: if_splits)
qed

lemma cancel_subscription_accounts:
  "nid (cn_yamux (conn_cancel_subscription pid c)) = nid (cn_yamux c) \<and>
   pend (conn_cancel_subscription pid c) i = pend c i"
  by (cases "List.find (\<lambda>p. sd_protocol_id p = pid) (subscription_details c)")
     (simp_all add: conn_cancel_subscription_def cancel_subscription_silently_def pend_def)

lemma environment_accounts:
  "nid (cn_yamux (conn_wake j c)) = nid (cn_yamux c)"
  "pend (conn_wake j c) i = pend c i"
  "nid (cn_yamux (conn_set_reader r c)) = nid (cn_yamux c)"
  "pend (conn_set_reader r c) i = pend c i"
  by (simp_all add: conn_wake_def conn_set_reader_def pend_def) (simp add: nid_def)

lemmas silent_accounts = cancel_request_accounts cancel_subscription_accounts environment_accounts

lemma respond_accounts:
  "conn_respond rid d c = Some c' \<Longrightarrow> nid (cn_yamux c') = nid (cn_yamux c) \<and> pend c' i = pend c i"
  by (auto simp: conn_respond_def pend_def dest: nid_send_data split: ResponseId.splits option.splits)

lemma subscribe_accounts:
  "conn_subscribe pid c = Some (res, c') \<Longrightarrow> nid (cn_yamux c) \<le> nid (cn_yamux c') \<and> pend c' i = pend c i"
  by (auto simp: conn_subscribe_def pend_def order_less_imp_le dest!: nid_open
      split: option.splits if_splits sum.splits)

lemma send_accounts:
  "conn_send_notification pid d c = Some (res, c') \<Longrightarrow> nid (cn_yamux c') = nid (cn_yamux c) \<and> pend c' i = pend c i"
  by (auto simp: conn_send_notification_def pend_def dest!: nid_send_data
      split: option.splits SubscriptionStreamState.splits sum.splits)

lemma step_accounts:
  assumes "conn_step pf rd wr sl s l t"
    and "\<And>j. nid (cn_yamux (fst s)) \<le> j \<Longrightarrow> pend (fst s) j = 0"
  shows "pend (fst t) i + count_list (label_ids l) i = pend (fst s) i + count_list (label_requests l) i"
  using assms
proof (cases rule: conn_step.cases)
  case (cs_request now pid req c j c' fut)
  show ?thesis
    using request_accounts [OF cs_request(4)] assms(2) cs_request by simp
next
  case (cs_request_err now pid req c e c' fut)
  show ?thesis
    using request_accounts [OF cs_request_err(4)] assms(2) cs_request_err by simp
next
  case (cs_next clk fuel k n fut c p fut' c')
  moreover have "label_requests (poll_label p) = []" by (cases p rule: poll_label.cases) simp_all
  ultimately show ?thesis using next_accounts [OF cs_next(4)] by simp
qed (auto simp: silent_accounts dest: respond_accounts subscribe_accounts send_accounts)

lemma step_bound:
  assumes "conn_step pf rd wr sl s l t"
  shows "nid (cn_yamux (fst s)) \<le> nid (cn_yamux (fst t)) \<and>
    (\<forall>i. l = LRequested i \<longrightarrow> nid (cn_yamux (fst s)) = i \<and> i < nid (cn_yamux (fst t)))"
  using assms
proof (cases rule: conn_step.cases)
  case (cs_request now pid req c j c' fut)
  then show ?thesis
    by (auto simp: conn_request_def order_less_imp_le dest!: nid_open split: option.splits sum.splits)
next
  case (cs_request_err now pid req c e c' fut)
  then show ?thesis
    by (auto simp: conn_request_def order_less_imp_le dest!: nid_open split: option.splits sum.splits)
next
  case (cs_next clk fuel k n fut c p fut' c')
  moreover have "poll_label p \<noteq> LRequested i" for i by (cases p rule: poll_label.cases) simp_all
  ultimately show ?thesis using next_accounts [OF cs_next(4)] by simp
qed (auto simp: silent_accounts dest: respond_accounts subscribe_accounts send_accounts)

interpretation requests: ledger "conn_step pf rd wr sl" label_requests label_ids
  "\<lambda>s. pend (fst s)" "\<lambda>s. nid (cn_yamux (fst s))"
proof unfold_locales
  fix s l t i
  assume st: "conn_step pf rd wr sl s l t"
  show "distinct (label_requests l) \<and>
      (\<forall>i \<in> set (label_requests l). nid (cn_yamux (fst s)) \<le> i \<and> i < nid (cn_yamux (fst t)))"
    using step_bound [OF st] by (cases l) auto
  show "nid (cn_yamux (fst s)) \<le> nid (cn_yamux (fst t))" using step_bound [OF st] by simp
qed (rule step_accounts)

section \<open>Properties\<close>

text \<open>
  (C1) One response per request. Take any run of a fresh connection: requests, cancellations,
  responses, subscriptions, polls of \<open>next\<close> (some of them dropped), timers firing, and the
  transport delivering anything. Then the identifiers handed out by \<open>request\<close> are pairwise
  different, and each of them either has received exactly one response, or has received none and
  is still on the books: it is in flight, or its response waits to be handed out. No response
  carries an identifier that was not handed out.
\<close>

theorem one_response_per_request:
  assumes "fresh_connection c" and "trace (conn_step pf rd wr sl) (c, None) ls (c', fut)"
  shows "distinct (concat (map label_requests ls)) \<and>
    (\<forall>i. if i \<in> set (concat (map label_requests ls))
         then count_list (concat (map label_ids ls)) i + pend c' i = 1
         else count_list (concat (map label_ids ls)) i = 0 \<and> pend c' i = 0)"
proof -
  have "pend (fst (c, None)) i = 0" for i
    using assms(1) by (simp add: fresh_connection_def pend_def)
  note start = this
  have "distinct (concat (map label_requests ls))"
    using requests.balanced_trace [OF assms(2) start] unfolding requests.balanced_def by blast
  moreover have "if i \<in> set (concat (map label_requests ls))
      then count_list (concat (map label_ids ls)) i + pend c' i = 1
      else count_list (concat (map label_ids ls)) i = 0 \<and> pend c' i = 0" for i
    using requests.exactly_once [OF assms(2) start, of i] by (simp only: fst_conv)
  ultimately show ?thesis by blast
qed

text \<open>A connection for the witnesses: one request and one subscription protocol, over mock streams.\<close>

definition demo_connection :: "(MockStream, MockStream, nat) Connection" where
  "demo_connection =
     \<lparr>cn_yamux = ym_new (yamux_new mock_new mock_new), remote_id = \<lparr>multihash = []\<rparr>,
      cn_our_id = \<lparr>multihash = []\<rparr>,
      subscription_details = [\<lparr>sd_protocol_id = SubscriptionProtocolId 1,
        sd_protocol = SubscriptionProtocol_new (bytes_of ''/sub'') [1] (\<lambda>_. True),
        our_stream = SsClosed, their_stream = SsClosed\<rparr>],
      request_details = [\<lparr>rq_protocol_id = RequestProtocolId 0,
        rq_protocol = RequestProtocol_new (bytes_of ''/req''), rq_timeouts = None\<rparr>],
      incoming_requests = bt_empty, inflight_requests = bt_empty, next_buf = [], cn_finished = False\<rparr>"

lemma demo_fresh: "fresh_connection demo_connection"
  by (auto simp: fresh_connection_def demo_connection_def)

lemma demo_request:
  obtains c where "conn_request pf now (RequestProtocolId 0) req demo_connection = Some (Inr (RequestId 1), c)"
    "bt_get (inflight_requests c) 1 = Some (RequestProtocolId 0, AwaitingProtocolConfirmation req)"
    "next_buf c = []" "\<not> cn_finished c"
proof -
  let ?m = "cn_yamux demo_connection"
  have n: "nid ?m = 1"
    by (simp add: nid_def demo_connection_def ym_new_def yamux_new_def sid_first_def)
  obtain m' where "ym_open_stream [bytes_of ''/req''] usize_max ?m = Some (Inr (nid ?m), m')"
  proof (rule open_stream_ok [of ?m 3 "bytes_of ''/req''" "[]" usize_max])
    show "sid_increment (nid ?m) = Some 3" by (simp add: n sid_increment_def)
    show "get_stream (ys_shared (ym_inner ?m)) (nid ?m) = None"
      by (simp add: demo_connection_def ym_new_def yamux_new_def SharedState_new_def get_stream_def)
  qed
  then show ?thesis using that n by (simp add: conn_request_def demo_connection_def RequestProtocol_new_def)
qed

theorem one_response_per_request_witness:
  "\<exists>c' fut. trace (conn_step (clock_platform False) mock_read_exact mock_write_all (\<lambda>_. 0))
       (demo_connection, None)
       [LRequested 1, LSilent, LMessage (MResponse (RequestId 1) (RequestProtocolId 0) RsCancelled)] (c', fut) \<and>
     pend c' 1 = 0"
proof -
  let ?pf = "clock_platform False" and ?st = "conn_step (clock_platform False) mock_read_exact mock_write_all (\<lambda>_. 0)"
  let ?msg = "MResponse (RequestId 1) (RequestProtocolId 0) RsCancelled"
  obtain c where c: "conn_request ?pf 0 (RequestProtocolId 0) [7] demo_connection = Some (Inr (RequestId 1), c)"
    "bt_get (inflight_requests c) 1 = Some (RequestProtocolId 0, AwaitingProtocolConfirmation [7])"
    "next_buf c = []" "\<not> cn_finished c"
    by (rule demo_request)
  let ?c1 = "conn_cancel_request (RequestId 1) c"
  have nb: "next_buf ?c1 = [?msg]" "\<not> cn_finished ?c1"
    using c by (simp_all add: conn_cancel_request_def)
  let ?c2 = "?c1\<lparr>next_buf := []\<rparr>"
  have nx: "conn_next ?pf (\<lambda>_. 0) mock_read_exact mock_write_all (\<lambda>_. 0) 0 0 (Suc 0) None ?c1 =
      Done (Ready (Some (Inr ?msg)), None, ?c2)"
    using nb by (simp add: conn_next_def conn_top_def)
  have "?st (demo_connection, None) (LRequested 1) (c, None)" by (rule cs_request [OF c(1)])
  then have "trace ?st (demo_connection, None) ([] @ [LRequested 1]) (c, None)"
    by (rule trace_step [OF trace_nil])
  then have "trace ?st (demo_connection, None) (([] @ [LRequested 1]) @ [LSilent]) (?c1, None)"
    by (rule trace_step) (rule cs_cancel_request)
  moreover have "?st (?c1, None) (LMessage ?msg) (?c2, None)" using cs_next [OF nx] by simp
  ultimately have "trace ?st (demo_connection, None) ((([] @ [LRequested 1]) @ [LSilent]) @ [LMessage ?msg]) (?c2, None)"
    by (rule trace_step)
  then have tr: "trace ?st (demo_connection, None) [LRequested 1, LSilent, LMessage ?msg] (?c2, None)" by simp
  from one_response_per_request [OF demo_fresh tr] have "pend ?c2 1 = 0" by (auto dest: spec [of _ 1])
  with tr show ?thesis by blast
qed

end
