(* ===== verification/Subscriptions.thy ===== *)
theory Subscriptions
  imports ConnectionRuns
begin

text \<open>
  Subscriptions of a connection: the notifications handed to the user, for every run, describe the
  two streams of the subscription. The specification is the monitor \<open>sub_monitor\<close>, an automaton
  with the states closed and opened that reads the messages about one protocol.
\<close>

section \<open>Finding and updating entries\<close>

lemma find_key:
  assumes "distinct (map f xs)" and "List.find P xs = Some p"
  shows "List.find (\<lambda>x. f x = f p) xs = Some p"
  using assms
proof (induction xs)
  case (Cons x xs)
  show ?case
  proof (cases "P x")
    case False
    with Cons.prems have "List.find P xs = Some p" by simp
    moreover from this have "p \<in> set xs" by (auto simp: find_Some_iff in_set_conv_nth)
    ultimately show ?thesis using Cons by auto
  qed (use Cons.prems in simp)
qed simp

lemma find_update_first:
  assumes "distinct (map f xs)" and "List.find P xs = Some p" and "f p' = f p"
  shows "List.find (\<lambda>x. f x = k) (update_first P (\<lambda>_. p') xs) =
    (if k = f p then Some p' else List.find (\<lambda>x. f x = k) xs)"
  using assms
proof (induction xs)
  case (Cons x xs)
  show ?case
  proof (cases "P x")
    case False
    with Cons.prems have fnd: "List.find P xs = Some p" by simp
    then have "p \<in> set xs" by (auto simp: find_Some_iff in_set_conv_nth)
    with False Cons fnd show ?thesis by auto
  qed (use Cons.prems in auto)
qed simp

lemma map_update_first:
  "List.find P xs = Some p \<Longrightarrow> f p' = f p \<Longrightarrow> map f (update_first P (\<lambda>_. p') xs) = map f xs"
  by (induction xs) (auto split: if_splits)

lemma update_first_const:
  "List.find P xs = Some p \<Longrightarrow> update_first P g xs = update_first P (\<lambda>_. g p) xs"
  by (induction xs) (auto split: if_splits)

lemma update_first_twice:
  "P a \<Longrightarrow> update_first P (\<lambda>_. b) (update_first P (\<lambda>_. a) xs) = update_first P (\<lambda>_. b) xs"
  by (induction xs) auto

lemma find_holds: "List.find P xs = Some p \<Longrightarrow> P p"
  by (auto simp: find_Some_iff)

section \<open>The specification\<close>

fun sub_monitor :: "SubscriptionProtocolId \<Rightarrow> bool option \<Rightarrow> Message \<Rightarrow> bool option" where
  "sub_monitor pid None m = None"
| "sub_monitor pid (Some opened) (MNotification q r) =
     (if q \<noteq> pid then Some opened
      else case r of
        SrOpened \<Rightarrow> if opened then None else Some True
      | SrValue _ \<Rightarrow> Some opened
      | SrClosed \<Rightarrow> Some False
      | SrError _ \<Rightarrow> Some False)"
| "sub_monitor pid (Some opened) _ = Some opened"

definition sub_of :: "('r, 'w, 'z) Connection \<Rightarrow> SubscriptionProtocolId \<Rightarrow> SubscriptionDetails option" where
  "sub_of c pid = List.find (\<lambda>p. sd_protocol_id p = pid) (subscription_details c)"

definition both_open :: "('r, 'w, 'z) Connection \<Rightarrow> SubscriptionProtocolId \<Rightarrow> bool" where
  "both_open c pid = (case sub_of c pid of
     None \<Rightarrow> False | Some p \<Rightarrow> ss_is_open (our_stream p) \<and> ss_is_open (their_stream p))"

definition sub_ids :: "('r, 'w, 'z) Connection \<Rightarrow> SubscriptionProtocolId list" where
  "sub_ids c = map sd_protocol_id (subscription_details c)"

fun outcome_messages :: "conn_outcome \<Rightarrow> Message list" where
  "outcome_messages (CnReturn (Inr (Some m))) = [m]"
| "outcome_messages _ = []"

section \<open>Steps follow the monitor\<close>

definition tracks :: "SubscriptionProtocolId \<Rightarrow> ('r, 'w, 'z) Connection
    \<Rightarrow> conn_outcome \<times> ('r, 'w, 'z) Connection \<Rightarrow> bool" where
  "tracks pid c x \<longleftrightarrow> sub_ids (snd x) = sub_ids c \<and> next_buf (snd x) = next_buf c \<and>
     foldl (sub_monitor pid) (Some (both_open c pid)) (outcome_messages (fst x)) = Some (both_open (snd x) pid)"

lemma sub_simps [simp]:
  "sub_ids (c\<lparr>cn_yamux := y\<rparr>) = sub_ids c" "both_open (c\<lparr>cn_yamux := y\<rparr>) pid = both_open c pid"
  "sub_ids (c\<lparr>inflight_requests := b\<rparr>) = sub_ids c" "both_open (c\<lparr>inflight_requests := b\<rparr>) pid = both_open c pid"
  "sub_ids (c\<lparr>incoming_requests := e\<rparr>) = sub_ids c" "both_open (c\<lparr>incoming_requests := e\<rparr>) pid = both_open c pid"
  "sub_ids (c\<lparr>request_details := d\<rparr>) = sub_ids c" "both_open (c\<lparr>request_details := d\<rparr>) pid = both_open c pid"
  "sub_ids (c\<lparr>next_buf := n\<rparr>) = sub_ids c" "both_open (c\<lparr>next_buf := n\<rparr>) pid = both_open c pid"
  "sub_ids (c\<lparr>cn_finished := f\<rparr>) = sub_ids c" "both_open (c\<lparr>cn_finished := f\<rparr>) pid = both_open c pid"
  by (simp_all add: sub_ids_def both_open_def sub_of_def)

lemma tracks_refl [simp]: "tracks pid c (CnContinue, c)"
  by (simp add: tracks_def)

lemma tracks_try:
  assumes "\<And>a y. r = Some (Inr a, y) \<Longrightarrow> tracks pid c (k a (c\<lparr>cn_yamux := y\<rparr>))"
  shows "tracks pid c (conn_try r k c)"
  using assms by (auto simp: conn_try_def tracks_def split: option.splits prod.splits sum.splits)

text \<open>The effect of replacing the first entry that satisfies \<open>P\<close>.\<close>

lemma sub_update:
  assumes "subscription_details c' = update_first P (\<lambda>_. p') (subscription_details c)"
    and "distinct (sub_ids c)" and "List.find P (subscription_details c) = Some p"
    and "sd_protocol_id p' = sd_protocol_id p"
  shows "sub_ids c' = sub_ids c"
    and "both_open c' pid =
      (if pid = sd_protocol_id p then ss_is_open (our_stream p') \<and> ss_is_open (their_stream p')
       else both_open c pid)"
  using assms
  by (simp_all add: sub_ids_def both_open_def sub_of_def map_update_first find_update_first)

lemma both_open_found:
  assumes "distinct (sub_ids c)" and "List.find P (subscription_details c) = Some p"
  shows "both_open c (sd_protocol_id p) \<longleftrightarrow> ss_is_open (our_stream p) \<and> ss_is_open (their_stream p)"
  using find_key [of sd_protocol_id "subscription_details c" P p] assms
  by (simp add: both_open_def sub_of_def sub_ids_def)

lemma cancel_silently_subs:
  assumes "distinct (sub_ids c)"
  shows "sub_ids (snd (cancel_subscription_silently q c)) = sub_ids c"
    and "both_open (snd (cancel_subscription_silently q c)) pid = (both_open c pid \<and> pid \<noteq> q)"
    and "next_buf (snd (cancel_subscription_silently q c)) = next_buf c"
proof -
  let ?P = "\<lambda>p. sd_protocol_id p = q"
  have "sub_ids (snd (cancel_subscription_silently q c)) = sub_ids c \<and>
      both_open (snd (cancel_subscription_silently q c)) pid = (both_open c pid \<and> pid \<noteq> q) \<and>
      next_buf (snd (cancel_subscription_silently q c)) = next_buf c"
  proof (cases "List.find ?P (subscription_details c)")
    case None
    then show ?thesis by (auto simp: cancel_subscription_silently_def both_open_def sub_of_def)
  next
    case (Some p)
    let ?close = "\<lambda>p. p\<lparr>our_stream := SsClosed, their_stream := SsClosed\<rparr>"
    let ?c = "snd (cancel_subscription_silently q c)"
    have q: "sd_protocol_id p = q" using find_holds [OF Some] .
    have "subscription_details ?c = update_first ?P ?close (subscription_details c)" "next_buf ?c = next_buf c"
      using Some by (simp_all add: cancel_subscription_silently_def)
    then show ?thesis
      using sub_update [OF _ assms Some, of ?c "?close p"] q update_first_const [OF Some, of ?close] by auto
  qed
  then show "sub_ids (snd (cancel_subscription_silently q c)) = sub_ids c"
    "both_open (snd (cancel_subscription_silently q c)) pid = (both_open c pid \<and> pid \<noteq> q)"
    "next_buf (snd (cancel_subscription_silently q c)) = next_buf c" by blast+
qed

lemma tracks_sub_end:
  assumes "distinct (sub_ids c)" and "res = SrClosed \<or> (\<exists>e. res = SrError e)"
  shows "tracks pid c (sub_end q res c)"
  using assms by (auto simp: tracks_def sub_end_def cancel_silently_subs)

lemma tracks_sub_opened:
  assumes "distinct (sub_ids c)" and "List.find P (subscription_details c) = Some p"
    and "sd_protocol_id p' = sd_protocol_id p"
    and "\<not> (ss_is_open (our_stream p) \<and> ss_is_open (their_stream p))"
  shows "tracks pid c (sub_opened p' (c\<lparr>cn_yamux := y,
    subscription_details := update_first P (\<lambda>_. p') (subscription_details c)\<rparr>))"
proof -
  let ?c = "c\<lparr>cn_yamux := y, subscription_details := update_first P (\<lambda>_. p') (subscription_details c)\<rparr>"
  have "subscription_details ?c = update_first P (\<lambda>_. p') (subscription_details c)" by simp
  from sub_update [OF this assms(1-3)] both_open_found [OF assms(1, 2)] assms(3, 4) show ?thesis
    by (auto simp: tracks_def sub_opened_def)
qed

lemma tracks_outbound:
  assumes "distinct (sub_ids c)" and "List.find P (subscription_details c) = Some p"
  shows "tracks pid c (on_outbound P p st c)"
proof -
  note ends = tracks_sub_end [OF assms(1)]
  have send: "tracks pid c (conn_try (ym_send_data i d (cn_yamux c)) (\<lambda>_ c. (CnContinue, c)) c)" for i d
    by (rule tracks_try) (simp add: tracks_def)
  have opened: "tracks pid c (sub_opened (p\<lparr>our_stream := SsOpen i\<rparr>) (c\<lparr>subscription_details :=
      update_first P (\<lambda>_. p\<lparr>our_stream := SsOpen i\<rparr>) (subscription_details c)\<rparr>))"
    if "our_stream p = SsHandshake i" for i
    using tracks_sub_opened [OF assms, of "p\<lparr>our_stream := SsOpen i\<rparr>" pid "cn_yamux c"] that by simp
  show ?thesis
  proof (cases "our_stream p")
    case (SsHandshake i)
    with opened [OF SsHandshake] send ends show ?thesis
      by (simp add: on_outbound_def Let_def split: MsOutputState.splits CloseReason.splits)
  next
    case (SsOpen i)
    with ends show ?thesis
      by (simp add: on_outbound_def Let_def split: MsOutputState.splits CloseReason.splits)
  qed (simp add: on_outbound_def)
qed

lemma tracks_open_our_side:
  assumes "distinct (sub_ids c)" and "List.find P (subscription_details c) = Some p"
    and "their_stream p = SsClosed" and "p' = p\<lparr>their_stream := SsHandshake i\<rparr>"
    and "\<And>ss. P (p'\<lparr>our_stream := ss\<rparr>)"
  shows "tracks pid c (open_our_side P p' (c\<lparr>cn_yamux := y\<rparr>))"
proof -
  have closed: "\<not> both_open c (sd_protocol_id p)" using both_open_found [OF assms(1, 2)] assms(3) by simp
  have upd: "tracks pid c (r, c')"
    if "subscription_details c' = update_first P (\<lambda>_. p'\<lparr>our_stream := ss\<rparr>) (subscription_details c)"
      and "next_buf c' = next_buf c" and "outcome_messages r = []" for r c' ss
    using sub_update [OF that(1) assms(1, 2)] closed assms(4) that(2, 3) by (auto simp: tracks_def)
  note upd0 = upd [of _ "our_stream p'", simplified]
  have "P p'" using assms(5) [of "our_stream p'"] by simp
  note twice = update_first_twice [of P p', OF this]
  show ?thesis
    by (auto simp: open_our_side_def conn_try_def twice intro: upd0 upd split: option.splits prod.splits sum.splits)
qed

lemma tracks_inbound:
  assumes "distinct (sub_ids c)" and "List.find P (subscription_details c) = Some p"
    and "\<And>ss. P (p\<lparr>their_stream := SsHandshake i, our_stream := ss\<rparr>)"
  shows "tracks pid c (on_inbound P p i st c)"
proof -
  note ends = tracks_sub_end [OF assms(1)]
  have opened: "tracks pid c (conn_try (ym_send_data j d (cn_yamux c))
      (\<lambda>_ c. sub_opened (p\<lparr>their_stream := SsOpen j\<rparr>) (c\<lparr>subscription_details :=
         update_first P (\<lambda>_. p\<lparr>their_stream := SsOpen j\<rparr>) (subscription_details c)\<rparr>)) c)"
    if "their_stream p = SsHandshake j" for j d
    using tracks_sub_opened [OF assms(1, 2), of "p\<lparr>their_stream := SsOpen j\<rparr>" pid] that
    by (intro tracks_try) simp
  show ?thesis
  proof (cases "their_stream p")
    case SsClosed
    have "tracks pid c (conn_try (ym_accept_protocol i n (cn_yamux c))
        (\<lambda>_. open_our_side P (p\<lparr>their_stream := SsHandshake i\<rparr>)) c)" for n
      by (intro tracks_try tracks_open_our_side [OF assms(1, 2) SsClosed refl]) (use assms(3) in simp)
    with SsClosed show ?thesis by (simp add: on_inbound_def tracks_def [of _ _ "(CnContinue, _)"])
  next
    case (SsHandshake j)
    with opened [OF SsHandshake] ends show ?thesis
      by (simp add: on_inbound_def Let_def split: MsOutputState.splits CloseReason.splits)
  next
    case (SsOpen j)
    have "tracks pid c (cn_message (MNotification q (SrValue d)), c)" for q d by (simp add: tracks_def)
    with SsOpen ends show ?thesis
      by (simp add: on_inbound_def Let_def split: MsOutputState.splits CloseReason.splits)
  qed
qed

lemma tracks_quiet:
  assumes "subscription_details c' = subscription_details c" and "next_buf c' = next_buf c"
    and "\<forall>m \<in> set (outcome_messages r). \<forall>q res. m \<noteq> MNotification q res"
  shows "tracks pid c (r, c')"
proof -
  have "(\<forall>q res. m \<noteq> MNotification q res) \<Longrightarrow> sub_monitor pid (Some b) m = Some b" for m b
    by (cases m) auto
  then have "foldl (sub_monitor pid) (Some b) (outcome_messages r) = Some b" for b
    using assms(3) by (cases r rule: outcome_messages.cases) auto
  moreover have "sub_ids c' = sub_ids c" "both_open c' pid = both_open c pid"
    using assms(1) by (simp_all add: sub_ids_def both_open_def sub_of_def)
  ultimately show ?thesis using assms(2) by (simp add: tracks_def)
qed

lemma tracks_inflight: "tracks pid c (on_inflight i q info st c)"
proof -
  have "tracks pid c (inflight_reply i q res reset c)" for res reset
    unfolding inflight_reply_def by (rule tracks_quiet) simp_all
  moreover have "tracks pid c (conn_try (ym_send_data i req (cn_yamux c))
      (\<lambda>_ c. (CnContinue, c\<lparr>cn_yamux := ym_close_stream i (cn_yamux c),
         inflight_requests := bt_insert i (q, AwaitingResponsePayload) (inflight_requests c)\<rparr>))
      (c\<lparr>inflight_requests := bt_insert i (q, AwaitingProtocolConfirmation []) (inflight_requests c)\<rparr>))" for req
    by (auto simp: conn_try_def intro: tracks_quiet split: option.splits prod.splits sum.splits)
  ultimately show ?thesis
    by (simp add: on_inflight_def split: RequestState.splits MsOutputState.splits CloseReason.splits)
qed

lemma tracks_incoming_request: "tracks pid c (on_incoming_request i q st (c\<lparr>incoming_requests := b\<rparr>))"
  by (auto simp: on_incoming_request_def Let_def intro: tracks_quiet split: MsOutputState.splits CloseReason.splits)

lemma tracks_serve:
  "tracks pid c (conn_try (ym_accept_protocol i n (cn_yamux c))
     (\<lambda>_ c. (CnContinue, c\<lparr>incoming_requests := bt_insert i q (incoming_requests c)\<rparr>)) c)"
  by (auto simp: conn_try_def intro: tracks_quiet split: option.splits prod.splits sum.splits)

lemma tracks_unknown: "tracks pid c (on_unknown i st c)"
  by (auto simp: on_unknown_def conn_try_def intro: tracks_quiet
      split: MsOutputState.splits option.splits prod.splits sum.splits)

lemma tracks_dispatch: "distinct (sub_ids c) \<Longrightarrow> tracks pid c (conn_dispatch out c)"
  using tracks_inbound [of c "is_inbound (mo_stream_id out) (mo_state out)" _ "mo_stream_id out"]
  by (simp add: conn_dispatch_def Let_def tracks_inflight tracks_incoming_request tracks_outbound
      is_inbound_def [of _ _ "_\<lparr>our_stream := _\<rparr>"] inbound_stream_id_def tracks_serve tracks_unknown split: option.splits prod.splits)

section \<open>Runs follow the monitor\<close>

text \<open>After the messages in \<open>next_buf\<close>, the monitor is in the state of the streams.\<close>

definition in_sync :: "SubscriptionProtocolId \<Rightarrow> bool option \<Rightarrow> ('r, 'w, 'z) Connection \<Rightarrow> bool" where
  "in_sync pid b c \<longleftrightarrow> foldl (sub_monitor pid) b (next_buf c) = Some (both_open c pid)"

lemma timeouts_subs:
  assumes "handle_request_timeouts pf now c = (r, c')"
  shows "subscription_details c' = subscription_details c \<and> next_buf c' = next_buf c \<and>
    (\<forall>m. r = Some m \<longrightarrow> (\<exists>i q. m = MResponse i q (RsError RrTimeout)))"
  using assms by (auto simp: handle_request_timeouts_def Let_def split: prod.splits option.splits)

lemma top_sync:
  assumes "conn_top pf now c = (r, c')" and "in_sync pid b c"
  shows "sub_ids c' = sub_ids c \<and> in_sync pid (foldl (sub_monitor pid) b (case r of None \<Rightarrow> [] | Some m \<Rightarrow> [m])) c' \<and>
    (r = None \<longrightarrow> next_buf c' = [])"
proof (cases "next_buf c")
  case Nil
  with assms(1) have h: "handle_request_timeouts pf now c = (r, c')" by (simp add: conn_top_def)
  note t = timeouts_subs [OF h]
  have "sub_monitor pid b (MResponse i q res) = b" for i q res by (cases b) simp_all
  with t Nil assms(2) show ?thesis
    by (auto simp: in_sync_def sub_ids_def both_open_def sub_of_def split: option.splits)
next
  case (Cons m ms)
  with assms show ?thesis by (auto simp: conn_top_def in_sync_def)
qed

lemma await_sync:
  assumes "conn_await rd wr sl fuel k u c = (r, u', c')" and "distinct (sub_ids c)"
    and "in_sync pid b c" and "next_buf c = []"
  shows "sub_ids c' = sub_ids c \<and> next_buf c' = [] \<and>
    in_sync pid (foldl (sub_monitor pid) b (outcome_messages r)) c'"
proof -
  have "tracks pid c (r, c')"
  proof (cases "ym_next rd wr sl fuel k u (cn_yamux c)")
    case (Done x)
    obtain p u1 y where x: "x = (p, u1, y)" by (metis prod_cases3)
    let ?c = "c\<lparr>cn_yamux := y\<rparr>"
    show ?thesis
    proof (cases "\<exists>out. p = Ready (Some (Inr out))")
      case True
      then obtain out where "p = Ready (Some (Inr out))" by blast
      with assms(1) Done x have "conn_dispatch out ?c = (r, c')"
        by (auto simp: conn_await_def Let_def split: prod.splits)
      with tracks_dispatch [of ?c pid out] assms(2) show ?thesis by (simp add: tracks_def)
    next
      case False
      with assms(1) Done x have "c' = ?c" "outcome_messages r = []"
        by (auto simp: conn_await_def Let_def split: poll.splits option.splits sum.splits)
      then show ?thesis by (simp add: tracks_def)
    qed
  qed (use assms(1) in \<open>simp_all add: conn_await_def tracks_def\<close>)
  with assms(3, 4) show ?thesis by (simp add: tracks_def in_sync_def)
qed

fun result_messages :: "('e + Message option) poll \<Rightarrow> Message list" where
  "result_messages (Ready (Inr (Some m))) = [m]"
| "result_messages _ = []"

lemma next_inner_sync:
  "conn_next_inner pf clk rd wr sl fuel k n fut c = Done (p, fut', c') \<Longrightarrow> distinct (sub_ids c) \<Longrightarrow>
   in_sync pid b c \<Longrightarrow> (fut \<noteq> None \<longrightarrow> next_buf c = []) \<Longrightarrow>
   sub_ids c' = sub_ids c \<and> in_sync pid (foldl (sub_monitor pid) b (result_messages p)) c' \<and>
   (fut' \<noteq> None \<longrightarrow> next_buf c' = [])"
proof (induction n arbitrary: fut c)
  case (Suc n)
  obtain msg c1 where top: "(case fut of Some u \<Rightarrow> (None, c) | None \<Rightarrow> conn_top pf (clk n) c) = (msg, c1)"
    by fastforce
  have t: "sub_ids c1 = sub_ids c \<and>
      in_sync pid (foldl (sub_monitor pid) b (case msg of None \<Rightarrow> [] | Some m \<Rightarrow> [m])) c1 \<and>
      (msg = None \<longrightarrow> next_buf c1 = [])"
    using top top_sync [of pf "clk n" c msg c1 pid b] Suc.prems(3, 4) by (cases fut) auto
  show ?case
  proof (cases msg)
    case (Some m)
    with Suc.prems(1) top t show ?thesis by auto
  next
    case None
    obtain r u c2 where aw: "conn_await rd wr sl fuel k (case fut of Some u \<Rightarrow> u | None \<Rightarrow> 0) c1 = (r, u, c2)"
      by (metis prod_cases3)
    have a: "sub_ids c2 = sub_ids c \<and> next_buf c2 = [] \<and>
        in_sync pid (foldl (sub_monitor pid) b (outcome_messages r)) c2"
      using await_sync [OF aw, of pid b] t None Suc.prems(2) by simp
    show ?thesis
    proof (cases r)
      case CnContinue
      with Suc.prems(1) top None aw
      have "conn_next_inner pf clk rd wr sl fuel k n None c2 = Done (p, fut', c')" by simp
      from Suc.IH [OF this] a Suc.prems(2) CnContinue show ?thesis by simp
    next
      case (CnReturn res)
      with Suc.prems(1) top None aw have "p = Ready res" "c' = c2" by auto
      moreover have "outcome_messages (CnReturn res) = result_messages (Ready res)"
        by (cases res; cases "projr res") auto
      ultimately show ?thesis using a CnReturn by simp
    next
      case CnPending
      with Suc.prems(1) top None aw have "p = Pending" "c' = c2" by auto
      then show ?thesis using a CnPending by simp
    qed (use Suc.prems(1) top None aw in simp_all)
  qed
qed simp

fun label_messages :: "conn_label \<Rightarrow> Message list" where
  "label_messages (LMessage m) = [m]"
| "label_messages _ = []"

lemma next_sync:
  assumes "conn_next pf clk rd wr sl fuel k n fut c = Done (p, fut', c')" and "distinct (sub_ids c)"
    and "in_sync pid b c" and "fut \<noteq> None \<longrightarrow> next_buf c = []"
  shows "sub_ids c' = sub_ids c \<and> in_sync pid (foldl (sub_monitor pid) b (label_messages (poll_label p))) c' \<and>
    (fut' \<noteq> None \<longrightarrow> next_buf c' = [])"
proof (cases "fut = None \<and> cn_finished c")
  case False
  show ?thesis
  proof (cases "conn_next_inner pf clk rd wr sl fuel k n fut c")
    case (Done x)
    obtain q fut1 c1 where x: "x = (q, fut1, c1)" by (metis prod_cases3)
    note a = next_inner_sync [OF Done [unfolded x] assms(2-4)]
    have fin: "in_sync pid b' (c1\<lparr>cn_finished := f\<rparr>) = in_sync pid b' c1" for f b' by (simp add: in_sync_def)
    show ?thesis
      using assms(1) False Done x a fin
      by (auto simp: conn_next_def split: poll.splits sum.splits option.splits)
  qed (use assms(1) False in \<open>simp_all add: conn_next_def\<close>)
qed (use assms in \<open>auto simp: conn_next_def\<close>)

lemma subscribe_subs:
  assumes "conn_subscribe q c = Some (res, c')" and "distinct (sub_ids c)"
  shows "sub_ids c' = sub_ids c \<and> next_buf c' = next_buf c \<and> both_open c' pid = both_open c pid"
proof (cases "List.find (\<lambda>p. sd_protocol_id p = q) (subscription_details c)")
  case (Some p)
  have q: "sd_protocol_id p = q" using find_holds [OF Some] .
  show ?thesis
  proof (cases "ss_is_closed (our_stream p) \<and> (\<exists>i y. ym_open_stream [sp_name (sd_protocol p)]
      (sp_max_response_size_in_bytes (sd_protocol p)) (cn_yamux c) = Some (Inr i, y))")
    case True
    then obtain i y where "ym_open_stream [sp_name (sd_protocol p)]
        (sp_max_response_size_in_bytes (sd_protocol p)) (cn_yamux c) = Some (Inr i, y)" by blast
    with assms(1) Some True
    have c': "subscription_details c' = update_first (\<lambda>p. sd_protocol_id p = q)
          (\<lambda>_. p\<lparr>our_stream := SsHandshake i\<rparr>) (subscription_details c)" "next_buf c' = next_buf c"
      using update_first_const [OF Some, of "\<lambda>p. p\<lparr>our_stream := SsHandshake i\<rparr>"]
      by (auto simp: conn_subscribe_def)
    moreover have "\<not> both_open c q"
      using both_open_found [OF assms(2) Some] True q by (cases "our_stream p") auto
    ultimately show ?thesis using sub_update [OF c'(1) assms(2) Some] q by simp
  next
    case False
    with assms(1) Some show ?thesis
      by (auto simp: conn_subscribe_def split: if_splits option.splits prod.splits sum.splits)
  qed
qed (use assms(1) in \<open>auto simp: conn_subscribe_def\<close>)

lemma cancel_subscription_sync:
  assumes "in_sync pid b c" and "distinct (sub_ids c)"
  shows "sub_ids (conn_cancel_subscription q c) = sub_ids c \<and> in_sync pid b (conn_cancel_subscription q c)"
proof (cases "cancel_subscription_silently q c")
  case (Pair found c1)
  note s = cancel_silently_subs [OF assms(2), of q, unfolded Pair snd_conv]
  have "found = False \<Longrightarrow> c1 = c"
    using Pair by (auto simp: cancel_subscription_silently_def split: option.splits)
  with assms(1) s Pair show ?thesis
    by (cases found) (auto simp: conn_cancel_subscription_def in_sync_def)
qed

text \<open>Operations that leave the subscriptions and the buffered messages alone.\<close>

lemma quiet_ops:
  "conn_request pf now rid req c = Some (res, c') \<Longrightarrow>
     subscription_details c' = subscription_details c \<and> next_buf c' = next_buf c"
  "conn_respond sid d c = Some c' \<Longrightarrow>
     subscription_details c' = subscription_details c \<and> next_buf c' = next_buf c"
  "conn_send_notification q d c = Some (res', c') \<Longrightarrow>
     subscription_details c' = subscription_details c \<and> next_buf c' = next_buf c"
  by (auto simp: conn_request_def conn_respond_def conn_send_notification_def
      split: option.splits sum.splits ResponseId.splits SubscriptionStreamState.splits)

lemma quiet_environment:
  "subscription_details (conn_wake j c) = subscription_details c" "next_buf (conn_wake j c) = next_buf c"
  "subscription_details (conn_set_reader r c) = subscription_details c" "next_buf (conn_set_reader r c) = next_buf c"
  "sub_ids (conn_wake j c) = sub_ids c" "sub_ids (conn_set_reader r c) = sub_ids c"
  by (simp_all add: conn_wake_def conn_set_reader_def sub_ids_def)

lemma cancel_request_sync:
  "in_sync pid b c \<Longrightarrow> sub_ids (conn_cancel_request rid c) = sub_ids c \<and> in_sync pid b (conn_cancel_request rid c)"
  by (auto simp: conn_cancel_request_def in_sync_def split: RequestId.splits option.splits)

lemma quiet_sync:
  "subscription_details c' = subscription_details c \<Longrightarrow> next_buf c' = next_buf c \<Longrightarrow> in_sync pid b c \<Longrightarrow>
   sub_ids c' = sub_ids c \<and> in_sync pid b c'"
  by (simp add: in_sync_def sub_ids_def both_open_def sub_of_def)

definition run_inv :: "SubscriptionProtocolId \<Rightarrow> bool option \<Rightarrow> ('r, 'w, 'z) Connection \<times> nat option \<Rightarrow> bool" where
  "run_inv pid b s \<longleftrightarrow> distinct (sub_ids (fst s)) \<and> in_sync pid b (fst s) \<and> (snd s \<noteq> None \<longrightarrow> next_buf (fst s) = [])"

lemma run_inv_step:
  assumes "conn_step pf rd wr sl s l t" and "run_inv pid b s"
  shows "run_inv pid (foldl (sub_monitor pid) b (label_messages l)) t"
  using assms(1)
proof (cases rule: conn_step.cases)
  case (cs_subscribe q c res c' fut)
  with assms(2) subscribe_subs [OF cs_subscribe(4)] show ?thesis by (auto simp: run_inv_def in_sync_def)
next
  case (cs_next clk fuel k n fut c p fut' c')
  with assms(2) next_sync [OF cs_next(4)] show ?thesis by (auto simp: run_inv_def)
qed (use assms(2) in \<open>auto simp: run_inv_def quiet_environment cancel_request_sync cancel_subscription_sync
      dest: quiet_sync [OF quiet_environment(1, 2)] quiet_sync [OF quiet_environment(3, 4)]
      dest!: quiet_ops quiet_sync\<close>)

fun run_messages :: "conn_label list \<Rightarrow> Message list" where
  "run_messages [] = []"
| "run_messages (l # ls) = label_messages l @ run_messages ls"

lemma run_messages_append [simp]: "run_messages (xs @ ys) = run_messages xs @ run_messages ys"
  by (induction xs) simp_all

lemma run_inv_trace:
  assumes "trace (conn_step pf rd wr sl) s ls t" and "run_inv pid b s"
  shows "run_inv pid (foldl (sub_monitor pid) b (run_messages ls)) t"
  using assms
proof (induction rule: trace.induct)
  case (trace_step ls t l u)
  then show ?case using run_inv_step [OF trace_step.hyps(2)] by simp
qed simp

section \<open>Properties\<close>

text \<open>
  (C5) Notifications describe the subscription. In every run of a fresh connection whose
  subscription protocols have distinct identifiers, the notifications handed out for a protocol,
  followed by those that wait to be handed out, are accepted by the monitor: \<open>Opened\<close> never comes
  twice without a \<open>Closed\<close> or an \<open>Error\<close> in between. And the monitor ends in the state opened
  exactly if both streams of the subscription are open, that is, exactly if notifications can be
  sent and received.
\<close>

theorem subscription_lifecycle:
  assumes "fresh_connection c" and "distinct (map sd_protocol_id (subscription_details c))"
    and "trace (conn_step pf rd wr sl) (c, None) ls (c', fut)"
  shows "foldl (sub_monitor pid) (Some False) (run_messages ls @ next_buf c') = Some (both_open c' pid)"
proof -
  have "\<not> both_open c pid"
    using assms(1) by (auto simp: fresh_connection_def both_open_def sub_of_def find_Some_iff split: option.splits)
  then have "run_inv pid (Some False) (c, None)"
    using assms(1, 2) by (simp add: run_inv_def in_sync_def fresh_connection_def sub_ids_def)
  from run_inv_trace [OF assms(3) this] show ?thesis by (simp add: run_inv_def in_sync_def)
qed

theorem subscription_lifecycle_witness:
  "\<exists>(c' :: (MockStream, MockStream, nat) Connection) fut.
     trace (conn_step (clock_platform False) mock_read_exact mock_write_all (\<lambda>_. 0)) (demo_connection, None)
       [LSilent, LMessage (MNotification (SubscriptionProtocolId 1) SrClosed)] (c', fut) \<and>
     \<not> both_open c' (SubscriptionProtocolId 1)"
proof -
  let ?pf = "clock_platform False" and ?st = "conn_step (clock_platform False) mock_read_exact mock_write_all (\<lambda>_. 0)"
  let ?q = "SubscriptionProtocolId 1" and ?msg = "MNotification (SubscriptionProtocolId 1) SrClosed"
  let ?c1 = "conn_cancel_subscription ?q demo_connection"
  have nb: "next_buf ?c1 = [?msg]" "\<not> cn_finished ?c1"
    by (simp_all add: conn_cancel_subscription_def cancel_subscription_silently_def demo_connection_def)
  let ?c2 = "?c1\<lparr>next_buf := []\<rparr>"
  have nx: "conn_next ?pf (\<lambda>_. 0) mock_read_exact mock_write_all (\<lambda>_. 0) 0 0 (Suc 0) None ?c1 =
      Done (Ready (Some (Inr ?msg)), None, ?c2)"
    using nb by (simp add: conn_next_def conn_top_def)
  have "trace ?st (demo_connection, None) ([] @ [LSilent]) (?c1, None)"
    by (rule trace_step [OF trace_nil]) (rule cs_cancel_subscription)
  moreover have "?st (?c1, None) (LMessage ?msg) (?c2, None)" using cs_next [OF nx] by simp
  ultimately have "trace ?st (demo_connection, None) (([] @ [LSilent]) @ [LMessage ?msg]) (?c2, None)"
    by (rule trace_step)
  then have tr: "trace ?st (demo_connection, None) [LSilent, LMessage ?msg] (?c2, None)" by simp
  have "distinct (map sd_protocol_id (subscription_details demo_connection))" by (simp add: demo_connection_def)
  from subscription_lifecycle [OF demo_fresh this tr, of ?q] have "\<not> both_open ?c2 ?q" by simp
  with tr show ?thesis by blast
qed

end
