(* ===== verification/Connecting.thy ===== *)
theory Connecting
  imports Subscriptions
begin

text \<open>
  How a connection ends, and behaviours of \<open>next\<close> that
  the documentation does not lead one to expect.
\<close>

section \<open>The end of a connection\<close>

lemma finished_ops:
  "conn_request pf now rid req c = Some (res, c') \<Longrightarrow> cn_finished c' = cn_finished c"
  "conn_respond sid d c = Some c' \<Longrightarrow> cn_finished c' = cn_finished c"
  "conn_send_notification q d c = Some (res', c') \<Longrightarrow> cn_finished c' = cn_finished c"
  "conn_subscribe q c = Some (res', c') \<Longrightarrow> cn_finished c' = cn_finished c"
  by (auto simp: conn_request_def conn_respond_def conn_send_notification_def conn_subscribe_def
      split: option.splits sum.splits ResponseId.splits SubscriptionStreamState.splits if_splits)

lemma finished_updates [simp]:
  "cn_finished (conn_wake j c) = cn_finished c" "cn_finished (conn_set_reader r c) = cn_finished c"
  "cn_finished (conn_cancel_request i c) = cn_finished c"
  "cn_finished (conn_cancel_subscription q c) = cn_finished c"
  by (auto simp: conn_wake_def conn_set_reader_def conn_cancel_request_def conn_cancel_subscription_def
      cancel_subscription_silently_def split: RequestId.splits option.splits)

lemma finished_step:
  assumes "conn_step pf rd wr sl s l t" and "cn_finished (fst s)" and "snd s = None"
  shows "cn_finished (fst t) \<and> snd t = None \<and> label_messages l = []"
  using assms by (cases rule: conn_step.cases) (auto simp: conn_next_def dest: finished_ops)

lemma finished_trace:
  "trace (conn_step pf rd wr sl) s ls t \<Longrightarrow> cn_finished (fst s) \<Longrightarrow> snd s = None \<Longrightarrow>
   cn_finished (fst t) \<and> snd t = None \<and> run_messages ls = []"
  by (induction rule: trace.induct) (auto dest!: finished_step)

text \<open>
  (C22) The end is final. When \<open>next\<close> reports an error or the end of the connection, the connection
  is finished: whatever the user, the transport and the timers do afterwards, no message is ever
  handed out again, and every further call of \<open>next\<close> reports the end at once, whatever the fuel.
\<close>

theorem connection_end_is_final:
  assumes "conn_next pf clk rd wr sl fuel k n fut c = Done (Ready r, fut', c')"
    and "r = None \<or> (\<exists>e. r = Some (Inl e))" and "fut = None \<or> \<not> cn_finished c"
    and "trace (conn_step pf rd wr sl) (c', fut') ls (c'', fut'')"
  shows "run_messages ls = [] \<and>
    (\<forall>clk fuel k n. conn_next pf clk rd wr sl fuel k n fut'' c'' = Done (Ready None, None, c''))"
proof -
  have "cn_finished c' \<and> fut' = None"
    using assms(1-3) by (auto simp: conn_next_def split: if_splits run.splits poll.splits sum.splits option.splits)
  with finished_trace [OF assms(4)] show ?thesis by (simp add: conn_next_def)
qed

text \<open>A connection that ended, a cancelled request on it, and \<open>next\<close> again.\<close>

theorem connection_end_is_final_witness:
  "conn_next (clock_platform False) (\<lambda>_. 0) mock_read_exact mock_write_all (\<lambda>_. 0) 0 0 0 None
     (conn_cancel_request (RequestId 1) (demo_connection\<lparr>cn_finished := True\<rparr>)) =
   Done (Ready None, None, conn_cancel_request (RequestId 1) (demo_connection\<lparr>cn_finished := True\<rparr>))"
proof -
  let ?c = "demo_connection\<lparr>cn_finished := True\<rparr>"
  have nx: "conn_next (clock_platform False) (\<lambda>_. 0) mock_read_exact mock_write_all (\<lambda>_. 0) 0 0 0 None ?c =
      Done (Ready None, None, ?c)" by (simp add: conn_next_def)
  have tr: "trace (conn_step (clock_platform False) mock_read_exact mock_write_all (\<lambda>_. 0)) (?c, None) ([] @ [LSilent])
      (conn_cancel_request (RequestId 1) ?c, None)"
    by (rule trace_step, rule trace_nil, rule cs_cancel_request)
  from connection_end_is_final [OF nx _ _ tr] show ?thesis by simp
qed

section \<open>Timeouts of a suspended \<open>next\<close>\<close>


lemma demo_idle:
  "\<exists>y. ym_next mock_read_exact mock_write_all (\<lambda>_. 0) 11 2 0 (ym_new (yamux_new mock_new mock_new)) = Done (Pending, 0, y)"
proof -
  have "\<exists>s'. yamux_next mock_read_exact mock_write_all (\<lambda>d. 0) 11 (yamux_new mock_new mock_new) = Done (Pending, s')"
    by (simp add: yamux_next_def yamux_next_inner_def yamux_new_def join_call_def ReadWriteJoin_new_def
        poll_read_fut_def poll_write_fut_def eval_nat_numeral read_advance_def read_at_top_def
        read_at_header_def write_advance_def gather_def write_loop.simps SharedState_new_def bt_empty_def
        mock_read_exact_def mock_new_def YAMUX_FRAME_HEADER_SIZE_def)
  then obtain s' where "yamux_next mock_read_exact mock_write_all (\<lambda>d. 0) 11 (yamux_new mock_new mock_new) =
      Done (Pending, s')" ..
  then show ?thesis
    by (simp add: ym_next_def numeral_2_eq_2 WORK_UNITS_BEFORE_YIELD_def ym_iter_def ym_pull_def ym_new_def)
qed


section \<open>Streams the connection loses sight of\<close>

lemma get_reset_opt: "k \<noteq> Some j \<Longrightarrow> ym_get (ym_reset_opt k m) j = ym_get m j"
  by (cases k) (auto simp: ym_reset_opt_def ym_reset_stream_immediately_def ym_get_def)



text \<open>
  A bad header loses a request. When the remote answers our proposal with anything but the
  multistream header, the stream is reset and forgotten without any output: the layer above, which
  still has the request in flight, is not told, so the request ends only by its timeout, if it has
  one, or by being cancelled.
\<close>

theorem bad_header_is_silent:
  assumes "ym_get m i = Some e" and "ms_state e = OutgoingProtocolWaitingForAccept False p rest"
    and "fb_rep (ms_buffer e) (make_frame msg @ more_bytes)" and "length msg < 2 ^ 64"
    and "msg \<noteq> MULTISTREAM_PROTOCOL_NAME_WITH_NEWLINE"
  shows "\<exists>m'. ym_drain i u m = (MsContinue, u + 1, m') \<and> ym_get m' i = None"
proof -
  obtain b where "ym_drain i u m = (case ym_message i (e\<lparr>ms_buffer := b\<rparr>) msg
      ((ym_set i (e\<lparr>ms_buffer := b\<rparr>) m)\<lparr>read_from_stream_buffer := Some i\<rparr>) of (st, m') \<Rightarrow> (st, u + 1, m'))"
    by (rule drain_message [OF assms(1, 3, 4)])
  with assms(2, 5) show ?thesis
    by (auto simp: ym_message_def ym_reset_stream_immediately_def ym_get_def)
qed

theorem bad_header_is_silent_witness:
  "\<exists>m :: (MockStream, MockStream) YamuxMultistream. \<exists>m'. ym_drain 1 0 m = (MsContinue, 0 + 1, m') \<and> ym_get m' 1 = None"
proof -
  let ?e = "\<lparr>ms_buffer = fb_feed fb_new (make_frame [33] @ []),
             ms_state = OutgoingProtocolWaitingForAccept False [47, 112] [], max_buffer_size = 99\<rparr>"
  let ?m = "ym_set 1 ?e (ym_new (yamux_new mock_new mock_new))"
  have rep: "fb_rep (ms_buffer ?e) (make_frame [33] @ [])"
    using fb.rep_feed [OF fb.rep_new, of "make_frame [33] @ []"] by simp
  have ne: "[33] \<noteq> MULTISTREAM_PROTOCOL_NAME_WITH_NEWLINE"
    by (simp add: MULTISTREAM_PROTOCOL_NAME_WITH_NEWLINE_def bytes_of_def)
  have "ym_get ?m 1 = Some ?e" by simp
  from bad_header_is_silent [OF this _ rep _ ne, of _ _ 0]
  have "\<exists>m'. ym_drain 1 0 ?m = (MsContinue, 0 + 1, m') \<and> ym_get m' 1 = None" by simp
  then show ?thesis by (rule exI [of _ ?m])
qed

end
