(* ===== verification/EventEffects.thy ===== *)
theory EventEffects
  imports ConnectionRuns
begin

text \<open>
  What the connection does to the multistream layer below it. Handling an event (\<open>conn_dispatch\<close>)
  and the operations of the user only touch that layer by calling its operations, so that every
  relation that these keep is kept by the connection. The locale \<open>stream_effects\<close> is that
  argument for what does not open streams, \<open>opening_effects\<close> for everything; they are used for
  termination (\<open>Progress\<close>) and for the absence of panics (\<open>NoPanic\<close>).
\<close>

section \<open>Operations that never panic\<close>

lemma send_chunks_not_none: "send_chunks i len cs m \<noteq> None"
  using varint_fits [of len] by (auto simp: send_chunks_def split: option.split prod.split sum.split)

lemma ops_total:
  "ym_send_data i d m \<noteq> None" "ym_accept_protocol i n m \<noteq> None" "ym_reject_protocol i m \<noteq> None"
  using send_chunks_not_none
  by (auto simp: ym_send_data_def ym_accept_protocol_def ym_reject_protocol_def send_multistream_data_def
      send_multistream_data_with_newline_def split: option.split MultistreamState.split)

lemma ops_some [simp]:
  "\<exists>r m'. ym_send_data i d m = Some (r, m')" "\<exists>r m'. ym_accept_protocol i n m = Some (r, m')"
  "\<exists>r m'. ym_reject_protocol i m = Some (r, m')"
  using ops_total by fastforce+

section \<open>Effects\<close>

definition settles ::
  "(('r, 'w) YamuxMultistream \<Rightarrow> ('r, 'w) YamuxMultistream \<Rightarrow> bool) \<Rightarrow> conn_outcome set
     \<Rightarrow> ('r, 'w, 'z) Connection \<Rightarrow> conn_outcome \<times> ('r, 'w, 'z) Connection \<Rightarrow> bool" where
  "settles R bad c x \<longleftrightarrow> R (cn_yamux c) (cn_yamux (snd x)) \<and> fst x \<notin> bad"

lemma settles_pair [simp]: "settles R bad c (r, c') \<longleftrightarrow> R (cn_yamux c) (cn_yamux c') \<and> r \<notin> bad"
  by (simp add: settles_def)

lemma settles_fields: "settles R bad c' x \<Longrightarrow> cn_yamux c' = cn_yamux c \<Longrightarrow> settles R bad c x"
  by (simp add: settles_def)

lemma settles_weaken: "settles R bad c x \<Longrightarrow> bad' \<subseteq> bad \<Longrightarrow> settles R bad' c x"
  by (auto simp: settles_def)

locale stream_effects =
  fixes R :: "('r, 'w) YamuxMultistream \<Rightarrow> ('r, 'w) YamuxMultistream \<Rightarrow> bool"
  assumes R_refl: "R m m"
    and R_trans: "R m m' \<Longrightarrow> R m' m'' \<Longrightarrow> R m m''"
    and R_send: "ym_send_data i d m = Some (r, m') \<Longrightarrow> R m m'"
    and R_accept: "ym_accept_protocol i n m = Some (r, m') \<Longrightarrow> R m m'"
    and R_reject: "ym_reject_protocol i m = Some (r, m') \<Longrightarrow> R m m'"
    and R_close: "R m (ym_close_stream i m)"
    and R_reset: "R m (ym_reset_stream_immediately i m)"
begin

lemmas R_ops = R_send R_accept R_reject

lemma settles_from: "settles R bad c x \<Longrightarrow> R (cn_yamux c0) (cn_yamux c) \<Longrightarrow> settles R bad c0 x"
  by (auto simp: settles_def intro: R_trans)

lemma settles_try:
  assumes "\<And>r y. x = Some (r, y) \<Longrightarrow> R (cn_yamux c) y" and "x \<noteq> None \<or> CnPanic \<notin> bad"
    and "\<And>a y. R (cn_yamux c) y \<Longrightarrow> settles R bad c (k a (c'\<lparr>cn_yamux := y\<rparr>))" and "cn_yamux c' = cn_yamux c"
    and "bad \<subseteq> {CnOutOfFuel, CnPanic}"
  shows "settles R bad c (conn_try x k c')"
  using assms by (auto simp: conn_try_def R_refl split: option.splits prod.splits sum.splits)

lemma R_reset_opt: "R m (ym_reset_opt i m)"
  by (auto simp: ym_reset_opt_def R_reset R_refl split: option.splits)

lemma R_cancel: "R (cn_yamux c) (cn_yamux (snd (cancel_subscription_silently pid c)))"
  by (auto simp: cancel_subscription_silently_def R_refl intro: R_trans R_reset_opt split: option.splits)

lemma R_top: "R (cn_yamux c) (cn_yamux (snd (conn_top pf now c)))"
  by (auto simp: conn_top_def handle_request_timeouts_def Let_def R_reset R_refl
      split: list.splits prod.splits option.splits)

text \<open>No event that does not open a stream panics.\<close>

abbreviation calmly :: "('r, 'w, 'z) Connection \<Rightarrow> conn_outcome \<times> ('r, 'w, 'z) Connection \<Rightarrow> bool" where
  "calmly \<equiv> settles R {CnOutOfFuel, CnPanic}"

lemma settles_sub_end: "calmly c (sub_end pid res c)"
  by (auto simp: sub_end_def R_cancel)

lemma settles_sub_opened: "calmly c (sub_opened p c)"
  by (auto simp: sub_opened_def R_refl)

lemma settles_inflight: "calmly c (on_inflight i pid info st c)"
proof -
  have reply: "calmly c (inflight_reply i pid res reset c)" for res reset
    by (auto simp: inflight_reply_def R_reset R_refl)
  have closed: "R (cn_yamux c) y \<Longrightarrow> R (cn_yamux c) (ym_close_stream i y)" for y
    by (rule R_trans [OF _ R_close])
  show ?thesis
    by (auto simp: on_inflight_def reply intro!: settles_try intro: R_ops closed
        split: RequestState.splits MsOutputState.splits CloseReason.splits)
qed

lemma settles_incoming: "calmly c (on_incoming_request i pid st c)"
  by (auto simp: on_incoming_request_def R_reset R_refl split: MsOutputState.splits CloseReason.splits)

lemma settles_outbound: "calmly c (on_outbound P p st c)"
proof -
  have "calmly c (sub_opened p' (c\<lparr>subscription_details := ds\<rparr>))" for p' ds
    by (rule settles_fields [OF settles_sub_opened]) simp
  then show ?thesis
    by (auto simp: on_outbound_def Let_def settles_sub_end R_refl intro!: settles_try intro: R_ops
        split: SubscriptionStreamState.splits MsOutputState.splits CloseReason.splits)
qed

lemma settles_unknown: "calmly c (on_unknown i st c)"
  by (auto simp: on_unknown_def R_reset R_refl intro!: settles_try intro: R_ops split: MsOutputState.splits)

text \<open>The one event that opens a stream: the remote's stream is accepted and ours is not open yet.\<close>

lemma settles_inbound_or_opens:
  "calmly c (on_inbound P p i st c) \<or>
   (\<exists>n p' y. ym_accept_protocol i n (cn_yamux c) = Some (Inr (), y) \<and>
      on_inbound P p i st c = open_our_side P p' (c\<lparr>cn_yamux := y\<rparr>))"
proof (cases "their_stream p")
  case SsClosed
  obtain r y where acc: "ym_accept_protocol i (sp_max_response_size_in_bytes (sd_protocol p)) (cn_yamux c) = Some (r, y)"
    using ops_some(2) by blast
  with SsClosed R_accept [OF acc] show ?thesis
    by (cases r) (auto simp: on_inbound_def R_reset conn_try_def)
next
  case (SsHandshake j)
  have "calmly c (sub_opened p' (c\<lparr>cn_yamux := y, subscription_details := ds\<rparr>))" if "R (cn_yamux c) y" for y p' ds
    by (rule settles_from [OF settles_sub_opened]) (simp add: that)
  with SsHandshake have "calmly c (on_inbound P p i st c)"
    by (auto simp: on_inbound_def Let_def settles_sub_end intro!: settles_try intro: R_send
        split: MsOutputState.splits CloseReason.splits)
  then show ?thesis ..
next
  case (SsOpen j)
  then have "calmly c (on_inbound P p i st c)"
    by (auto simp: on_inbound_def Let_def settles_sub_end R_refl split: MsOutputState.splits CloseReason.splits)
  then show ?thesis ..
qed

lemma settles_dispatch_or_inbound:
  "calmly c (conn_dispatch out c) \<or> (\<exists>P p i st. conn_dispatch out c = on_inbound P p i st c)"
proof -
  let ?i = "mo_stream_id out" and ?st = "mo_state out"
  have incoming: "calmly c (on_incoming_request i pid st (c\<lparr>incoming_requests := q\<rparr>))" for i pid st q
    by (rule settles_fields [OF settles_incoming]) simp
  have served: "calmly c (conn_try (ym_accept_protocol i n (cn_yamux c))
      (\<lambda>_ c. (CnContinue, c\<lparr>incoming_requests := q c\<rparr>)) c)" for i n q
    by (rule settles_try) (auto simp: R_accept)
  show ?thesis
  proof (cases "bt_get (inflight_requests c) ?i")
    case (Some x)
    then show ?thesis by (cases x) (simp add: conn_dispatch_def Let_def settles_inflight)
  next
    case n1: None
    show ?thesis
    proof (cases "bt_get (incoming_requests c) ?i")
      case (Some pid)
      with n1 show ?thesis by (simp add: conn_dispatch_def Let_def incoming)
    next
      case n2: None
      show ?thesis
      proof (cases "List.find (is_outbound ?i) (subscription_details c)")
        case (Some p)
        with n1 n2 show ?thesis by (simp add: conn_dispatch_def Let_def settles_outbound)
      next
        case n3: None
        show ?thesis
        proof (cases "List.find (is_inbound ?i ?st) (subscription_details c)")
          case (Some p)
          with n1 n2 n3 have "conn_dispatch out c = on_inbound (is_inbound ?i ?st) p ?i ?st c"
            by (simp add: conn_dispatch_def Let_def)
          then show ?thesis by blast
        next
          case None
          with n1 n2 n3 show ?thesis
            by (cases "List.find (serves ?st) (request_details c)")
               (simp_all add: conn_dispatch_def Let_def served settles_unknown)
        qed
      qed
    qed
  qed
qed

lemma settles_dispatch_or_opens:
  "calmly c (conn_dispatch out c) \<or>
   (\<exists>P i n p y. ym_accept_protocol i n (cn_yamux c) = Some (Inr (), y) \<and>
      conn_dispatch out c = open_our_side P p (c\<lparr>cn_yamux := y\<rparr>))"
  using settles_dispatch_or_inbound [of c out] settles_inbound_or_opens by metis

end

locale opening_effects = stream_effects +
  assumes R_open: "ym_open_stream ps n m = Some (r, m') \<Longrightarrow> R m m'"
begin

lemma settles_open_our_side: "settles R {CnOutOfFuel} c (open_our_side P p c)"
  by (auto simp: open_our_side_def R_refl intro!: settles_try intro: R_open)

lemma settles_dispatch: "settles R {CnOutOfFuel} c (conn_dispatch out c)"
  using settles_dispatch_or_opens [of c out]
proof
  assume "calmly c (conn_dispatch out c)"
  then show ?thesis by (rule settles_weaken) simp
next
  assume "\<exists>P i n p y. ym_accept_protocol i n (cn_yamux c) = Some (Inr (), y) \<and>
      conn_dispatch out c = open_our_side P p (c\<lparr>cn_yamux := y\<rparr>)"
  then obtain P i n p y where acc: "ym_accept_protocol i n (cn_yamux c) = Some (Inr (), y)"
    and x: "conn_dispatch out c = open_our_side P p (c\<lparr>cn_yamux := y\<rparr>)" by blast
  show ?thesis unfolding x by (rule settles_from [OF settles_open_our_side]) (simp add: R_accept [OF acc])
qed

text \<open>The operations of the user.\<close>

lemma R_user_ops:
  "conn_request pf now pid req c = Some (res, c') \<Longrightarrow> R (cn_yamux c) (cn_yamux c')"
  "conn_respond sid d c = Some c' \<Longrightarrow> R (cn_yamux c) (cn_yamux c')"
  "conn_subscribe spid c = Some (res', c') \<Longrightarrow> R (cn_yamux c) (cn_yamux c')"
  "conn_send_notification spid d c = Some (res', c') \<Longrightarrow> R (cn_yamux c) (cn_yamux c')"
  "R (cn_yamux c) (cn_yamux (conn_cancel_request rid c))"
  "R (cn_yamux c) (cn_yamux (conn_cancel_subscription spid c))"
  using R_cancel [of c spid]
  by (auto simp: conn_request_def conn_respond_def conn_subscribe_def conn_send_notification_def
      conn_cancel_request_def conn_cancel_subscription_def R_reset R_refl
      intro: R_open R_send R_trans [OF R_send R_close]
      split: option.splits sum.splits prod.splits ResponseId.splits RequestId.splits
        SubscriptionStreamState.splits if_splits bool.splits)

end

text \<open>With \<open>next\<close> of the multistream layer it is every step of a run of the connection.\<close>

locale connection_effects = opening_effects +
  fixes rd and wr and sl
  assumes R_next: "ym_next rd wr sl fuel k u m = Done (p, u', m') \<Longrightarrow> R m m'"
    and R_transport: "R m (m\<lparr>ym_inner := (ym_inner m)\<lparr>ys_world := (ys_world (ym_inner m))\<lparr>yw_reader := r\<rparr>\<rparr>\<rparr>)"
begin

lemma await_effect:
  assumes "conn_await rd wr sl fuel k u c = (r, u', c')" shows "R (cn_yamux c) (cn_yamux c')"
proof (cases "ym_next rd wr sl fuel k u (cn_yamux c)")
  case (Done x)
  then obtain p v y where nx: "ym_next rd wr sl fuel k u (cn_yamux c) = Done (p, v, y)" by (metis prod_cases3)
  have "R (cn_yamux c) (cn_yamux c1)" if "conn_dispatch out (c\<lparr>cn_yamux := y\<rparr>) = (r1, c1)" for out r1 c1
    using settles_dispatch [of "c\<lparr>cn_yamux := y\<rparr>" out] that R_trans [OF R_next [OF nx]] by simp
  with assms nx R_next [OF nx] show ?thesis
    by (auto simp: conn_await_def Let_def split: poll.splits option.splits sum.splits prod.splits)
qed (use assms in \<open>simp_all add: conn_await_def R_refl\<close>)

lemma next_inner_effect:
  "conn_next_inner pf clk rd wr sl fuel k n fut c = Done (p, fut', c') \<Longrightarrow> R (cn_yamux c) (cn_yamux c')"
proof (induction n arbitrary: fut c)
  case (Suc n)
  obtain msg c1 where top: "(case fut of Some u \<Rightarrow> (None, c) | None \<Rightarrow> conn_top pf (clk n) c) = (msg, c1)" by fastforce
  have t: "R (cn_yamux c) (cn_yamux c1)"
    using R_top [where c = c and pf = pf and now = "clk n"] top by (auto simp: R_refl split: option.splits)
  obtain r u' c2 where aw: "conn_await rd wr sl fuel k (case fut of Some u \<Rightarrow> u | None \<Rightarrow> 0) c1 = (r, u', c2)"
    by (metis prod_cases3)
  have c2: "R (cn_yamux c) (cn_yamux c2)" by (rule R_trans [OF t await_effect [OF aw]])
  show ?case
  proof (cases msg)
    case None
    with Suc.prems top aw c2 show ?thesis by (cases r) (auto intro: R_trans [OF c2 Suc.IH])
  qed (use Suc.prems top t in simp)
qed simp

lemma conn_next_effect:
  "conn_next pf clk rd wr sl fuel k n fut c = Done (p, fut', c') \<Longrightarrow> R (cn_yamux c) (cn_yamux c')"
  by (auto simp: conn_next_def R_refl dest!: next_inner_effect
      split: if_splits run.splits prod.splits poll.splits sum.splits option.splits)

lemma step_effect: "conn_step pf rd wr sl x l y \<Longrightarrow> R (cn_yamux (fst x)) (cn_yamux (fst y))"
  by (erule conn_step.cases)
     (auto simp: conn_wake_def conn_set_reader_def R_refl R_transport R_user_ops(5, 6)
       dest: conn_next_effect R_user_ops(1-4))

lemma trace_effect: "trace (conn_step pf rd wr sl) x ls y \<Longrightarrow> R (cn_yamux (fst x)) (cn_yamux (fst y))"
  by (induction rule: trace.induct) (auto intro: R_refl R_trans step_effect)

end

text \<open>What the session keeps, the connection keeps.\<close>

sublocale session_effects \<subseteq> below: stream_effects "\<lambda>m m'. Q (ym_inner m) (ym_inner m')"
  by unfold_locales (auto intro: Q_refl Q_trans ops_effect close_effect reset_effect)

sublocale session_opens \<subseteq> below: opening_effects "\<lambda>m m'. Q (ym_inner m) (ym_inner m')"
  by unfold_locales (rule open_effect)

end
