(* ===== verification/Progress.thy ===== *)
theory Progress
  imports EventEffects
begin

text \<open>
  \<open>Connection::next\<close> comes back. The loop of \<open>next_inner\<close> goes round once for every event that is not
  for the user, so its length is a matter of what the remote has sent. A potential pays for it:
  the bytes the transport can still deliver, a header that was read, an output that is kept,
  and the bytes in the reassembly buffers. Every event the multistream layer hands out takes at
  least one unit, and nothing the connection does in response adds any.
\<close>

section \<open>The session\<close>

fun out_data :: "Output \<Rightarrow> nat" where
  "out_data out = (case out_state out of OData n \<Rightarrow> n | _ \<Rightarrow> 0)"

definition out_pot :: "Output option \<Rightarrow> nat" where
  "out_pot ob = (case ob of None \<Rightarrow> 0 | Some out \<Rightarrow> 1 + out_data out)"

fun pc_pot :: "read_pc \<Rightarrow> nat" where
  "pc_pot (AtData hdr) = (if hframe_type hdr = FtData then 12 else 12 + unat (hlength hdr))"
| "pc_pot _ = 0"

lemma out_pot_simps [simp]:
  "out_pot None = 0" "out_pot (Some (mk_output i ClosedByRemote)) = 1"
  "out_pot (Some (mk_output i OpenedByRemote)) = 1" "out_pot (Some (mk_output i (OData n))) = 1 + n"
  by (simp_all add: out_pot_def)

text \<open>What a step of the read future hands out.\<close>

fun step_pot :: "loop_step \<Rightarrow> nat" where
  "step_pot (Return (Inr ob)) = out_pot ob"
| "step_pot _ = 0"

lemma bookkeeping_pot: "out_pot (output_buf (data_bookkeeping hdr s sh)) \<le> out_pot (output_buf sh) + 1"
  by (simp add: data_bookkeeping_def Let_def)

lemma handle_frame_pot:
  assumes "handle_frame hdr sh = (st, sh')"
  shows "out_pot (output_buf sh') + step_pot st \<le>
    out_pot (output_buf sh) + 2 + (if hframe_type hdr = FtData then unat (hlength hdr) else 0)"
proof (cases "hframe_type hdr")
  case FtData
  obtain res sh1 where fs: "frame_stream hdr sh = (res, sh1)" by fastforce
  have "out_pot (output_buf (data_bookkeeping hdr s sh1)) \<le> out_pot (output_buf sh) + 1" for s
    using bookkeeping_pot [of hdr s sh1] output_frame_stream [OF fs] by simp
  moreover from this have "out_pot (output_buf (data_bookkeeping hdr s sh1)) \<le> out_pot (output_buf sh) + 2" for s
    by (simp add: le_SucI)
  ultimately show ?thesis
    using FtData fs output_frame_stream [OF fs] assms
    by (auto simp: handle_frame_def handle_data_def Let_def
        split: sum.splits option.splits OpenState.splits if_splits)
next
  case FtWindowUpdate
  obtain res sh1 where fs: "frame_stream hdr (flush_writes sh) = (res, sh1)" by fastforce
  with FtWindowUpdate output_frame_stream [OF fs] assms show ?thesis
    by (auto simp: handle_frame_def handle_window_update_def Let_def
        split: sum.splits option.splits if_splits)
next
  case FtPing
  with assms show ?thesis
    by (auto simp: handle_frame_def handle_ping_def reset_stream_immediately_with_shared_state_def
        Let_def split: if_splits option.splits)
next
  case FtGoAway
  with assms show ?thesis
    by (auto simp: handle_frame_def handle_goaway_def reset_stream_immediately_with_shared_state_def
        Let_def split: if_splits option.splits GoAwayType.splits)
qed

lemma write_next_output:
  "write_next sl wr fuel pc w sh = Some (r, pc', w', sh') \<Longrightarrow> output_buf sh' = output_buf sh"
proof (induction sl wr fuel pc w sh rule: write_next.induct)
  case (2 sl wr fuel pc w sh)
  obtain st pc1 w1 sh1 where a: "write_advance sl wr pc w sh = (st, pc1, w1, sh1)"
    by (metis prod_cases4)
  have "output_buf sh1 = output_buf sh"
    using a by (cases pc) (auto simp: write_advance_def write_await_def gather_def Let_def
        split: prod.splits poll.splits sum.splits if_splits)
  with 2 a show ?case by (cases st) auto
qed simp

text \<open>The potential of the read future and of the session, for the bytes \<open>left\<close> in the reader.\<close>

definition read_pot :: "('r \<Rightarrow> nat) \<Rightarrow> 'r ReadFuture \<Rightarrow> SharedState \<Rightarrow> nat" where
  "read_pot left f sh = left (rf_reader f) + pc_pot (rf_pc f) + out_pot (output_buf sh)"

fun fut_pot :: "read_fut_state option \<Rightarrow> nat" where
  "fut_pot (Some (Running pc)) = pc_pot pc"
| "fut_pot _ = 0"

definition ys_pot :: "('r \<Rightarrow> nat) \<Rightarrow> ('r, 'w) YamuxSession \<Rightarrow> nat" where
  "ys_pot left s = left (yw_reader (ys_world s)) + fut_pot (read_fut (read_write_join s)) +
     out_pot (output_buf (yw_shared_state (ys_world s)))"

fun read_step_pot :: "read_step \<Rightarrow> nat" where
  "read_step_pot (RReturn (Inr ob)) = out_pot ob"
| "read_step_pot _ = 0"

lemma after_handler_pot [simp]: "read_step_pot (after_handler st) = step_pot st"
  by (cases st rule: step_pot.cases) (simp_all add: after_handler_def)

context async_read
begin

lemma read_advance_pot:
  assumes "read_advance rd f sh = (st, f', sh')"
  shows "read_pot left f' sh' + read_step_pot st \<le> read_pot left f sh"
proof (cases "rf_pc f")
  case AtTop
  with assms show ?thesis
    by (auto simp: read_advance_def read_at_top_def read_pot_def split: option.splits)
next
  case AtHeader
  obtain p r where rd: "rd (rf_reader f) YAMUX_FRAME_HEADER_SIZE = (p, r)" by fastforce
  show ?thesis
  proof (cases "\<exists>buf hdr. p = Ready (Inr buf) \<and> header_decode buf = Inr hdr")
    case True
    then obtain buf hdr where p: "p = Ready (Inr buf)" "header_decode buf = Inr hdr" by blast
    have l: "left r + 12 \<le> left (rf_reader f)"
      using rd_left [OF rd [unfolded p(1)]] by (simp add: YAMUX_FRAME_HEADER_SIZE_def)
    show ?thesis
      using assms AtHeader rd p l handle_frame_pot [of hdr sh]
      by (auto simp: read_advance_def read_at_header_def read_pot_def Let_def split: if_splits prod.splits)
  next
    case False
    with assms AtHeader rd rd_mono_eq [OF rd] show ?thesis
      by (auto simp: read_advance_def read_at_header_def read_pot_def Let_def
          split: poll.splits sum.splits)
  qed
next
  case (AtData hdr)
  obtain p r where rd: "rd (rf_reader f) (unat (hlength hdr)) = (p, r)" by fastforce
  show ?thesis
  proof (cases "\<exists>buf. p = Ready (Inr buf)")
    case True
    then obtain buf where p: "p = Ready (Inr buf)" by blast
    obtain l sh1 where h: "handle_frame hdr sh = (l, sh1)" by fastforce
    from assms AtData rd p h rd_left [OF rd [unfolded p]] handle_frame_pot [OF h] show ?thesis
      by (auto simp: read_advance_def read_at_data_def read_pot_def split: if_splits)
  next
    case False
    with assms AtData rd rd_mono_eq [OF rd] show ?thesis
      by (auto simp: read_advance_def read_at_data_def read_pot_def split: poll.splits sum.splits)
  qed
qed

lemma read_next_pot:
  "read_next rd fuel f sh = Some (res, f', sh') \<Longrightarrow>
   read_pot left f' sh' + (case res of Ready (Inr ob) \<Rightarrow> out_pot ob | _ \<Rightarrow> 0) \<le> read_pot left f sh"
proof (induction fuel arbitrary: f sh)
  case (Suc fuel)
  obtain st f1 sh1 where adv: "read_advance rd f sh = (st, f1, sh1)"
    by (metis prod_cases3)
  note pot = read_advance_pot [OF adv]
  show ?case
  proof (cases st)
    case RLoop
    with Suc.IH [of f1 sh1] Suc.prems adv pot show ?thesis by auto
  next
    case (RReturn x)
    with Suc.prems adv pot show ?thesis by (cases x) auto
  qed (use Suc.prems adv pot in auto)
qed simp

lemma yamux_next_pot:
  assumes "yamux_next rd wr sl fuel s = Done (p, s')"
  shows "ys_pot left s' + (case p of Ready (Some (Inr out)) \<Rightarrow> 1 + out_data out | _ \<Rightarrow> 0) \<le> ys_pot left s"
proof (cases "ys_finished s")
  case True
  with assms show ?thesis by (auto simp: yamux_next_def ys_pot_def)
next
  case False
  let ?j = "read_write_join s"
  define fut where "fut = (case read_fut ?j of Some f \<Rightarrow> f | None \<Rightarrow> Running AtTop)"
  obtain res j' w' where call: "join_call (Running AtTop) (poll_read_fut rd fuel) (poll_write_fut sl wr fuel)
      ?j (ys_world s) = Done (res, j', w')"
    and res: "p = (case res of Pending \<Rightarrow> Pending | Ready (Inl e) \<Rightarrow> Ready (Some (Inl e))
        | Ready (Inr None) \<Rightarrow> Ready None | Ready (Inr (Some out)) \<Rightarrow> Ready (Some (Inr out)))"
    and s': "ys_world s' = w'" "read_write_join s' = j'"
    using assms False
    by (auto simp: yamux_next_def yamux_next_inner_def Let_def
        split: run.splits poll.splits sum.splits option.splits OutputState.splits)
  obtain rp fut' w1 where r: "poll_read_fut rd fuel fut (ys_world s) = Done (rp, fut', w1)"
    using call unfolding join_call_def fut_def [symmetric] Let_def by (auto split: run.splits)
  obtain pc f sh where pc: "fut = Running pc"
    and rn: "read_next rd fuel \<lparr>rf_pc = pc, rf_reader = yw_reader (ys_world s), rf_buf = yw_inbound_buf (ys_world s)\<rparr>
        (yw_shared_state (ys_world s)) = Some (rp, f, sh)"
    and w1: "w1 = \<lparr>yw_reader = rf_reader f, yw_inbound_buf = rf_buf f, yw_shared_state = sh\<rparr>"
    and fut': "fut' = (if rp = Pending then Running (rf_pc f) else Completed)"
    using r by (auto simp: poll_read_fut_def split: read_fut_state.splits option.splits)
  have start: "pc_pot pc = fut_pot (read_fut ?j)" using pc by (auto simp: fut_def split: option.splits)
  have "left (rf_reader f) + fut_pot (Some fut') + out_pot (output_buf sh) +
      (case rp of Ready (Inr ob) \<Rightarrow> out_pot ob | _ \<Rightarrow> 0) \<le> ys_pot left s"
    using read_next_pot [OF rn] start by (auto simp: read_pot_def ys_pot_def fut' split: if_splits)
  moreover have "yw_reader w' = rf_reader f \<and> output_buf (yw_shared_state w') = output_buf sh \<and>
      fut_pot (read_fut j') \<le> fut_pot (Some fut') \<and> (\<forall>out. res = Ready (Inr out) \<longrightarrow> rp = res)"
    using call r unfolding join_call_def fut_def [symmetric] Let_def
    by (auto simp: w1 poll_write_fut_def dest!: write_next_output
        split: run.splits poll.splits option.splits if_splits)
  ultimately show ?thesis
    using res s' by (auto simp: ys_pot_def out_pot_def split: poll.splits sum.splits option.splits)
qed

end

section \<open>The reassembly buffers\<close>

definition fb_pot :: "MultistreamFrameBuffer \<Rightarrow> nat" where
  "fb_pot b = length (fbuf b) + (case needs b of NeedsLen _ \<Rightarrow> 1 | DecodingLen _ \<Rightarrow> 0)"

lemma fb_next_loop_pot:
  "fb_next_loop b = (r, b') \<Longrightarrow> fb_pot b' + (case r of Some (Inr _) \<Rightarrow> 1 | _ \<Rightarrow> 0) \<le> fb_pot b"
proof (induction b arbitrary: r b' rule: fb_next_loop.induct)
  case (1 b)
  show ?case
  proof (cases "needs b")
    case (NeedsLen n)
    with 1(3) show ?thesis
      by (auto simp: fb_next_loop.simps [of b] fb_pot_def split: if_splits)
  next
    case (DecodingLen d)
    show ?thesis
    proof (cases "fbuf b")
      case (Cons c cs)
      show ?thesis
      proof (cases "Decoder_feed d c")
        case (DValue len)
        with 1(1) [OF DecodingLen Cons DValue, of r b'] 1(3) DecodingLen Cons show ?thesis
          by (simp add: fb_next_loop.simps [of b] fb_pot_def)
      next
        case (NeedsMoreBytes d')
        with 1(2) [OF DecodingLen Cons NeedsMoreBytes, of r b'] 1(3) DecodingLen Cons show ?thesis
          by (simp add: fb_next_loop.simps [of b] fb_pot_def)
      next
        case OutOfRange
        with 1(3) DecodingLen Cons show ?thesis
          by (auto simp: fb_next_loop.simps [of b] fb_pot_def)
      qed
    qed (use DecodingLen 1(3) in \<open>auto simp: fb_next_loop.simps [of b]\<close>)
  qed
qed

lemma fb_next_pot: "fb_next b = (r, b') \<Longrightarrow> fb_pot b' + (case r of Some (Inr _) \<Rightarrow> 1 | _ \<Rightarrow> 0) \<le> fb_pot b"
  by (auto simp: fb_next_def dest: fb_next_loop_pot split: if_splits)

lemma fb_pot_simps [simp]:
  "fb_pot fb_new = 0" "fb_pot (fb_feed b data) = fb_pot b + length data"
  by (simp_all add: fb_pot_def fb_new_def fb_feed_def)

text \<open>The buffers of a table.\<close>

definition entry_pot :: "Multistream option \<Rightarrow> nat" where
  "entry_pot e = (case e of None \<Rightarrow> 0 | Some ms \<Rightarrow> fb_pot (ms_buffer ms))"

definition bufs_pot :: "(YamuxStreamId \<rightharpoonup> Multistream) \<Rightarrow> nat" where
  "bufs_pot g = (\<Sum>i \<in> dom g. entry_pot (g i))"

lemma bufs_pot_upd:
  assumes "finite (dom g)"
  shows "bufs_pot (g(i := e)) + entry_pot (g i) = bufs_pot g + entry_pot e"
proof -
  have split: "bufs_pot h = entry_pot (h i) + (\<Sum>j \<in> dom h - {i}. entry_pot (h j))" if "finite (dom h)" for h
  proof (cases "i \<in> dom h")
    case False
    then have "h i = None" by blast
    with False show ?thesis by (simp add: bufs_pot_def entry_pot_def)
  qed (simp add: bufs_pot_def sum.remove [OF that])
  have "(\<Sum>j \<in> dom (g(i := e)) - {i}. entry_pot ((g(i := e)) j)) = (\<Sum>j \<in> dom g - {i}. entry_pot (g j))"
    by (rule sum.cong) auto
  with split [OF assms] split [of "g(i := e)"] assms show ?thesis by simp
qed

definition ym_pot :: "('r \<Rightarrow> nat) \<Rightarrow> ('r, 'w) YamuxMultistream \<Rightarrow> nat" where
  "ym_pot left m = ys_pot left (ym_inner m) + bufs_pot (ym_get m)"

lemma finite_ym_get: "finite (dom (ym_get m))"
  by (auto simp: ym_get_def bt_get_def finite_dom_map_of [unfolded dom_def] dom_def)

lemma ym_pot_set: "ym_pot left (ym_set i e m) + entry_pot (ym_get m i) = ym_pot left m + fb_pot (ms_buffer e)"
proof -
  have "ym_get (ym_set i e m) = (ym_get m)(i := Some e)" by (rule ext) simp
  with bufs_pot_upd [OF finite_ym_get [of m], of i "Some e"] show ?thesis
    by (simp add: ym_pot_def entry_pot_def [of "Some e"])
qed

lemma ym_pot_remove: "ym_pot left (m\<lparr>ym_bufs := bt_remove i (ym_bufs m)\<rparr>) + entry_pot (ym_get m i) = ym_pot left m"
proof -
  have "ym_get (m\<lparr>ym_bufs := bt_remove i (ym_bufs m)\<rparr>) = (ym_get m)(i := None)" by (rule ext) simp
  with bufs_pot_upd [OF finite_ym_get [of m], of i None] show ?thesis
    by (simp add: ym_pot_def entry_pot_def [of None])
qed

lemma ym_pot_rfsb [simp]: "ym_pot left (m\<lparr>read_from_stream_buffer := r\<rparr>) = ym_pot left m"
proof -
  have "ym_get (m\<lparr>read_from_stream_buffer := r\<rparr>) = ym_get m" by (rule ext) simp
  then show ?thesis by (simp add: ym_pot_def)
qed

section \<open>Operations of the multistream layer\<close>

text \<open>Operations of the session leave the reader, the suspended read and the kept output alone.\<close>

definition same_read :: "('r, 'w) YamuxSession \<Rightarrow> ('r, 'w) YamuxSession \<Rightarrow> bool" where
  "same_read s s' \<longleftrightarrow> yw_reader (ys_world s') = yw_reader (ys_world s) \<and>
     read_fut (read_write_join s') = read_fut (read_write_join s) \<and>
     output_buf (yw_shared_state (ys_world s')) = output_buf (yw_shared_state (ys_world s))"

lemma same_read_pot: "same_read s s' \<Longrightarrow> ys_pot left s' = ys_pot left s"
  by (simp add: same_read_def ys_pot_def)

lemma same_read_refl [simp]: "same_read s s"
  by (simp add: same_read_def)

lemma same_read_trans: "same_read s s' \<Longrightarrow> same_read s' s'' \<Longrightarrow> same_read s s''"
  by (simp add: same_read_def)

lemma same_read_on_shared: "(\<And>sh. output_buf (f sh) = output_buf sh) \<Longrightarrow> same_read s (on_shared f s)"
  by (simp add: same_read_def on_shared_def)

lemma same_read_send: "session_send_data i c s = (r, s') \<Longrightarrow> same_read s s'"
  by (auto simp: session_send_data_def same_read_def on_shared_def yamux_send_data_def Let_def
      split: prod.splits option.splits if_splits list.splits BufferedOutboundMessage.splits)

lemma same_read_open: "session_open_stream s = Some (i, s') \<Longrightarrow> same_read s s'"
  by (auto simp: session_open_stream_def same_read_def on_shared_def yamux_open_stream_def Let_def
      split: option.splits prod.splits)

lemma same_read_send_all: "send_all i cs s = (r, s') \<Longrightarrow> same_read s s'"
proof (induction cs arbitrary: s)
  case (Cons c cs)
  obtain r1 s1 where s1: "session_send_data i c s = (r1, s1)" by fastforce
  show ?case
  proof (cases r1)
    case (Inr u)
    with Cons.prems s1 have "send_all i cs s1 = (r, s')" by simp
    from same_read_trans [OF same_read_send [OF s1] Cons.IH [OF this]] show ?thesis .
  qed (use Cons.prems s1 same_read_send [OF s1] in simp)
qed simp

lemma same_read_api:
  "same_read s (on_shared (yamux_close_stream i) s)"
  "same_read s (on_shared (yamux_close_stream_immediately i) s)"
  "same_read s (on_shared (yamux_reset_stream_immediately i) s)"
  by (rule same_read_on_shared; auto simp: yamux_close_stream_def yamux_close_stream_immediately_def
      yamux_reset_stream_immediately_def reset_stream_immediately_with_shared_state_def Let_def
      split: option.splits if_splits)+

text \<open>
  \<open>calm left m m'\<close>: from \<open>m\<close> to \<open>m'\<close> no work was added.
\<close>

definition calm :: "('r \<Rightarrow> nat) \<Rightarrow> ('r, 'w) YamuxMultistream \<Rightarrow> ('r, 'w) YamuxMultistream \<Rightarrow> bool" where
  "calm left m m' \<longleftrightarrow> left (ym_reader m') \<le> left (ym_reader m) \<and> ym_pot left m' \<le> ym_pot left m"

lemma calm_refl [simp]: "calm left m m"
  by (simp add: calm_def)

lemma calm_trans [trans]: "calm left m m' \<Longrightarrow> calm left m' m'' \<Longrightarrow> calm left m m''"
  by (auto simp: calm_def)

lemma ym_pot_inner: "same_read (ym_inner m) s \<Longrightarrow> ym_pot left (m\<lparr>ym_inner := s\<rparr>) = ym_pot left m"
proof -
  assume "same_read (ym_inner m) s"
  moreover have "ym_get (m\<lparr>ym_inner := s\<rparr>) = ym_get m" by (rule ext) simp
  ultimately show ?thesis by (simp add: ym_pot_def same_read_pot)
qed

lemma calm_inner: "same_read (ym_inner m) s \<Longrightarrow> calm left m (m\<lparr>ym_inner := s\<rparr>)"
  by (simp add: calm_def ym_pot_inner) (simp add: same_read_def)

lemma calm_set: "fb_pot (ms_buffer e) \<le> entry_pot (ym_get m i) \<Longrightarrow> calm left m (ym_set i e m)"
  using ym_pot_set [of left i e m] unfolding calm_def by simp

lemma calm_send_chunks: "send_chunks i len cs m = Some (r, m') \<Longrightarrow> calm left m m'"
  by (erule send_chunks_inner) (simp add: calm_inner same_read_send_all del: send_all.simps)

lemma calm_sends:
  "send_multistream_data i d m = Some (r, m') \<Longrightarrow> calm left m m'"
  "send_multistream_data_with_newline i d m = Some (r, m') \<Longrightarrow> calm left m m'"
  by (simp_all add: send_multistream_data_def send_multistream_data_with_newline_def calm_send_chunks)

lemma calm_reset: "calm left m (ym_reset_stream_immediately i m)"
proof -
  let ?m = "m\<lparr>ym_bufs := bt_remove i (ym_bufs m)\<rparr>"
  have "calm left m ?m" using ym_pot_remove [of left i m] by (auto simp: calm_def)
  also have "calm left ?m (?m\<lparr>ym_inner := on_shared (yamux_reset_stream_immediately i) (ym_inner ?m)\<rparr>)"
    by (rule calm_inner, rule same_read_api)
  finally show ?thesis by (simp add: ym_reset_stream_immediately_def)
qed

lemma calm_close: "calm left m (ym_close_stream i m)" "calm left m (ym_close_stream_immediately i m)"
proof -
  have *: "calm left m ((ym_set i (e\<lparr>ms_state := st\<rparr>) m)\<lparr>ym_inner := s\<rparr>)"
    if "ym_get m i = Some e" "same_read (ym_inner m) s" for e st s
    by (rule calm_trans [OF calm_set calm_inner]) (use that in \<open>simp_all add: entry_pot_def\<close>)
  show "calm left m (ym_close_stream i m)" "calm left m (ym_close_stream_immediately i m)"
    by (auto simp: ym_close_stream_def ym_close_stream_immediately_def same_read_api intro!: * split: option.split)
qed

lemma calm_set_state: "ym_get m i = Some e \<Longrightarrow> calm left m (ym_set i (e\<lparr>ms_state := st\<rparr>) m)"
  "ym_get m i = Some e \<Longrightarrow> calm left m (ym_set i (e\<lparr>ms_state := st, max_buffer_size := n\<rparr>) m)"
  by (rule calm_set, simp add: entry_pot_def)+

lemma calm_ops:
  "ym_send_data i d m = Some (r, m') \<Longrightarrow> calm left m m'"
  "ym_accept_protocol i n m = Some (r, m') \<Longrightarrow> calm left m m'"
  "ym_reject_protocol i m = Some (r, m') \<Longrightarrow> calm left m m'"
  by (auto simp: ym_send_data_def ym_accept_protocol_def ym_reject_protocol_def
      intro: calm_sends calm_trans [OF calm_set_state(1) calm_sends(2)] calm_trans [OF calm_set_state(2) calm_sends(2)]
      split: option.splits if_splits MultistreamState.splits)

lemma calm_open:
  assumes "ym_open_stream ps n m = Some (r, m')"
  shows "calm left m m'"
proof -
  obtain i s where op: "session_open_stream (ym_inner m) = Some (i, s)"
    using assms by (auto simp: ym_open_stream_def split: option.splits)
  have c0: "calm left m (m\<lparr>ym_inner := s\<rparr>)" by (rule calm_inner [OF same_read_open [OF op]])
  have new: "calm left m2 (ym_set i \<lparr>ms_buffer = fb_new, ms_state = st, max_buffer_size = n\<rparr> m2)" for m2 st
    by (rule calm_set) simp
  show ?thesis
  proof (cases ps)
    case Nil
    with assms op c0 show ?thesis by (simp add: ym_open_stream_def)
  next
    case (Cons p ps')
    obtain r1 m1 where s1: "send_multistream_data i MULTISTREAM_PROTOCOL_NAME_WITH_NEWLINE (m\<lparr>ym_inner := s\<rparr>) = Some (r1, m1)"
      using assms op Cons by (auto simp: ym_open_stream_def Let_def split: option.splits)
    have c1: "calm left m m1" by (rule calm_trans [OF c0 calm_sends(1) [OF s1]])
    show ?thesis
    proof (cases r1)
      case (Inl e)
      with assms op Cons s1 c1 show ?thesis by (simp add: ym_open_stream_def)
    next
      case (Inr u)
      obtain r2 m2 where s2: "send_multistream_data_with_newline i p m1 = Some (r2, m2)"
        using assms op Cons s1 Inr by (auto simp: ym_open_stream_def Let_def split: option.splits)
      have c2: "calm left m m2" by (rule calm_trans [OF c1 calm_sends(2) [OF s2]])
      with assms op Cons s1 Inr s2 calm_trans [OF c2 new] show ?thesis
        by (cases r2) (auto simp: ym_open_stream_def)
    qed
  qed
qed

section \<open>The loop of the multistream layer\<close>

fun ms_cost :: "ms_step \<Rightarrow> nat" where
  "ms_cost (MsReturn (Inr (Some _))) = 1"
| "ms_cost _ = 0"

lemma ms_cost_after_send [simp]: "ms_cost (fst (ms_after_send r m)) = 0"
  by (auto simp: ms_after_send_def split: option.splits sum.splits prod.splits)

lemma calm_after_send:
  assumes "calm left m m0"
  shows "calm left m (snd (ms_after_send (send_multistream_data i d m0) m0))"
    "calm left m (snd (ms_after_send (send_multistream_data_with_newline i d m0) m0))"
  using assms by (auto simp: ms_after_send_def intro: calm_trans [OF _ calm_sends(1)] calm_trans [OF _ calm_sends(2)]
      split: option.splits sum.splits prod.splits)

lemma calm_message:
  assumes "ym_get m i = Some e"
  shows "calm left m (snd (ym_message i e msg m))"
  using assms
  by (auto simp: ym_message_def Let_def intro: calm_after_send calm_set_state(1) calm_reset
      split: MultistreamState.splits option.splits list.splits)

lemma ms_cost_le: "ms_cost st \<le> 1"
  by (cases st rule: ms_cost.cases) simp_all

lemma drain_pot:
  assumes "ym_drain i u m = (st, u', m')"
  shows "left (ym_reader m') \<le> left (ym_reader m) \<and> ym_pot left m' + ms_cost st \<le> ym_pot left m"
proof (cases "ym_get m i")
  case (Some e)
  obtain r b where fb: "fb_next (ms_buffer e) = (r, b)" by fastforce
  let ?e = "e\<lparr>ms_buffer := b\<rparr>"
  let ?m1 = "ym_set i ?e m"
  let ?m2 = "?m1\<lparr>read_from_stream_buffer := Some i\<rparr>"
  have pot: "ym_pot left ?m1 + (case r of Some (Inr _) \<Rightarrow> 1 | _ \<Rightarrow> 0) \<le> ym_pot left m"
    using ym_pot_set [of left i ?e m] fb_next_pot [OF fb] Some by (simp add: entry_pot_def)
  show ?thesis
  proof (cases "\<exists>msg. r = Some (Inr msg)")
    case True
    then obtain msg where r: "r = Some (Inr msg)" by blast
    obtain st1 m3 where msg: "ym_message i ?e msg ?m2 = (st1, m3)" by fastforce
    have "calm left ?m2 m3" using calm_message [of ?m2 i ?e left msg] msg by simp
    moreover have "st = st1" "m' = m3" using assms Some fb r msg by (simp_all add: ym_drain_def Let_def)
    ultimately show ?thesis using pot r ms_cost_le [of st1] by (simp add: calm_def)
  next
    case False
    with assms Some fb pot show ?thesis
      by (auto simp: ym_drain_def Let_def split: option.splits sum.splits)
  qed
qed (use assms in \<open>simp add: ym_drain_def\<close>)

text \<open>An output of the session is worth one unit and the data it announces.\<close>

lemma yamux_output_pot:
  assumes "ym_yamux_output out m = (r, m')"
    and "\<And>d. yamux_data (ym_inner m) = Some d \<Longrightarrow> length d \<le> out_data out"
  shows "left (ym_reader m') \<le> left (ym_reader m) \<and>
    ym_pot left m' + (case r of Inr st \<Rightarrow> ms_cost st | Inl _ \<Rightarrow> 0) \<le> ym_pot left m + 1 + out_data out"
proof -
  let ?i = "out_stream_id out"
  let ?rm = "m\<lparr>ym_bufs := bt_remove ?i (ym_bufs m)\<rparr>"
  have reset: "calm left m (ym_reset_stream_immediately ?i m)" by (rule calm_reset)
  have rm: "ym_pot left ?rm \<le> ym_pot left m" using ym_pot_remove [of left ?i m] by linarith
  have new: "ym_pot left (ym_set ?i ms_new_incoming m) \<le> ym_pot left m"
    using ym_pot_set [of left ?i ms_new_incoming m] by (simp add: ms_new_incoming_def)
  have feed: "ym_pot left (ym_set ?i (e\<lparr>ms_buffer := fb_feed (ms_buffer e) d\<rparr>) m) \<le> ym_pot left m + length d"
    if "ym_get m ?i = Some e" for e d
    using ym_pot_set [of left ?i "e\<lparr>ms_buffer := fb_feed (ms_buffer e) d\<rparr>" m] that by (simp add: entry_pot_def)
  show ?thesis
  proof (cases "out_state out")
    case OpenedByRemote
    with assms(1) new show ?thesis by (auto simp: ym_yamux_output_def Let_def split: option.splits)
  next
    case ClosedByRemote
    with assms(1) rm show ?thesis by (auto simp: ym_yamux_output_def Let_def split: option.splits if_splits)
  next
    case (OData n)
    show ?thesis
    proof (cases "ym_get m ?i")
      case None
      with OData assms(1) show ?thesis by (auto simp: ym_yamux_output_def Let_def)
    next
      case (Some e)
      show ?thesis
      proof (cases "yamux_data (ym_inner m)")
        case None
        with OData Some assms(1) show ?thesis by (auto simp: ym_yamux_output_def Let_def)
      next
        case (Some d)
        with OData \<open>ym_get m ?i = Some e\<close> assms(1) assms(2) [OF Some] feed [OF \<open>ym_get m ?i = Some e\<close>, of d] reset
        show ?thesis by (auto simp: ym_yamux_output_def Let_def calm_def split: if_splits)
      qed
    qed
  qed
qed

context async_read
begin

lemma yamux_next_data_len:
  assumes "yamux_next rd wr sl fuel s = Done (Ready (Some (Inr out)), s')" and "yamux_data s' = Some d"
  shows "length d \<le> out_data out"
proof -
  have "data_len s' = out_data out"
    using assms(1)
    by (auto simp: yamux_next_def yamux_next_inner_def Let_def
        split: if_splits run.splits poll.splits sum.splits option.splits OutputState.splits)
  with yamux_next_output_data [OF assms(1)] assms(2) show ?thesis by simp
qed

lemma pull_pot:
  assumes "ym_pull rd wr sl fuel u m = (r, u', m')"
  shows "left (ym_reader m') \<le> left (ym_reader m) \<and>
    ym_pot left m' + (case r of Inr st \<Rightarrow> ms_cost st | Inl _ \<Rightarrow> 0) \<le> ym_pot left m"
proof (cases "read_from_stream_buffer m")
  case (Some i)
  with assms show ?thesis by (auto simp: ym_pull_def Let_def split: if_splits)
next
  case None
  show ?thesis
  proof (cases "yamux_next rd wr sl fuel (ym_inner m)")
    case (Done ps)
    then obtain p s where nx: "yamux_next rd wr sl fuel (ym_inner m) = Done (p, s)" by (cases ps) simp
    let ?m = "m\<lparr>ym_inner := s\<rparr>"
    have "ym_get ?m = ym_get m" by (rule ext) simp
    then have pot: "ym_pot left ?m + (case p of Ready (Some (Inr out)) \<Rightarrow> 1 + out_data out | _ \<Rightarrow> 0) \<le> ym_pot left m"
      using yamux_next_pot [OF nx] by (simp add: ym_pot_def)
    show ?thesis
    proof (cases "\<exists>out. p = Ready (Some (Inr out))")
      case True
      then obtain out where p: "p = Ready (Some (Inr out))" by blast
      obtain r1 m1 where o1: "ym_yamux_output out ?m = (r1, m1)" by fastforce
      have "r = r1" "m' = m1" using assms None nx p o1 by (simp_all add: ym_pull_def Let_def)
      with yamux_output_pot [OF o1, of left] yamux_next_data_len [OF nx [unfolded p]] yamux_next_left [OF nx] pot p
      show ?thesis by fastforce
    next
      case False
      with assms None nx pot yamux_next_left [OF nx] show ?thesis
        by (auto simp: ym_pull_def Let_def split: poll.splits option.splits sum.splits)
    qed
  qed (use assms None in \<open>auto simp: ym_pull_def\<close>)
qed

lemma iter_pot:
  assumes "ym_iter rd wr sl fuel u m = (st, u', m')"
  shows "left (ym_reader m') \<le> left (ym_reader m) \<and> ym_pot left m' + ms_cost st \<le> ym_pot left m"
proof -
  obtain r u1 m1 where pl: "ym_pull rd wr sl fuel u m = (r, u1, m1)" by (metis prod_cases3)
  show ?thesis
  proof (cases r)
    case (Inl i)
    with assms pl have "ym_drain i u1 m1 = (st, u', m')" by (simp add: ym_iter_def)
    from drain_pot [OF this, of left] pull_pot [OF pl] Inl show ?thesis by auto
  next
    case (Inr st1)
    with assms pl pull_pot [OF pl] show ?thesis by (simp add: ym_iter_def)
  qed
qed

lemma ym_next_inner_pot:
  "ym_next_inner rd wr sl fuel k u m = Done (p, u', m') \<Longrightarrow>
   left (ym_reader m') \<le> left (ym_reader m) \<and>
   ym_pot left m' + (case p of Ready (Inr (Some _)) \<Rightarrow> 1 | _ \<Rightarrow> 0) \<le> ym_pot left m"
proof (induction k arbitrary: u m)
  case (Suc k)
  obtain st u1 m1 where it: "ym_iter rd wr sl fuel u m = (st, u1, m1)" by (metis prod_cases3)
  note pot = iter_pot [OF it]
  show ?case
  proof (cases "WORK_UNITS_BEFORE_YIELD \<le> u")
    case False
    show ?thesis
    proof (cases st)
      case MsContinue
      with Suc.IH [of u1 m1] Suc.prems False it pot show ?thesis by auto
    next
      case (MsReturn r)
      with Suc.prems False it pot show ?thesis by (cases r; cases "projr r") auto
    qed (use Suc.prems False it pot in auto)
  qed (use Suc.prems in simp)
qed simp

end

section \<open>Fuel\<close>

text \<open>The loop is left after pulling.\<close>

fun stops :: "YamuxStreamId + ms_step \<Rightarrow> bool" where
  "stops (Inr MsContinue) = False"
| "stops (Inr _) = True"
| "stops (Inl _) = False"

context async_read
begin

lemma yamux_next_fuel:
  assumes fuel: "left (yw_reader (ys_world s)) + 11 \<le> fuel"
  shows "yamux_next rd wr sl fuel s \<noteq> OutOfFuel"
proof -
  let ?j = "read_write_join s"
  define fut where "fut = (case read_fut ?j of Some f \<Rightarrow> f | None \<Rightarrow> Running AtTop)"
  have r: "poll_read_fut rd fuel fut (ys_world s) \<noteq> OutOfFuel"
  proof (cases fut)
    case (Running pc)
    with poll_read_fut_done [of "ys_world s" fuel pc] fuel show ?thesis by auto
  qed (simp add: poll_read_fut_def)
  have w: "poll_write_fut sl wr fuel g w \<noteq> OutOfFuel" for g and w :: "'r YamuxWorld"
    using poll_write_fut_done [of fuel sl wr g w] fuel by auto
  have "join_call (Running AtTop) (poll_read_fut rd fuel) (poll_write_fut sl wr fuel) ?j (ys_world s) \<noteq> OutOfFuel"
    unfolding join_call_def fut_def [symmetric] Let_def using r w
    by (auto split: run.splits poll.splits option.splits)
  then show ?thesis
    by (auto simp: yamux_next_def yamux_next_inner_def Let_def split: run.splits poll.splits sum.splits option.splits)
qed

lemma pull_fuel:
  assumes fuel: "left (ym_reader m) + 11 \<le> fuel" and pl: "ym_pull rd wr sl fuel u m = (r, u', m')"
  shows "r \<noteq> Inr MsOutOfFuel \<and>
    (stops r \<or> read_from_stream_buffer m' = None \<and> u' = (if read_from_stream_buffer m = None then Suc u else u))"
proof (cases "read_from_stream_buffer m")
  case (Some i)
  with pl show ?thesis by (simp add: ym_pull_def Let_def split: if_splits) auto
next
  case None
  show ?thesis
  proof (cases "yamux_next rd wr sl fuel (ym_inner m)")
    case Panic
    with pl None show ?thesis by (simp add: ym_pull_def) auto
  next
    case OutOfFuel
    with yamux_next_fuel [OF fuel] show ?thesis by simp
  next
    case (Done ps)
    then obtain p s where nx: "yamux_next rd wr sl fuel (ym_inner m) = Done (p, s)" by (cases ps) simp
    show ?thesis
    proof (cases "\<exists>out. p = Ready (Some (Inr out))")
      case True
      then obtain out where p: "p = Ready (Some (Inr out))" by blast
      obtain r1 m1 where o1: "ym_yamux_output out (m\<lparr>ym_inner := s\<rparr>) = (r1, m1)" by fastforce
      have eqs: "r = r1" "m' = m1" "u' = Suc u" using pl None nx p o1 by (simp_all add: ym_pull_def Let_def)
      have "yamux_data s \<noteq> None" using yamux_next_output_data [OF nx [unfolded p]] by simp
      with ym_yamux_output_step [OF o1] have "r1 \<noteq> Inr MsOutOfFuel" "read_from_stream_buffer m1 = None"
        using None by force+
      with eqs None show ?thesis by simp
    next
      case False
      then have "stops r \<and> r \<noteq> Inr MsOutOfFuel"
        using pl None nx by (auto simp: ym_pull_def Let_def split: poll.splits option.splits sum.splits)
      then show ?thesis by blast
    qed
  qed
qed

lemma iter_fuel:
  assumes fuel: "left (ym_reader m) + 11 \<le> fuel" and u: "u < WORK_UNITS_BEFORE_YIELD"
    and it: "ym_iter rd wr sl fuel u m = (st, u', m')"
  shows "st \<noteq> MsOutOfFuel \<and> (st = MsContinue \<longrightarrow> ym_rank u' m' < ym_rank u m)"
proof -
  obtain r u1 m1 where pl: "ym_pull rd wr sl fuel u m = (r, u1, m1)" by (metis prod_cases3)
  note step = pull_fuel [OF fuel pl]
  show ?thesis
  proof (cases r)
    case (Inr st')
    with it pl have eqs: "st = st'" "u' = u1" "m' = m1" by (simp_all add: ym_iter_def)
    with step u Inr show ?thesis by (auto simp: ym_rank_def split: if_splits)
  next
    case (Inl i)
    with it pl have dr: "ym_drain i u1 m1 = (st, u', m')" by (simp add: ym_iter_def)
    have "read_from_stream_buffer m1 = None" using step Inl by simp
    from ym_drain_step [OF dr this] step u Inl show ?thesis
      by (auto simp: ym_rank_def split: if_splits)
  qed
qed

lemma ym_next_inner_fuel:
  "left (ym_reader m) + 11 \<le> fuel \<Longrightarrow> ym_rank u m < k \<Longrightarrow> ym_next_inner rd wr sl fuel k u m \<noteq> OutOfFuel"
proof (induction k arbitrary: u m)
  case (Suc k)
  obtain st u1 m1 where it: "ym_iter rd wr sl fuel u m = (st, u1, m1)" by (metis prod_cases3)
  show ?case
  proof (cases "WORK_UNITS_BEFORE_YIELD \<le> u")
    case False
    then have "u < WORK_UNITS_BEFORE_YIELD" by simp
    from iter_fuel [OF Suc.prems(1) this it] iter_pot [OF it] Suc.IH [of m1 u1] Suc.prems False it
    show ?thesis by (cases st) auto
  qed simp
qed simp

lemma ym_next_fuel:
  assumes "left (ym_reader m) + 11 \<le> fuel" and "130 \<le> k"
  shows "ym_next rd wr sl fuel k u m \<noteq> OutOfFuel"
proof -
  have "ym_rank u m < k" using assms(2) by (auto simp: ym_rank_def WORK_UNITS_BEFORE_YIELD_def)
  from ym_next_inner_fuel [OF assms(1) this] show ?thesis
    by (auto simp: ym_next_def split: run.splits poll.splits)
qed

lemma ym_next_pot:
  assumes "ym_next rd wr sl fuel k u m = Done (p, u', m')"
  shows "left (ym_reader m') \<le> left (ym_reader m) \<and>
   ym_pot left m' + (case p of Ready (Some (Inr _)) \<Rightarrow> 1 | _ \<Rightarrow> 0) \<le> ym_pot left m"
proof -
  obtain q where "ym_next_inner rd wr sl fuel k u m = Done (q, u', m')"
    and "p = (case q of Pending \<Rightarrow> Pending | Ready r \<Rightarrow> Ready (result_transpose r))"
    using assms by (auto simp: ym_next_def split: run.splits poll.splits)
  from ym_next_inner_pot [OF this(1)] this(2) show ?thesis
    by (auto simp: result_transpose_def split: poll.splits sum.splits option.splits)
qed

end

section \<open>The connection\<close>

text \<open>Nothing the connection does in response to an event adds work.\<close>

interpretation calm: opening_effects "calm left"
  by unfold_locales (auto intro: calm_trans calm_ops calm_close calm_reset calm_open)

context async_read
begin

lemma conn_await_pot:
  assumes "conn_await rd wr sl fuel k u c = (CnContinue, u', c')"
  shows "left (ym_reader (cn_yamux c')) \<le> left (ym_reader (cn_yamux c)) \<and>
    ym_pot left (cn_yamux c') < ym_pot left (cn_yamux c)"
proof -
  obtain out u1 y where nx: "ym_next rd wr sl fuel k u (cn_yamux c) = Done (Ready (Some (Inr out)), u1, y)"
    and d: "c' = snd (conn_dispatch out (c\<lparr>cn_yamux := y\<rparr>))"
    using assms by (auto simp: conn_await_def Let_def split: run.splits poll.splits option.splits sum.splits prod.splits)
  from ym_next_pot [OF nx] calm.settles_dispatch [of left "c\<lparr>cn_yamux := y\<rparr>" out] d show ?thesis
    by (auto simp: settles_def calm_def)
qed

lemma conn_next_inner_fuel:
  "left (ym_reader (cn_yamux c)) + 11 \<le> fuel \<Longrightarrow> 130 \<le> k \<Longrightarrow> ym_pot left (cn_yamux c) < n \<Longrightarrow>
   conn_next_inner pf clk rd wr sl fuel k n fut c \<noteq> OutOfFuel"
proof (induction n arbitrary: fut c)
  case (Suc n)
  obtain msg c1 where top: "(case fut of Some u \<Rightarrow> (None, c) | None \<Rightarrow> conn_top pf (clk n) c) = (msg, c1)" by fastforce
  have calm: "calm left (cn_yamux c) (cn_yamux c1)"
    using calm.R_top [of left c pf "clk n"] top by (auto split: option.splits)
  obtain r u' c2 where aw: "conn_await rd wr sl fuel k (case fut of Some u \<Rightarrow> u | None \<Rightarrow> 0) c1 = (r, u', c2)"
    by (metis prod_cases3)
  have fuel1: "left (ym_reader (cn_yamux c1)) + 11 \<le> fuel" using calm Suc.prems(1) by (simp add: calm_def)
  have "ym_next rd wr sl fuel k u (cn_yamux c1) \<noteq> OutOfFuel" for u
    by (rule ym_next_fuel [OF fuel1 Suc.prems(2)])
  moreover have "conn_dispatch out (c1\<lparr>cn_yamux := y\<rparr>) \<noteq> (CnOutOfFuel, d)" for out y d
    using calm.settles_dispatch [of left "c1\<lparr>cn_yamux := y\<rparr>" out] by (auto simp: settles_def)
  ultimately have "r \<noteq> CnOutOfFuel"
    using aw by (auto simp: conn_await_def Let_def split: run.splits poll.splits option.splits sum.splits prod.splits)
  moreover have "conn_next_inner pf clk rd wr sl fuel k n None c2 \<noteq> OutOfFuel" if "r = CnContinue"
    using conn_await_pot [OF aw [unfolded that]] fuel1 calm Suc.prems
    by (intro Suc.IH) (auto simp: calm_def)
  ultimately show ?case using top aw by (auto split: option.splits conn_outcome.splits)
qed simp

end

end
