(* ===== verification/NoPanic.thy ===== *)
theory NoPanic
  imports Progress
begin

text \<open>
  The panics of a connection. A poll of \<open>next\<close> cannot panic in the layers below: the session is
  never polled after it completed, its buffer is not borrowed when its data is taken, and the
  length of every message fits its varint. What is left is the end of the stream identifiers: \<open>next\<close>
  opens a stream when the remote opens a subscription, and \<open>YamuxStreamId::increment\<close> panics after
  about two thousand million of them.
\<close>

section \<open>The multistream layer\<close>

sublocale async_read \<subseteq> kept: session_polls "\<lambda>s s'. yamux_inv s \<longrightarrow> yamux_inv s'" rd wr sl
  for wr :: "'w write_op" and sl
  by unfold_locales (auto dest: yamux_inv_next)

context async_read
begin

lemma pull_no_panic:
  assumes "yamux_inv (ym_inner m)" and "ym_pull rd wr sl fuel u m = (r, u', m')"
  shows "r \<noteq> Inr MsPanic"
proof (cases "read_from_stream_buffer m")
  case None
  show ?thesis
  proof (cases "yamux_next rd wr sl fuel (ym_inner m)")
    case (Done x)
    obtain p s where x: "x = (p, s)" by fastforce
    have "ym_yamux_output out (m\<lparr>ym_inner := s\<rparr>) = (r1, m1) \<Longrightarrow> p = Ready (Some (Inr out)) \<Longrightarrow> r1 \<noteq> Inr MsPanic" for out r1 m1
      using ym_yamux_output_step [of out "m\<lparr>ym_inner := s\<rparr>" r1 m1] yamux_next_output_data [of wr sl fuel "ym_inner m" out s]
        Done x by auto
    with assms(2) None Done x show ?thesis
      by (fastforce simp: ym_pull_def Let_def split: poll.splits option.splits sum.splits prod.splits)
  qed (use assms None yamux_next_no_panic [OF assms(1), of wr sl fuel] in \<open>auto simp: ym_pull_def\<close>)
qed (use assms in \<open>auto simp: ym_pull_def Let_def split: if_splits\<close>)

lemma iter_no_panic:
  assumes "yamux_inv (ym_inner m)" and it: "ym_iter rd wr sl fuel u m = (st, u', m')"
  shows "st \<noteq> MsPanic"
proof -
  obtain r u1 m1 where pl: "ym_pull rd wr sl fuel u m = (r, u1, m1)" by (metis prod_cases3)
  have "ym_drain i u1 m1 \<noteq> (MsPanic, v, m2)" for i v m2 using ym_drain_settled [of i u1 m1] by force
  with pull_no_panic [OF assms(1) pl] it pl show ?thesis by (auto simp: ym_iter_def split: sum.splits)
qed

lemma ym_next_no_panic:
  assumes "yamux_inv (ym_inner m)" shows "ym_next rd wr sl fuel k u m \<noteq> Panic"
proof -
  have "yamux_inv (ym_inner m) \<Longrightarrow> ym_next_inner rd wr sl fuel k u m \<noteq> Panic"
  proof (induction k arbitrary: u m)
    case (Suc k)
    obtain st u1 m1 where it: "ym_iter rd wr sl fuel u m = (st, u1, m1)" by (metis prod_cases3)
    with Suc iter_no_panic [OF Suc.prems it] kept.iter_effect [OF it] show ?case by (cases st) auto
  qed simp
  with assms show ?thesis by (auto simp: ym_next_def split: run.splits poll.splits)
qed

end

section \<open>The identifiers of the connection\<close>

lemma open_stream_ids:
  "ym_open_stream ps n m = Some (r, m') \<Longrightarrow> unat (nid m') = unat (nid m) + 2"
  "unat (nid m) + 2 < 2 ^ 32 \<Longrightarrow> ym_open_stream ps n m \<noteq> None"
proof -
  have op: "session_open_stream (ym_inner m) = Some (i, s) \<Longrightarrow> unat (next_stream_id s) = unat (nid m) + 2" for i s
    by (auto simp: session_open_stream_def yamux_open_stream_def Let_def nid_def dest: sid_increment_unat split: option.splits)
  then show "ym_open_stream ps n m = Some (r, m') \<Longrightarrow> unat (nid m') = unat (nid m) + 2"
    by (auto simp: ym_open_stream_def Let_def dest!: nid_sends split: list.splits option.splits sum.splits prod.splits)
  assume "unat (nid m) + 2 < 2 ^ 32"
  then obtain i s where os: "session_open_stream (ym_inner m) = Some (i, s)"
    by (auto simp: session_open_stream_def yamux_open_stream_def Let_def nid_def sid_increment_def)
  show "ym_open_stream ps n m \<noteq> None"
  proof (cases ps)
    case (Cons p rest)
    obtain r1 m1 where s1: "send_multistream_data i MULTISTREAM_PROTOCOL_NAME_WITH_NEWLINE (m\<lparr>ym_inner := s\<rparr>) = Some (r1, m1)"
      using send_chunks_total unfolding send_multistream_data_def by blast
    obtain r2 m2 where s2: "send_multistream_data_with_newline i p m1 = Some (r2, m2)"
      using send_chunks_total unfolding send_multistream_data_with_newline_def by blast
    from os Cons s1 s2 show ?thesis by (simp add: ym_open_stream_def Let_def split: sum.split)
  qed (simp add: ym_open_stream_def os)
qed

lemma dispatch_ids:
  assumes ids: "unat (nid (cn_yamux c)) + 2 < 2 ^ 32" and d: "conn_dispatch out c = (r, c')"
  shows "r \<noteq> CnPanic \<and> unat (nid (cn_yamux c')) \<le> unat (nid (cn_yamux c)) + 2"
  using same_id.below.settles_dispatch_or_opens [of c out]
proof
  assume "same_id.below.calmly c (conn_dispatch out c)"
  with d show ?thesis by (simp add: nid_def)
next
  assume "\<exists>P i n p y. ym_accept_protocol i n (cn_yamux c) = Some (Inr (), y) \<and>
      conn_dispatch out c = open_our_side P p (c\<lparr>cn_yamux := y\<rparr>)"
  then obtain P i n p y where acc: "ym_accept_protocol i n (cn_yamux c) = Some (Inr (), y)"
    and x: "conn_dispatch out c = open_our_side P p (c\<lparr>cn_yamux := y\<rparr>)" by blast
  have y: "nid y = nid (cn_yamux c)" by (rule nid_accept [OF acc])
  have "ym_open_stream ps n y \<noteq> None" for ps n using open_stream_ids(2) ids y by metis
  then obtain r1 y1 where op: "ym_open_stream [sp_name (sd_protocol p)] (sp_max_response_size_in_bytes (sd_protocol p)) y = Some (r1, y1)"
    by fastforce
  with open_stream_ids(1) [OF op] y d x show ?thesis
    by (auto simp: open_our_side_def conn_try_def split: if_splits sum.splits)
qed

section \<open>One poll\<close>

definition conn_sound :: "('r, 'w, 'z) Connection \<Rightarrow> bool" where
  "conn_sound c \<longleftrightarrow> yamux_inv (ym_inner (cn_yamux c))"

sublocale async_read \<subseteq> runs: connection_effects "\<lambda>m m'. yamux_inv (ym_inner m) \<longrightarrow> yamux_inv (ym_inner m')" rd wr sl
  for wr :: "'w write_op" and sl
  by unfold_locales (auto simp: yamux_inv_def world_inv_def dest: kept.next_effect)

context async_read
begin

lemma await_no_panic:
  assumes sound: "conn_sound c" and ids: "unat (nid (cn_yamux c)) + 2 < 2 ^ 32"
    and aw: "conn_await rd wr sl fuel k u c = (r, u', c')"
  shows "r \<noteq> CnPanic \<and> unat (nid (cn_yamux c')) \<le> unat (nid (cn_yamux c)) + 2"
proof (cases "ym_next rd wr sl fuel k u (cn_yamux c)")
  case (Done x)
  then obtain p v y where nx: "ym_next rd wr sl fuel k u (cn_yamux c) = Done (p, v, y)" by (metis prod_cases3)
  have "nid y = nid (cn_yamux c)" by (rule nid_next [OF nx])
  with aw nx ids show ?thesis
    by (auto simp: conn_await_def Let_def dest!: dispatch_ids [rotated]
        split: poll.splits option.splits sum.splits prod.splits)
qed (use aw sound ym_next_no_panic [of "cn_yamux c" wr sl fuel k u] in \<open>auto simp: conn_await_def conn_sound_def\<close>)

lemma top_sound:
  assumes "conn_top pf now c = (msg, c')"
  shows "nid (cn_yamux c') = nid (cn_yamux c) \<and> (conn_sound c \<longrightarrow> conn_sound c')"
  using same_id.below.R_top [where c = c and pf = pf and now = now] assms
    kept_inv.below.R_top [where c = c and pf = pf and now = now]
  by (simp add: nid_def conn_sound_def)

lemma next_inner_no_panic:
  "conn_sound c \<Longrightarrow> unat (nid (cn_yamux c)) + 2 * n < 2 ^ 32 \<Longrightarrow>
   conn_next_inner pf clk rd wr sl fuel k n fut c \<noteq> Panic"
proof (induction n arbitrary: fut c)
  case (Suc n)
  obtain msg c1 where top: "(case fut of Some u \<Rightarrow> (None, c) | None \<Rightarrow> conn_top pf (clk n) c) = (msg, c1)" by fastforce
  then have c1: "conn_sound c1" "nid (cn_yamux c1) = nid (cn_yamux c)"
    using top_sound [of pf "clk n" c msg c1] Suc.prems(1) by (auto split: option.splits)
  show ?case
  proof (cases msg)
    case None
    obtain r u' c2 where aw: "conn_await rd wr sl fuel k (case fut of Some u \<Rightarrow> u | None \<Rightarrow> 0) c1 = (r, u', c2)"
      by (metis prod_cases3)
    have step: "r \<noteq> CnPanic" "conn_sound c2" "unat (nid (cn_yamux c2)) \<le> unat (nid (cn_yamux c)) + 2"
      using await_no_panic [OF c1(1) _ aw] runs.await_effect [OF aw] c1 Suc.prems(2) by (simp_all add: conn_sound_def)
    have "conn_next_inner pf clk rd wr sl fuel k n None c2 \<noteq> Panic"
      using step Suc.prems(2) by (intro Suc.IH) auto
    with top aw step None show ?thesis by (cases r) simp_all
  qed (simp add: top)
qed simp

lemma run_sound: "trace (conn_step pf rd wr sl) x ls y \<Longrightarrow> conn_sound (fst x) \<Longrightarrow> conn_sound (fst y)"
  unfolding conn_sound_def by (drule runs.trace_effect) simp

end

section \<open>Properties\<close>

text \<open>
  (C9) \<open>Connection::next\<close> answers. In every run of a fresh connection (requests, subscriptions,
  cancellations, polls, some of them dropped, timers firing, a transport delivering anything)
  the next poll of \<open>next\<close> comes back with a result: it neither loops nor panics, whatever the remote
  has sent. The loop goes round at most as often as the potential of the connection says (the
  bytes still to come, one read header, one kept output, the bytes in the reassembly
  buffers), and the one condition is that the \<open>u32\<close> stream identifiers last for these rounds, each
  of which may open one stream.
\<close>

theorem connection_next_returns:
  assumes "async_read rd left" and "fresh_connection c0"
    and "trace (conn_step pf rd wr sl) (c0, None) ls (c, fut)"
    and "left (ym_reader (cn_yamux c)) + 11 \<le> fuel" and "130 \<le> k"
    and "ym_pot left (cn_yamux c) < n" and "unat (nid (cn_yamux c)) + 2 * n < 2 ^ 32"
  shows "\<exists>p fut' c'. conn_next pf clk rd wr sl fuel k n fut c = Done (p, fut', c')"
proof -
  have "conn_sound c0"
    using assms(2) yamux_inv_new by (auto simp: fresh_connection_def ym_new_def conn_sound_def)
  then have sound: "conn_sound c" using async_read.run_sound [OF assms(1, 3)] by simp
  from async_read.next_inner_no_panic [OF assms(1) sound assms(7), of pf clk wr sl fuel k fut]
    async_read.conn_next_inner_fuel [OF assms(1, 4, 5, 6), of pf clk wr sl fut]
  obtain x where "conn_next_inner pf clk rd wr sl fuel k n fut c = Done x"
    by (cases "conn_next_inner pf clk rd wr sl fuel k n fut c") auto
  then show ?thesis
    by (cases x) (auto simp: conn_next_def split: poll.splits sum.splits option.splits)
qed

text \<open>A connection to which a new stream, a window update and a close were sent.\<close>

theorem connection_next_returns_witness:
  "\<exists>p fut' c'. conn_next (clock_platform False) (\<lambda>_. 0) mock_read_exact mock_write_all (\<lambda>_. 0) 47 130 37 None
     (conn_set_reader (mock_extend (header_encode (hdr_open_stream 2) @ header_encode (hdr_window_update 2 7) @
        header_encode (hdr_close_stream 2)) mock_new) demo_connection) = Done (p, fut', c')"
proof -
  let ?c = "conn_set_reader (mock_extend (header_encode (hdr_open_stream 2) @ header_encode (hdr_window_update 2 7) @
        header_encode (hdr_close_stream 2)) mock_new) demo_connection"
  have "trace (conn_step (clock_platform False) mock_read_exact mock_write_all (\<lambda>_. 0))
      (demo_connection, None) ([] @ [LSilent]) (?c, None)"
    by (rule trace_step [OF trace_nil]) (rule cs_transport)
  moreover have "length (ms_read_buf (ym_reader (cn_yamux ?c))) = 36"
    by (simp add: conn_set_reader_def mock_new_def)
  moreover have "ym_get (cn_yamux ?c) = (\<lambda>_. None)"
    by (rule ext) (simp add: conn_set_reader_def demo_connection_def ym_new_def ym_get_def)
  ultimately show ?thesis
    by (intro connection_next_returns [OF mock.async_read_axioms demo_fresh])
       (assumption | simp add: ym_pot_def ys_pot_def bufs_pot_def conn_set_reader_def demo_connection_def ym_new_def
         yamux_new_def SharedState_new_def ReadWriteJoin_new_def nid_def sid_first_def)+
qed

end
