(* ===== verification/WarpSync.thy ===== *)
theory WarpSync
  imports Prelude
begin

text \<open>
  \<open>warp-sync/src/substrate.rs\<close>, \<open>grandpa.rs\<close> and \<open>checkpoint.rs\<close>: a light client's view of
  finality. It starts from a trusted checkpoint and follows a chain of justified headers, each
  signed by the authorities that the previous ones handed over to.

  The SCALE codec (\<open>parity_scale_codec\<close> and its derive macros), \<open>blake2\<close>, \<open>ed25519_dalek\<close>, \<open>hex\<close> and
  \<open>serde_json\<close> are parameters, in the records \<open>WarpLib\<close> and \<open>Json\<close>. Hashes and keys are byte
  lists; weights, rounds and set identifiers are \<open>u64\<close> with wrap-around (the release profile).
  Error strings are values of \<open>warp_error\<close> that carry the formatted arguments in their order.
\<close>

section \<open>Substrate types\<close>

type_synonym BlockHash = bytes
type_synonym Hash = bytes
type_synonym AuthorityId = bytes

datatype ConsensusEngineId = ConsensusEngineId bytes

fun is_grandpa :: "ConsensusEngineId \<Rightarrow> bool" where
  "is_grandpa (ConsensusEngineId b) = (b = bytes_of ''FRNK'')"

datatype BlockDigestItem =
    DOther bytes
  | DConsensus ConsensusEngineId bytes
  | DSeal ConsensusEngineId bytes
  | DPreRuntime ConsensusEngineId bytes
  | DRuntimeEnvironmentUpdated

record BlockHeader =
  parent_hash :: BlockHash
  hd_number :: u32
  state_root :: Hash
  extrinsics_root :: Hash
  digest_logs :: "BlockDigestItem list"

section \<open>GRANDPA types\<close>

datatype GrandpaConsensusMessage =
    ScheduledChange "(AuthorityId \<times> u64) list" u32
  | ForcedChange u32 "(AuthorityId \<times> u64) list" u32

record SignerPayload =
  vote_type :: u8
  sp_target_hash :: Hash
  sp_target_number :: u32
  sp_round :: u64
  sp_set_id :: u64

record SignedPrecommit =
  pc_target_hash :: BlockHash
  pc_target_number :: u32
  pc_signature :: bytes
  authority_id :: AuthorityId

record GrandpaJustification =
  gj_round :: u64
  gj_target_hash :: BlockHash
  gj_target_number :: u32
  precommits :: "SignedPrecommit list"
  votes_ancestries :: "BlockHeader list"

record WarpSyncFragment =
  fr_header :: BlockHeader
  fr_justification :: GrandpaJustification

record WarpSyncResponse =
  fragments :: "WarpSyncFragment list"
  is_finished :: bool

record GrandpaState =
  authorities :: "(AuthorityId \<times> u64) list"
  set_id :: u64
  finalized_number :: u32
  finalized_hash :: BlockHash
  finalized_state_root :: Hash

record 'k WarpLib =
  wl_decode_response :: "bytes \<Rightarrow> string + WarpSyncResponse"
  wl_decode_consensus :: "bytes \<Rightarrow> string + GrandpaConsensusMessage"
  wl_encode_header :: "BlockHeader \<Rightarrow> bytes"
  wl_encode_payload :: "SignerPayload \<Rightarrow> bytes"
  wl_blake2b :: "bytes \<Rightarrow> bytes"
  wl_key_from_bytes :: "bytes \<Rightarrow> string + 'k"
  wl_verify_strict :: "'k \<Rightarrow> bytes \<Rightarrow> bytes \<Rightarrow> string + unit"

datatype warp_error =
    DecodeResponse string
  | DoesNotAdvance u32 u32
  | TargetHashMismatch BlockHash BlockHash
  | TargetNumberMismatch u32 u32
  | InsufficientWeight u64 u64
  | NoAuthorityChange u32

definition header_hash :: "'k WarpLib \<Rightarrow> BlockHeader \<Rightarrow> BlockHash" where
  "header_hash L h = wl_blake2b L (wl_encode_header L h)"

section \<open>Verification of a justification\<close>

text \<open>One pass over the ancestry: the set grows by the headers whose parent is in it.\<close>

fun ancestry_pass :: "(BlockHash \<times> BlockHash) list \<Rightarrow> BlockHash set \<Rightarrow> bool \<Rightarrow> BlockHash set \<times> bool" where
  "ancestry_pass [] valid added = (valid, added)"
| "ancestry_pass ((hash, parent) # xs) valid added =
     (if parent \<in> valid \<and> hash \<notin> valid then ancestry_pass xs (insert hash valid) True
      else ancestry_pass xs valid added)"

lemma ancestry_pass_mono:
  "ancestry_pass xs valid added = (valid', added') \<Longrightarrow> valid \<subseteq> valid' \<and> valid' \<subseteq> valid \<union> fst ` set xs"
  by (induction xs valid added rule: ancestry_pass.induct) (fastforce split: if_splits)+

lemma ancestry_pass_added:
  "ancestry_pass xs valid added = (valid', True) \<Longrightarrow> added \<or> (\<exists>h \<in> fst ` set xs. h \<notin> valid \<and> h \<in> valid')"
proof (induction xs valid added rule: ancestry_pass.induct)
  case (2 hash parent xs valid added)
  show ?case
  proof (cases "parent \<in> valid \<and> hash \<notin> valid")
    case True
    with 2(3) have "ancestry_pass xs (insert hash valid) True = (valid', True)" by simp
    with ancestry_pass_mono [OF this] True show ?thesis by auto
  next
    case False
    with 2 show ?thesis by auto
  qed
qed simp

function ancestry_loop :: "(BlockHash \<times> BlockHash) list \<Rightarrow> BlockHash set \<Rightarrow> BlockHash set" where
  "ancestry_loop ancestry valid =
     (case ancestry_pass ancestry valid False of
        (valid', added) \<Rightarrow> if \<not> added then valid' else ancestry_loop ancestry valid')"
  by pat_completeness auto
termination
proof (relation "measure (\<lambda>(ancestry, valid). card (fst ` set ancestry - valid))", goal_cases)
  case (2 ancestry valid valid' added)
  then have pass: "ancestry_pass ancestry valid False = (valid', True)" by simp
  obtain h where h: "h \<in> fst ` set ancestry" "h \<notin> valid" "h \<in> valid'"
    using ancestry_pass_added [OF pass] by blast
  have "fst ` set ancestry - valid' \<subset> fst ` set ancestry - valid"
    using ancestry_pass_mono [OF pass] h by blast
  then show ?case by (simp add: psubset_card_mono)
qed simp

declare ancestry_loop.simps [simp del]

definition build_ancestry_set :: "'k WarpLib \<Rightarrow> GrandpaJustification \<Rightarrow> BlockHash set" where
  "build_ancestry_set L j =
     ancestry_loop (map (\<lambda>h. (header_hash L h, parent_hash h)) (votes_ancestries j)) {gj_target_hash j}"

definition verify_precommit_signature ::
  "'k WarpLib \<Rightarrow> SignedPrecommit \<Rightarrow> u64 \<Rightarrow> u64 \<Rightarrow> string + unit" where
  "verify_precommit_signature L p r sid =
     (let payload_bytes = wl_encode_payload L \<lparr>vote_type = 1, sp_target_hash = pc_target_hash p,
            sp_target_number = pc_target_number p, sp_round = r, sp_set_id = sid\<rparr>
      in case wl_key_from_bytes L (authority_id p) of
           Inl e \<Rightarrow> Inl e
         | Inr key \<Rightarrow> wl_verify_strict L key payload_bytes (pc_signature p))"

text \<open>
  \<open>collect\<close> into a \<open>HashMap\<close> keeps the last weight of a key. The loop carries the signed weight and
  the authorities seen; its result is the early return or the weight at the end.
\<close>

definition authority_set :: "GrandpaState \<Rightarrow> AuthorityId \<Rightarrow> u64 option" where
  "authority_set s = map_of (rev (authorities s))"

definition total_weight :: "GrandpaState \<Rightarrow> u64" where
  "total_weight s = sum_list (map snd (authorities s))"

fun precommit_loop ::
  "'k WarpLib \<Rightarrow> GrandpaState \<Rightarrow> u64 \<Rightarrow> BlockHash set \<Rightarrow> u64 \<Rightarrow> SignedPrecommit list \<Rightarrow> u64 \<Rightarrow> AuthorityId set
     \<Rightarrow> u64 + unit" where
  "precommit_loop L s r valid_targets threshold [] signed_weight seen = Inl signed_weight"
| "precommit_loop L s r valid_targets threshold (p # ps) signed_weight seen =
     (case authority_set s (authority_id p) of
        None \<Rightarrow> precommit_loop L s r valid_targets threshold ps signed_weight seen
      | Some authority_weight \<Rightarrow>
          if authority_id p \<in> seen
          then precommit_loop L s r valid_targets threshold ps signed_weight seen
          else
            (let seen' = insert (authority_id p) seen in
             if pc_target_hash p \<notin> valid_targets
             then precommit_loop L s r valid_targets threshold ps signed_weight seen'
             else case verify_precommit_signature L p r (set_id s) of
               Inl _ \<Rightarrow> precommit_loop L s r valid_targets threshold ps signed_weight seen'
             | Inr _ \<Rightarrow>
                 (let signed_weight' = signed_weight + authority_weight in
                  if threshold < signed_weight' then Inr ()
                  else precommit_loop L s r valid_targets threshold ps signed_weight' seen')))"

definition verify_warp_sync_justification ::
  "'k WarpLib \<Rightarrow> GrandpaState \<Rightarrow> GrandpaJustification \<Rightarrow> warp_error + unit" where
  "verify_warp_sync_justification L s j =
     (let valid_targets = build_ancestry_set L j;
          threshold = (total_weight s * 2) div 3
      in case precommit_loop L s (gj_round j) valid_targets threshold (precommits j) 0 {} of
           Inr _ \<Rightarrow> Inr ()
         | Inl signed_weight \<Rightarrow> Inl (InsufficientWeight signed_weight threshold))"

section \<open>Warp sync\<close>

fun find_authority_change_loop :: "'k WarpLib \<Rightarrow> BlockDigestItem list \<Rightarrow> (AuthorityId \<times> u64) list option" where
  "find_authority_change_loop L [] = None"
| "find_authority_change_loop L (log # logs) =
     (case log of
        DConsensus engine data \<Rightarrow>
          (if is_grandpa engine then
             (case wl_decode_consensus L data of
                Inr (ScheduledChange auths _) \<Rightarrow> Some auths
              | Inr (ForcedChange _ auths _) \<Rightarrow> Some auths
              | Inl _ \<Rightarrow> find_authority_change_loop L logs)
           else find_authority_change_loop L logs)
      | _ \<Rightarrow> find_authority_change_loop L logs)"

definition find_warp_sync_grandpa_authority_change ::
  "'k WarpLib \<Rightarrow> BlockHeader \<Rightarrow> (AuthorityId \<times> u64) list option" where
  "find_warp_sync_grandpa_authority_change L h = find_authority_change_loop L (digest_logs h)"

definition process_warp_sync_fragment ::
  "'k WarpLib \<Rightarrow> WarpSyncFragment \<Rightarrow> bool \<Rightarrow> GrandpaState \<Rightarrow> (warp_error + unit) \<times> GrandpaState" where
  "process_warp_sync_fragment L fragment is_last_fragment s =
     (let header = fr_header fragment; justification = fr_justification fragment;
          hash = header_hash L header
      in if hd_number header \<le> finalized_number s
         then (Inl (DoesNotAdvance (hd_number header) (finalized_number s)), s)
         else if gj_target_hash justification \<noteq> hash
         then (Inl (TargetHashMismatch hash (gj_target_hash justification)), s)
         else if gj_target_number justification \<noteq> hd_number header
         then (Inl (TargetNumberMismatch (hd_number header) (gj_target_number justification)), s)
         else case verify_warp_sync_justification L s justification of
           Inl e \<Rightarrow> (Inl e, s)
         | Inr _ \<Rightarrow>
             (let new_authorities = find_warp_sync_grandpa_authority_change L header in
              if new_authorities = None \<and> \<not> is_last_fragment
              then (Inl (NoAuthorityChange (hd_number header)), s)
              else
                (let s' = s\<lparr>finalized_hash := hash, finalized_state_root := state_root header,
                            finalized_number := hd_number header\<rparr>
                 in (Inr (),
                     case new_authorities of
                       Some auths \<Rightarrow> s'\<lparr>set_id := set_id s' + 1, authorities := auths\<rparr>
                     | None \<Rightarrow> s'))))"

fun fragments_loop ::
  "'k WarpLib \<Rightarrow> bool \<Rightarrow> WarpSyncFragment list \<Rightarrow> GrandpaState \<Rightarrow> (warp_error + unit) \<times> GrandpaState" where
  "fragments_loop L finished [] s = (Inr (), s)"
| "fragments_loop L finished (f # fs) s =
     (case process_warp_sync_fragment L f (finished \<and> fs = []) s of
        (Inl e, s') \<Rightarrow> (Inl e, s')
      | (Inr _, s') \<Rightarrow> fragments_loop L finished fs s')"

definition update_with_warp_sync_response ::
  "'k WarpLib \<Rightarrow> bytes \<Rightarrow> GrandpaState \<Rightarrow> (warp_error + bool) \<times> GrandpaState" where
  "update_with_warp_sync_response L response_bytes s =
     (case wl_decode_response L response_bytes of
        Inl e \<Rightarrow> (Inl (DecodeResponse e), s)
      | Inr response \<Rightarrow>
          (case fragments_loop L (is_finished response) (fragments response) s of
             (Inl e, s') \<Rightarrow> (Inl e, s')
           | (Inr _, s') \<Rightarrow> (Inr (is_finished response), s')))"

section \<open>Checkpoints\<close>

text \<open>
  \<open>serde_json\<close> and the derived \<open>Deserialize\<close> as a parameter: the document, a member of an object, and
  a value read as a string. \<open>hex_decode\<close> is the \<open>hex\<close> crate.
\<close>

record 'v Json =
  js_from_str :: "string \<Rightarrow> string + 'v"
  js_get :: "'v \<Rightarrow> string \<Rightarrow> 'v option"
  js_str :: "'v \<Rightarrow> string + string"
  hex_decode :: "string \<Rightarrow> string + bytes"

datatype checkpoint_error =
    CeParse string
  | CeMalformed string
  | CeHeader string
  | CeAuthoritySet string

record LightSyncState =
  finalized_block_header :: bytes
  grandpa_authority_set :: bytes

definition HexString_deserialize :: "'v Json \<Rightarrow> 'v \<Rightarrow> string + bytes" where
  "HexString_deserialize J v =
     (case js_str J v of
        Inl e \<Rightarrow> Inl e
      | Inr s \<Rightarrow>
          (if take 2 s = ''0x'' then hex_decode J (drop 2 s)
           else Inl ''expected 0x-prefixed hex string''))"

definition json_field :: "'v Json \<Rightarrow> string \<Rightarrow> 'v \<Rightarrow> string + bytes" where
  "json_field J name v =
     (case js_get J v name of
        None \<Rightarrow> Inl ''missing field''
      | Some x \<Rightarrow> HexString_deserialize J x)"

definition LightSyncState_deserialize :: "'v Json \<Rightarrow> 'v \<Rightarrow> string + LightSyncState" where
  "LightSyncState_deserialize J v =
     (case json_field J ''finalizedBlockHeader'' v of
        Inl e \<Rightarrow> Inl e
      | Inr h \<Rightarrow>
          (case json_field J ''grandpaAuthoritySet'' v of
             Inl e \<Rightarrow> Inl e
           | Inr a \<Rightarrow> Inr \<lparr>finalized_block_header = h, grandpa_authority_set = a\<rparr>))"

text \<open>\<open>decode_header\<close> and \<open>decode_prefix\<close> are the derived SCALE decoders of the two types.\<close>

definition checkpoint_load ::
  "'k WarpLib \<Rightarrow> (bytes \<Rightarrow> string + BlockHeader) \<Rightarrow> (bytes \<Rightarrow> string + (AuthorityId \<times> u64) list \<times> u64) \<Rightarrow> 'v Json
     \<Rightarrow> string \<Rightarrow> checkpoint_error + GrandpaState" where
  "checkpoint_load L decode_header decode_prefix J json =
     (case js_from_str J json of
        Inl e \<Rightarrow> Inl (CeParse e)
      | Inr value \<Rightarrow>
          (let lss_value = (case js_get J value ''lightSyncState'' of Some v \<Rightarrow> v | None \<Rightarrow> value) in
           case LightSyncState_deserialize J lss_value of
             Inl e \<Rightarrow> Inl (CeMalformed e)
           | Inr lss \<Rightarrow>
               (case decode_header (finalized_block_header lss) of
                  Inl e \<Rightarrow> Inl (CeHeader e)
                | Inr header \<Rightarrow>
                    (case decode_prefix (grandpa_authority_set lss) of
                       Inl e \<Rightarrow> Inl (CeAuthoritySet e)
                     | Inr (current_authorities, sid) \<Rightarrow>
                         Inr \<lparr>authorities = current_authorities, set_id = sid,
                              finalized_number = hd_number header,
                              finalized_hash = header_hash L header,
                              finalized_state_root = state_root header\<rparr>))))"

end
