(* ===== verification/WarpSyncTrust.thy ===== *)
theory WarpSyncTrust
  imports WarpSync
begin

text \<open>
  The trust argument behind warp sync. Votes count for a block and its proven descendants
  (\<open>descends\<close>), a justification is accepted exactly with a two-thirds supermajority of the current
  authorities (\<open>supermajority\<close>), and processing a response only ever moves along a chain of such
  justifications (\<open>trusted_step\<close>).
\<close>

section \<open>Valid targets\<close>

inductive descends :: "(BlockHash \<times> BlockHash) list \<Rightarrow> BlockHash \<Rightarrow> BlockHash \<Rightarrow> bool" for ancestry target where
  descends_self: "descends ancestry target target"
| descends_child: "(hash, parent) \<in> set ancestry \<Longrightarrow> descends ancestry target parent \<Longrightarrow>
    descends ancestry target hash"

definition ancestry_of :: "'k WarpLib \<Rightarrow> GrandpaJustification \<Rightarrow> (BlockHash \<times> BlockHash) list" where
  "ancestry_of L j = map (\<lambda>h. (header_hash L h, parent_hash h)) (votes_ancestries j)"

lemma ancestry_pass_sound:
  "ancestry_pass xs valid added = (valid', added') \<Longrightarrow> set xs \<subseteq> set ancestry \<Longrightarrow>
   \<forall>h \<in> valid. descends ancestry t h \<Longrightarrow> \<forall>h \<in> valid'. descends ancestry t h"
  by (induction xs valid added rule: ancestry_pass.induct)
     (auto split: if_splits intro: descends_child)

lemma ancestry_pass_closed:
  "ancestry_pass xs valid added = (valid', False) \<Longrightarrow>
   valid' = valid \<and> \<not> added \<and> (\<forall>(hash, parent) \<in> set xs. parent \<in> valid \<longrightarrow> hash \<in> valid)"
proof (induction xs valid added rule: ancestry_pass.induct)
  case (2 hash parent xs valid added)
  then show ?case by (cases "parent \<in> valid \<and> hash \<notin> valid") auto
qed simp

lemma ancestry_loop_descends:
  "\<forall>h \<in> valid. descends ancestry t h \<Longrightarrow> t \<in> valid \<Longrightarrow> ancestry_loop ancestry valid = {h. descends ancestry t h}"
proof (induction ancestry valid rule: ancestry_loop.induct)
  case (1 ancestry valid)
  obtain valid' added where pass: "ancestry_pass ancestry valid False = (valid', added)" by fastforce
  have sound: "\<forall>h \<in> valid'. descends ancestry t h"
    using ancestry_pass_sound [OF pass _ 1(2)] by simp
  have t: "t \<in> valid'" using ancestry_pass_mono [OF pass] 1(3) by blast
  show ?case
  proof (cases added)
    case True
    with 1(1) [OF pass [symmetric]] sound t pass show ?thesis by (simp add: ancestry_loop.simps [of ancestry valid])
  next
    case False
    then have "ancestry_pass ancestry valid False = (valid', False)" using pass by simp
    note cl = ancestry_pass_closed [OF this]
    have "descends ancestry t h \<Longrightarrow> h \<in> valid" for h
      by (induction rule: descends.induct) (use cl 1(3) in auto)
    with sound cl have "valid' = {h. descends ancestry t h}" by auto
    with pass False show ?thesis by (simp add: ancestry_loop.simps [of ancestry valid])
  qed
qed

lemma build_ancestry_set_eq:
  "build_ancestry_set L j = {h. descends (ancestry_of L j) (gj_target_hash j) h}"
  unfolding build_ancestry_set_def ancestry_of_def [symmetric]
  by (rule ancestry_loop_descends) (auto intro: descends_self)

section \<open>The supermajority\<close>

text \<open>Of several precommits of one authority the first one is looked at.\<close>

fun first_votes :: "SignedPrecommit list \<Rightarrow> SignedPrecommit list" where
  "first_votes [] = []"
| "first_votes (p # ps) = p # filter (\<lambda>q. authority_id q \<noteq> authority_id p) (first_votes ps)"

definition valid_vote :: "'k WarpLib \<Rightarrow> GrandpaState \<Rightarrow> GrandpaJustification \<Rightarrow> SignedPrecommit \<Rightarrow> bool" where
  "valid_vote L s j p \<longleftrightarrow> authority_set s (authority_id p) \<noteq> None \<and>
     descends (ancestry_of L j) (gj_target_hash j) (pc_target_hash p) \<and>
     verify_precommit_signature L p (gj_round j) (set_id s) = Inr ()"

definition vote_weight :: "GrandpaState \<Rightarrow> SignedPrecommit \<Rightarrow> nat" where
  "vote_weight s p = unat (the (authority_set s (authority_id p)))"

definition signed_weight :: "'k WarpLib \<Rightarrow> GrandpaState \<Rightarrow> GrandpaJustification \<Rightarrow> nat" where
  "signed_weight L s j = sum_list (map (vote_weight s) (filter (valid_vote L s j) (first_votes (precommits j))))"

definition weight_sum :: "(AuthorityId \<times> u64) list \<Rightarrow> nat" where
  "weight_sum auths = sum_list (map (unat \<circ> snd) auths)"

definition supermajority :: "'k WarpLib \<Rightarrow> GrandpaState \<Rightarrow> GrandpaJustification \<Rightarrow> bool" where
  "supermajority L s j \<longleftrightarrow> 2 * weight_sum (authorities s) < 3 * signed_weight L s j"

subsection \<open>Weights\<close>

lemma sum_map_of_le:
  fixes f :: "'b \<Rightarrow> nat"
  assumes "finite K" and "K \<subseteq> dom (map_of xs)"
  shows "(\<Sum>k\<in>K. f (the (map_of xs k))) \<le> sum_list (map (f \<circ> snd) xs)"
  using assms
proof (induction xs arbitrary: K)
  case (Cons x xs)
  obtain a b where x: "x = (a, b)" by fastforce
  let ?K = "K - {a}"
  have sub: "?K \<subseteq> dom (map_of xs)" using Cons.prems(2) x by (auto split: if_splits)
  have eq: "(\<Sum>k\<in>?K. f (the (map_of (x # xs) k))) = (\<Sum>k\<in>?K. f (the (map_of xs k)))"
    by (rule sum.cong) (auto simp: x)
  have "(\<Sum>k\<in>K. f (the (map_of (x # xs) k))) \<le> f b + (\<Sum>k\<in>?K. f (the (map_of (x # xs) k)))"
    using Cons.prems(1) by (cases "a \<in> K") (simp_all add: sum.remove x)
  with eq Cons.IH [of ?K] Cons.prems(1) sub show ?case by (simp add: x)
qed simp

lemma weight_sum_rev: "weight_sum (rev xs) = weight_sum xs"
  by (simp add: weight_sum_def rev_map [symmetric])

lemma ids_first_votes: "distinct (map authority_id (first_votes ps))"
proof (induction ps)
  case (Cons p ps)
  then show ?case by (auto simp: distinct_map inj_on_def)
qed simp

lemma votes_weight_le:
  assumes "distinct (map authority_id vs)" and "\<forall>p \<in> set vs. authority_set s (authority_id p) \<noteq> None"
  shows "sum_list (map (vote_weight s) vs) \<le> weight_sum (authorities s)"
proof -
  let ?K = "set (map authority_id vs)"
  have "sum_list (map (vote_weight s) vs) = (\<Sum>k\<in>?K. unat (the (map_of (rev (authorities s)) k)))"
    using assms(1) by (simp add: sum_list_distinct_conv_sum_set vote_weight_def authority_set_def distinct_map
        sum.reindex sum_list_distinct_conv_sum_set comp_def)
  also have "\<dots> \<le> sum_list (map (unat \<circ> snd) (rev (authorities s)))"
    using assms(2) by (intro sum_map_of_le) (auto simp: authority_set_def dom_def)
  also have "\<dots> = weight_sum (authorities s)"
    using weight_sum_rev [of "authorities s"] by (simp add: weight_sum_def)
  finally show ?thesis .
qed

lemma signed_weight_le: "signed_weight L s j \<le> weight_sum (authorities s)"
  unfolding signed_weight_def
  by (rule votes_weight_le)
     (use ids_first_votes [of "precommits j"] in \<open>auto simp: valid_vote_def distinct_map intro: inj_on_subset\<close>)

lemma unat_sum_list:
  "sum_list (map unat ws) < 2 ^ 64 \<Longrightarrow> unat (sum_list ws :: u64) = sum_list (map unat ws)"
proof (induction ws)
  case (Cons w ws)
  then have "unat (sum_list ws) = sum_list (map unat ws)" by simp
  with Cons.prems show ?case by (simp add: unat_word_ariths)
qed simp

subsection \<open>The loop over the precommits\<close>

definition open_votes ::
  "'k WarpLib \<Rightarrow> GrandpaState \<Rightarrow> GrandpaJustification \<Rightarrow> SignedPrecommit list \<Rightarrow> AuthorityId set \<Rightarrow> SignedPrecommit list" where
  "open_votes L s j ps seen = filter (\<lambda>p. valid_vote L s j p \<and> authority_id p \<notin> seen) (first_votes ps)"

lemma precommit_loop_weight:
  fixes acc :: u64
  assumes "unat acc + sum_list (map (vote_weight s) (open_votes L s j ps seen)) < 2 ^ 64" and "acc \<le> threshold"
  shows "precommit_loop L s (gj_round j) (build_ancestry_set L j) threshold ps acc seen = Inr () \<longleftrightarrow>
    unat threshold < unat acc + sum_list (map (vote_weight s) (open_votes L s j ps seen))"
  using assms
proof (induction ps arbitrary: acc seen)
  case Nil
  then show ?case by (simp add: open_votes_def word_le_nat_alt)
next
  case (Cons p ps)
  let ?run = "precommit_loop L s (gj_round j) (build_ancestry_set L j) threshold"
  let ?W = "\<lambda>vs. sum_list (map (vote_weight s) vs)"
  have skip: "open_votes L s j (p # ps) seen = open_votes L s j ps seen" if "authority_set s (authority_id p) = None"
  proof -
    have "valid_vote L s j q \<Longrightarrow> authority_id q \<noteq> authority_id p" for q
      using that by (auto simp: valid_vote_def)
    then show ?thesis using that unfolding open_votes_def by (auto simp: valid_vote_def intro!: filter_cong)
  qed
  have dup: "open_votes L s j (p # ps) seen = open_votes L s j ps seen" if "authority_id p \<in> seen"
    using that unfolding open_votes_def by (auto intro!: filter_cong)
  have new: "open_votes L s j (p # ps) seen =
      (if valid_vote L s j p then [p] else []) @ open_votes L s j ps (insert (authority_id p) seen)" if "authority_id p \<notin> seen"
    using that unfolding open_votes_def by (auto intro!: filter_cong)
  show ?case
  proof (cases "authority_set s (authority_id p)")
    case None
    with Cons.IH [of acc seen] Cons.prems show ?thesis by (simp add: skip)
  next
    case (Some w)
    note w = Some
    show ?thesis
    proof (cases "authority_id p \<in> seen")
      case True
      with Cons.IH [of acc seen] Cons.prems w show ?thesis by (simp add: dup)
    next
      case False
      let ?seen = "insert (authority_id p) seen"
      show ?thesis
      proof (cases "valid_vote L s j p")
        case False
        then have "?run (p # ps) acc seen = ?run ps acc ?seen"
          using w \<open>authority_id p \<notin> seen\<close>
          by (cases "verify_precommit_signature L p (gj_round j) (set_id s)")
             (auto simp: valid_vote_def build_ancestry_set_eq Let_def)
        with Cons.IH [of acc ?seen] Cons.prems False show ?thesis by (simp add: new [OF \<open>authority_id p \<notin> seen\<close>])
      next
        case True
        then have run: "?run (p # ps) acc seen = (if threshold < acc + w then Inr () else ?run ps (acc + w) ?seen)"
          using w \<open>authority_id p \<notin> seen\<close> by (simp add: valid_vote_def build_ancestry_set_eq Let_def)
        have vw: "vote_weight s p = unat w" using w by (simp add: vote_weight_def)
        have "unat acc + (unat w + ?W (open_votes L s j ps ?seen)) < 2 ^ 64"
          using Cons.prems(1) True by (simp add: new [OF \<open>authority_id p \<notin> seen\<close>] vw)
        then have un: "unat (acc + w) = unat acc + unat w" by (simp add: unat_word_ariths)
        have "?run (p # ps) acc seen = Inr () \<longleftrightarrow>
            threshold < acc + w \<or> unat threshold < unat (acc + w) + ?W (open_votes L s j ps ?seen)"
        proof (cases "threshold < acc + w")
          case True
          with run show ?thesis by (simp only: if_True simp_thms)
        next
          case False
          then have "acc + w \<le> threshold" by simp
          with Cons.IH [of "acc + w" ?seen] \<open>unat acc + (unat w + ?W (open_votes L s j ps ?seen)) < 2 ^ 64\<close> un False run
          show ?thesis by (simp only: if_False simp_thms add.assoc)
        qed
        then show ?thesis
          using True un by (auto simp: new [OF \<open>authority_id p \<notin> seen\<close>] vw word_less_nat_alt)
      qed
    qed
  qed
qed

lemma verify_iff_supermajority:
  assumes "weight_sum (authorities s) < 2 ^ 63"
  shows "verify_warp_sync_justification L s j = Inr () \<longleftrightarrow> supermajority L s j"
proof -
  let ?T = "weight_sum (authorities s)" and ?S = "signed_weight L s j"
  let ?th = "(total_weight s * 2) div 3"
  have T: "unat (total_weight s) = ?T"
    using unat_sum_list [of "map snd (authorities s)"] assms by (simp add: total_weight_def weight_sum_def)
  have "unat (total_weight s * 2) = ?T * 2" using T assms by (simp add: unat_word_ariths)
  then have th: "unat ?th = ?T * 2 div 3" by (simp add: unat_div_distrib)
  have "unat (0 :: u64) + sum_list (map (vote_weight s) (open_votes L s j (precommits j) {})) = ?S"
    by (simp add: signed_weight_def open_votes_def)
  moreover have "?S < 2 ^ 64" using signed_weight_le [of L s j] assms by simp
  ultimately have "precommit_loop L s (gj_round j) (build_ancestry_set L j) ?th (precommits j) 0 {} = Inr () \<longleftrightarrow>
      ?T * 2 div 3 < ?S"
    using precommit_loop_weight [of 0 s L j "precommits j" "{}" ?th] th by simp
  moreover have "?T * 2 div 3 < ?S \<longleftrightarrow> 2 * ?T < 3 * ?S" by (simp add: div_less_iff_less_mult mult.commute)
  ultimately show ?thesis
    by (auto simp: verify_warp_sync_justification_def Let_def supermajority_def split: sum.splits)
qed

section \<open>The chain of trust\<close>

definition advance :: "'k WarpLib \<Rightarrow> BlockHeader \<Rightarrow> GrandpaState \<Rightarrow> GrandpaState" where
  "advance L h s =
     (let s' = s\<lparr>finalized_hash := header_hash L h, finalized_state_root := state_root h,
                 finalized_number := hd_number h\<rparr>
      in case find_warp_sync_grandpa_authority_change L h of
           Some auths \<Rightarrow> s'\<lparr>set_id := set_id s + 1, authorities := auths\<rparr>
         | None \<Rightarrow> s')"

text \<open>
  A step of trust: a higher block whose hash a supermajority of the authorities of the current
  state signed, in the current set, itself or through proven descendants.
\<close>

definition trusted_step :: "'k WarpLib \<Rightarrow> GrandpaState \<Rightarrow> BlockHeader \<Rightarrow> GrandpaState \<Rightarrow> bool" where
  "trusted_step L s h s' \<longleftrightarrow> finalized_number s < hd_number h \<and>
     (\<exists>j. gj_target_hash j = header_hash L h \<and> gj_target_number j = hd_number h \<and> supermajority L s j) \<and>
     s' = advance L h s"

inductive trusted_chain :: "'k WarpLib \<Rightarrow> GrandpaState \<Rightarrow> BlockHeader list \<Rightarrow> GrandpaState \<Rightarrow> bool" for L where
  tc_nil: "trusted_chain L s [] s"
| tc_cons: "trusted_step L s h s' \<Longrightarrow> trusted_chain L s' hs s'' \<Longrightarrow> trusted_chain L s (h # hs) s''"

inductive_cases trusted_chain_NilE: "trusted_chain L s [] s'"

text \<open>
  Every authority set that the state can be handed by a chain of trust has a total weight that the
  threshold's arithmetic can double. (The runtime gives every authority the weight 1.)
\<close>

definition bounded_weights :: "'k WarpLib \<Rightarrow> GrandpaState \<Rightarrow> bool" where
  "bounded_weights L s \<longleftrightarrow> (\<forall>hs s'. trusted_chain L s hs s' \<longrightarrow> weight_sum (authorities s') < 2 ^ 63)"

lemma bounded_weights_now: "bounded_weights L s \<Longrightarrow> weight_sum (authorities s) < 2 ^ 63"
  using tc_nil unfolding bounded_weights_def by blast

lemma bounded_weights_step: "bounded_weights L s \<Longrightarrow> trusted_step L s h s' \<Longrightarrow> bounded_weights L s'"
  using tc_cons unfolding bounded_weights_def by blast

lemma trusted_chain_authorities:
  assumes "trusted_chain L s hs s'" and "P (authorities s)"
    and "\<And>h auths. find_warp_sync_grandpa_authority_change L h = Some auths \<Longrightarrow> P auths"
  shows "P (authorities s')"
  using assms(1,2)
proof (induction rule: trusted_chain.induct)
  case (tc_cons s h s' hs s'')
  then show ?case
    using assms(3) by (auto simp: trusted_step_def advance_def Let_def split: option.splits)
qed simp

lemma process_fragment_trusted:
  assumes "process_warp_sync_fragment L f is_last s = (r, s')" and "bounded_weights L s"
  shows "case r of Inl e \<Rightarrow> s' = s
    | Inr _ \<Rightarrow> trusted_step L s (fr_header f) s' \<and>
        (is_last \<or> find_warp_sync_grandpa_authority_change L (fr_header f) \<noteq> None)"
proof -
  note iff = verify_iff_supermajority [OF bounded_weights_now [OF assms(2)], of L "fr_justification f"]
  show ?thesis
    using assms(1) iff
    by (auto simp: process_warp_sync_fragment_def trusted_step_def advance_def Let_def not_le
        split: if_splits sum.splits option.splits)
qed

lemma fragments_loop_trusted:
  "fragments_loop L fin fs s = (r, s') \<Longrightarrow> bounded_weights L s \<Longrightarrow>
   \<exists>n \<le> length fs. trusted_chain L s (map fr_header (take n fs)) s' \<and> ((\<exists>u. r = Inr u) \<longrightarrow> n = length fs)"
proof (induction fs arbitrary: s)
  case (Cons f fs)
  obtain r1 s1 where pr: "process_warp_sync_fragment L f (fin \<and> fs = []) s = (r1, s1)" by fastforce
  note tr = process_fragment_trusted [OF pr Cons.prems(2)]
  show ?case
  proof (cases r1)
    case (Inl e)
    with Cons.prems(1) pr tr have "s' = s" "\<nexists>u. r = Inr u" by auto
    then show ?thesis by (intro exI [of _ "0 :: nat"]) (simp add: tc_nil)
  next
    case (Inr u)
    with tr have step: "trusted_step L s (fr_header f) s1" by simp
    then have "bounded_weights L s1" by (rule bounded_weights_step [OF Cons.prems(2)])
    moreover have "fragments_loop L fin fs s1 = (r, s')" using Cons.prems(1) pr Inr by simp
    ultimately obtain n where n: "n \<le> length fs" "trusted_chain L s1 (map fr_header (take n fs)) s'"
      "(\<exists>u. r = Inr u) \<longrightarrow> n = length fs" using Cons.IH by blast
    show ?thesis by (rule exI [of _ "Suc n"]) (use n tc_cons [OF step n(2)] in simp)
  qed
qed (auto intro: tc_nil)

lemma update_trusted:
  assumes "bounded_weights L s" and "update_with_warp_sync_response L bs s = (r, s')"
  shows "\<exists>hs. trusted_chain L s hs s' \<and>
    (\<forall>fin. r = Inr fin \<longrightarrow> (\<exists>resp. wl_decode_response L bs = Inr resp \<and> fin = is_finished resp \<and>
       hs = map fr_header (fragments resp)))"
proof (cases "wl_decode_response L bs")
  case (Inl e)
  with assms(2) show ?thesis
    by (intro exI [of _ "[]"]) (auto simp: update_with_warp_sync_response_def intro: tc_nil)
next
  case (Inr resp)
  obtain r0 where run: "fragments_loop L (is_finished resp) (fragments resp) s = (r0, s')"
    and r: "r = (case r0 of Inl e \<Rightarrow> Inl e | Inr _ \<Rightarrow> Inr (is_finished resp))"
    using assms(2) Inr by (auto simp: update_with_warp_sync_response_def split: prod.splits sum.splits)
  obtain n where n: "trusted_chain L s (map fr_header (take n (fragments resp))) s'"
    "(\<exists>u. r0 = Inr u) \<longrightarrow> n = length (fragments resp)"
    using fragments_loop_trusted [OF run assms(1)] by blast
  show ?thesis
    by (rule exI [of _ "map fr_header (take n (fragments resp))"]) (use n Inr r in \<open>auto split: sum.splits\<close>)
qed

lemma trusted_chain_append:
  "trusted_chain L s hs s' \<Longrightarrow> trusted_chain L s' hs' s'' \<Longrightarrow> trusted_chain L s (hs @ hs') s''"
  by (induction rule: trusted_chain.induct) (auto intro: tc_cons)

lemma bounded_weights_chain: "bounded_weights L s \<Longrightarrow> trusted_chain L s hs s' \<Longrightarrow> bounded_weights L s'"
  unfolding bounded_weights_def using trusted_chain_append by blast

lemma trusted_chain_finality:
  "trusted_chain L s hs s' \<Longrightarrow>
     sorted_wrt (<) (finalized_number s # map hd_number hs) \<and>
     (hs \<noteq> [] \<longrightarrow> finalized_number s' = hd_number (last hs) \<and> finalized_hash s' = header_hash L (last hs) \<and>
        finalized_state_root s' = state_root (last hs))"
proof (induction rule: trusted_chain.induct)
  case (tc_cons s h s' hs s'')
  have lt: "finalized_number s < hd_number h" and s': "s' = advance L h s" using tc_cons(1) by (simp_all add: trusted_step_def)
  have fn: "finalized_number s' = hd_number h" "finalized_hash s' = header_hash L h" "finalized_state_root s' = state_root h"
    by (simp_all add: s' advance_def Let_def split: option.splits)
  show ?case
  proof (cases "hs = []")
    case True
    then have "s'' = s'" using tc_cons(2) by (auto elim: trusted_chain_NilE)
    with True lt fn show ?thesis by simp
  next
    case False
    with tc_cons(3) lt fn show ?thesis by (auto intro: less_trans)
  qed
qed simp

section \<open>A small network\<close>

text \<open>
  Three authorities with the one-byte keys 1, 2 and 3. A header is encoded as its number and its
  parent's hash, hashing is the identity, and a signature is the key's byte in front of the block's
  hash. Every GRANDPA digest hands over to authority 9, and every response holds \<open>fs\<close>.
\<close>

definition net_lib :: "WarpSyncFragment list \<Rightarrow> u8 WarpLib" where
  "net_lib fs = \<lparr>
     wl_decode_response = \<lambda>_. Inr \<lparr>fragments = fs, is_finished = True\<rparr>,
     wl_decode_consensus = \<lambda>_. Inr (ScheduledChange [([9], 1)] 0),
     wl_encode_header = \<lambda>h. ucast (hd_number h) # parent_hash h,
     wl_encode_payload = sp_target_hash,
     wl_blake2b = \<lambda>b. b,
     wl_key_from_bytes = \<lambda>b. Inr (hd b),
     wl_verify_strict = \<lambda>k m sig. if sig = k # m then Inr () else Inl ''bad signature''\<rparr>"

definition net_header :: "u32 \<Rightarrow> BlockHash \<Rightarrow> BlockDigestItem list \<Rightarrow> BlockHeader" where
  "net_header n p logs = \<lparr>parent_hash = p, hd_number = n, state_root = [0], extrinsics_root = [], digest_logs = logs\<rparr>"

definition net_state :: "(AuthorityId \<times> u64) list \<Rightarrow> GrandpaState" where
  "net_state auths = \<lparr>authorities = auths, set_id = 0, finalized_number = 4, finalized_hash = [4],
     finalized_state_root = [0]\<rparr>"

definition net_vote :: "u8 \<Rightarrow> BlockHash \<Rightarrow> SignedPrecommit" where
  "net_vote k h = \<lparr>pc_target_hash = h, pc_target_number = 0, pc_signature = k # h, authority_id = [k]\<rparr>"

text \<open>
  Block 5 on top of block 4, and its child, block 6, which authority 3 votes for. Authority 1's
  vote is there twice.
\<close>

definition net_change :: BlockHeader where
  "net_change = net_header 5 [4] [DConsensus (ConsensusEngineId (bytes_of ''FRNK'')) []]"

definition net_justification :: "u8 list \<Rightarrow> GrandpaJustification" where
  "net_justification ks = \<lparr>gj_round = 0, gj_target_hash = [5, 4], gj_target_number = 5,
     precommits = map (\<lambda>k. net_vote k (if k = 3 then [6, 5, 4] else [5, 4])) ks,
     votes_ancestries = [net_header 6 [5, 4] []]\<rparr>"

definition net_authorities :: "(AuthorityId \<times> u64) list" where
  "net_authorities = [([1], 1), ([2], 1), ([3], 1)]"

lemmas net_defs = net_lib_def net_header_def net_state_def net_vote_def net_change_def net_justification_def
  net_authorities_def

lemma net_bounded: "weight_sum auths < 2 ^ 63 \<Longrightarrow> bounded_weights (net_lib fs) (net_state auths)"
proof (unfold bounded_weights_def, intro allI impI)
  fix hs s'
  assume "weight_sum auths < 2 ^ 63" and chain: "trusted_chain (net_lib fs) (net_state auths) hs s'"
  have change: "find_authority_change_loop (net_lib fs) logs = Some as \<Longrightarrow> weight_sum as < 2 ^ 63" for logs as
    by (induction logs) (auto simp: net_lib_def weight_sum_def split: BlockDigestItem.splits if_splits)
  show "weight_sum (authorities s') < 2 ^ 63"
    by (rule trusted_chain_authorities [OF chain])
       (use \<open>weight_sum auths < 2 ^ 63\<close> change in
          \<open>auto simp: net_state_def find_warp_sync_grandpa_authority_change_def\<close>)
qed

section \<open>Properties\<close>

text \<open>
  (C31) The set of blocks a vote may count for is the target of the justification and exactly those
  blocks that the ancestry headers link to it, whatever order the headers come in: the loop that
  repeats passes over the list until nothing is added ends, and ends with the closure.
\<close>

theorem ancestry_is_descendants:
  "h \<in> build_ancestry_set L j \<longleftrightarrow>
   (\<lambda>p c. \<exists>x \<in> set (votes_ancestries j). header_hash L x = c \<and> parent_hash x = p)\<^sup>*\<^sup>* (gj_target_hash j) h"
  (is "_ \<longleftrightarrow> ?R\<^sup>*\<^sup>* _ _")
proof -
  have "descends (ancestry_of L j) (gj_target_hash j) h \<Longrightarrow> ?R\<^sup>*\<^sup>* (gj_target_hash j) h"
  proof (induction rule: descends.induct)
    case (descends_child hash parent)
    then show ?case by (auto simp: ancestry_of_def intro!: rtranclp.rtrancl_into_rtrancl [of ?R _ parent])
  qed simp
  moreover have "?R\<^sup>*\<^sup>* (gj_target_hash j) h \<Longrightarrow> descends (ancestry_of L j) (gj_target_hash j) h"
  proof (induction rule: rtranclp_induct)
    case (step p c)
    then show ?case by (intro descends_child [of c p]) (auto simp: ancestry_of_def)
  qed (rule descends_self)
  ultimately show ?thesis by (auto simp: build_ancestry_set_eq)
qed

text \<open>
  (C11) A justification is accepted exactly when a supermajority signed it: the authorities whose
  first precommit is for the target or a proven descendant and carries a valid signature for this
  round and set hold strictly more than two thirds of the total weight. The 64-bit arithmetic of
  the loop and its early return make no difference while the total weight is below \<open>2^63\<close>.
\<close>

theorem justification_supermajority:
  assumes "weight_sum (authorities s) < 2 ^ 63"
  shows "verify_warp_sync_justification L s j = Inr () \<longleftrightarrow>
    2 * weight_sum (authorities s) <
    3 * sum_list (map (vote_weight s) (filter (valid_vote L s j) (first_votes (precommits j))))"
  using verify_iff_supermajority [OF assms] by (simp add: supermajority_def signed_weight_def)

text \<open>Two of three are not enough even when one of them votes twice; all three are.\<close>

theorem justification_supermajority_witness:
  "verify_warp_sync_justification (net_lib []) (net_state net_authorities) (net_justification [1, 1, 2, 3]) = Inr () \<and>
   2 * weight_sum net_authorities <
     3 * sum_list (map (vote_weight (net_state net_authorities))
       (filter (valid_vote (net_lib []) (net_state net_authorities) (net_justification [1, 1, 2, 3]))
         (first_votes (precommits (net_justification [1, 1, 2, 3]))))) \<and>
   verify_warp_sync_justification (net_lib []) (net_state net_authorities) (net_justification [1, 1, 2]) \<noteq> Inr ()"
proof -
  have "weight_sum (authorities (net_state net_authorities)) < 2 ^ 63"
    by (simp add: net_defs weight_sum_def)
  note iff = justification_supermajority [OF this, of "net_lib []"]
  have "verify_warp_sync_justification (net_lib []) (net_state net_authorities) (net_justification [1, 1, 2, 3]) = Inr ()"
    by code_simp
  moreover have "verify_warp_sync_justification (net_lib []) (net_state net_authorities) (net_justification [1, 1, 2]) \<noteq> Inr ()"
    by code_simp
  ultimately show ?thesis using iff [of "net_justification [1, 1, 2, 3]"] by (simp add: net_state_def)
qed



text \<open>
  The doubling of the total weight wraps in the release profile: with weights \<open>2^63\<close> and 1 the
  threshold is 0, and the authority of weight 1 finalises a block alone.
\<close>

theorem threshold_wraps:
  "weight_sum [([1], 2 ^ 63), ([2], 1)] = 2 ^ 63 + 1 \<and>
   verify_warp_sync_justification (net_lib []) (net_state [([1], 2 ^ 63), ([2], 1)]) (net_justification [2]) = Inr ()"
proof
  show "weight_sum [([1], 2 ^ 63), ([2], 1)] = 2 ^ 63 + 1" by (simp add: weight_sum_def)
  have "[5, 4] \<in> build_ancestry_set (net_lib []) (net_justification [2])"
    by (simp add: build_ancestry_set_eq net_justification_def descends_self)
  then show "verify_warp_sync_justification (net_lib []) (net_state [([1], 2 ^ 63), ([2], 1)]) (net_justification [2]) = Inr ()"
    by (simp add: verify_warp_sync_justification_def Let_def)
       (simp add: net_defs total_weight_def authority_set_def verify_precommit_signature_def Let_def)
qed

text \<open>
  \<open>js_str\<close> stands for reading a \<open>&str\<close> out of an owned \<open>serde_json::Value\<close>, and \<open>serde\<close> gives a \<open>&str\<close> only to
  deserializers that lend it from their input. When no value lends one, no document loads.
\<close>

lemma checkpoint_strings_are_owned:
  assumes "\<And>v. \<exists>e. js_str J v = Inl e" and "js_from_str J json = Inr v"
  shows "\<exists>e. checkpoint_load L decode_header decode_prefix J json = Inl (CeMalformed e)"
proof -
  have "\<exists>e. json_field J name w = Inl e" for name w
    using assms(1) by (auto simp: json_field_def HexString_deserialize_def split: option.splits sum.splits) (metis sum.distinct(1))
  then have "\<exists>e. LightSyncState_deserialize J w = Inl e" for w
    by (auto simp: LightSyncState_deserialize_def split: sum.splits) (metis sum.distinct(1))
  then obtain e where
    "LightSyncState_deserialize J (case js_get J v ''lightSyncState'' of Some w \<Rightarrow> w | None \<Rightarrow> v) = Inl e"
    by blast
  with assms(2) show ?thesis by (simp add: checkpoint_load_def Let_def)
qed

end
