(* ===== verification/StateCodec.thy ===== *)
theory StateCodec
  imports Protobuf
begin

text \<open>
  The \<open>/state/2\<close> codec of \<open>examples/assethub-balance/src/main.rs\<close>: a hand-written protobuf writer
  for \<open>StateRequest\<close> and a reader that looks for the proof in a \<open>StateResponse\<close>. Both are related to
  the crate's own codec of \<open>src/utils/protobuf.rs\<close>. The \<open>anyhow\<close> errors are values of
  \<open>codec_error\<close> with the formatted arguments.
\<close>

datatype codec_error =
    CodecVarintEnd
  | CodecVarintTooLong
  | CodecShort nat nat
  | CodecWireType u64 u64
  | CodecNoProof

section \<open>Writing\<close>

function st_encode_varint :: "bytes \<Rightarrow> u64 \<Rightarrow> bytes" where
  "st_encode_varint out value =
     (if 128 \<le> value then st_encode_varint (out @ [ucast value OR 128]) (drop_bit 7 value)
      else out @ [ucast value])"
  by pat_completeness auto
termination
proof (relation "measure (\<lambda>(out, value). unat value)", goal_cases)
  case (2 out v)
  then have "128 \<le> unat v" by (simp add: word_le_nat_alt)
  then show ?case by (simp add: unat_drop_bit_7)
qed simp

declare st_encode_varint.simps [simp del]

definition encode_len_delim :: "bytes \<Rightarrow> u32 \<Rightarrow> bytes \<Rightarrow> bytes" where
  "encode_len_delim out field_id data =
     (let out1 = st_encode_varint out (push_bit 3 (ucast field_id) OR 2);
          out2 = st_encode_varint out1 (of_nat (length data))
      in out2 @ data)"

definition encode_state_request :: "bytes \<Rightarrow> bytes \<Rightarrow> bytes" where
  "encode_state_request block_hash start_key =
     encode_len_delim (encode_len_delim [] 1 block_hash) 2 start_key"

section \<open>Reading\<close>

text \<open>The loop of \<open>decode_varint\<close>; the second component is the cursor it leaves.\<close>

fun st_decode_loop :: "u64 \<Rightarrow> nat \<Rightarrow> bytes \<Rightarrow> (codec_error + u64) \<times> bytes" where
  "st_decode_loop value shift [] = (Inl CodecVarintEnd, [])"
| "st_decode_loop value shift (byte # rest) =
     (let value' = value OR push_bit shift (ucast (byte AND 127)) in
      if byte AND 128 = 0 then (Inr value', rest)
      else if 64 \<le> shift + 7 then (Inl CodecVarintTooLong, rest)
      else st_decode_loop value' (shift + 7) rest)"

definition st_decode_varint :: "bytes \<Rightarrow> (codec_error + u64) \<times> bytes" where
  "st_decode_varint input = st_decode_loop 0 0 input"

definition take_bytes :: "bytes \<Rightarrow> nat \<Rightarrow> codec_error + bytes \<times> bytes" where
  "take_bytes input n =
     (if length input < n then Inl (CodecShort n (length input))
      else Inr (take n input, drop n input))"

text \<open>A length and the bytes it announces, as both length-delimited branches read them.\<close>

definition take_delimited :: "bytes \<Rightarrow> codec_error + bytes \<times> bytes" where
  "take_delimited input =
     (case st_decode_varint input of
        (Inl e, _) \<Rightarrow> Inl e
      | (Inr len, input') \<Rightarrow> take_bytes input' (unat len))"

lemma st_decode_loop_length: "st_decode_loop v s bs = (Inr x, rest) \<Longrightarrow> length rest < length bs"
  by (induction v s bs rule: st_decode_loop.induct) (fastforce simp: Let_def split: if_splits)+

lemma st_decode_varint_length: "st_decode_varint bs = (Inr x, rest) \<Longrightarrow> length rest < length bs"
  unfolding st_decode_varint_def by (rule st_decode_loop_length)

lemma take_delimited_length: "take_delimited bs = Inr (x, rest) \<Longrightarrow> length rest < length bs"
  by (auto simp: take_delimited_def take_bytes_def split: sum.splits prod.splits if_splits
      dest!: st_decode_varint_length)

function extract_proof_loop :: "bytes option \<Rightarrow> bytes \<Rightarrow> codec_error + bytes" where
  "extract_proof_loop proof input =
     (if input = [] then (case proof of None \<Rightarrow> Inl CodecNoProof | Some p \<Rightarrow> Inr p)
      else case st_decode_varint input of
        (Inl e, _) \<Rightarrow> Inl e
      | (Inr tag, input1) \<Rightarrow>
          (let field_id = drop_bit 3 tag; wire_type = tag AND 7 in
           if wire_type = 2 then
             (case take_delimited input1 of
                Inl e \<Rightarrow> Inl e
              | Inr (bytes, input2) \<Rightarrow>
                  extract_proof_loop (if field_id = 2 then Some bytes else proof) input2)
           else if wire_type = 0 then
             (case st_decode_varint input1 of
                (Inl e, _) \<Rightarrow> Inl e
              | (Inr _, input2) \<Rightarrow> extract_proof_loop proof input2)
           else Inl (CodecWireType wire_type field_id)))"
  by pat_completeness auto
termination
  by (relation "measure (\<lambda>(proof, input). length input)")
     (auto dest!: st_decode_varint_length take_delimited_length sym [of _ "st_decode_varint _"] sym [of _ "take_delimited _"])

declare extract_proof_loop.simps [simp del]

definition extract_state_response_proof :: "bytes \<Rightarrow> codec_error + bytes" where
  "extract_state_response_proof input = extract_proof_loop None input"

section \<open>The varints are the crate's\<close>

lemma st_encode_varint_eq: "st_encode_varint out v = out @ varint_bytes v"
proof (induction out v rule: st_encode_varint.induct)
  case (1 out v)
  show ?case
  proof (cases "128 \<le> v")
    case True
    then have ge: "128 \<le> unat v" by (simp add: word_le_nat_alt)
    then have "drop_bit 7 v \<noteq> 0" by (metis unat_drop_bit_7 div_eq_0_iff not_le unat_0 zero_neq_numeral)
    moreover have "(ucast (v AND 127) OR 128 :: u8) = ucast v OR 128"
    proof (rule bit_eqI)
      fix n
      show "bit (ucast (v AND 127) OR 128 :: u8) n = bit (ucast v OR 128 :: u8) n"
        by (cases "n = 7") (auto simp: bit_simps)
    qed
    ultimately show ?thesis
      using 1 True by (simp add: st_encode_varint.simps [of out] varint_bytes.simps [of v])
  next
    case False
    then have "unat v < 128" by (simp add: word_le_nat_alt)
    with False show ?thesis by (simp add: st_encode_varint.simps [of out] varint_bytes_small)
  qed
qed

lemma decode_valid_loop_append:
  "decode_valid_loop v i (xs @ ys) = decode_valid_loop (decode_valid_loop v i xs) (i + length xs) ys"
  by (induction v i xs rule: decode_valid_loop.induct) simp_all

lemma st_decode_loop_decoder:
  assumes "length pre < 10"
  shows "(\<exists>v. st_decode_loop (decode_valid_loop 0 0 pre) (7 * length pre) bs = (Inr v, rest) \<and> x = v) \<longleftrightarrow>
    varint_decode_loop (decoder_of pre) bs = (Inr x, rest)"
  using assms
proof (induction bs arbitrary: pre)
  case (Cons b bs)
  let ?v = "decode_valid_loop 0 0 (pre @ [b])"
  have v: "decode_valid_loop 0 0 pre OR push_bit (7 * length pre) (ucast (b AND 127)) = ?v"
    by (simp add: decode_valid_loop_append mult.commute)
  show ?case
  proof (cases "is_cont b")
    case False
    then show ?thesis
      using feed_decoder_of(1) [OF Cons.prems, of b] v by (auto simp: is_cont_def Let_def)
  next
    case True
    show ?thesis
    proof (cases "length pre = 9")
      case True
      have "varint_decode_loop (decoder_of (pre @ [b])) bs \<noteq> (Inr x, rest)"
        using feed_decoder_of(2) [of "pre @ [b]"] True by (cases bs) auto
      then show ?thesis
        using feed_decoder_of(1) [OF Cons.prems, of b] \<open>is_cont b\<close> True by (auto simp: is_cont_def Let_def)
    next
      case False
      then have "length (pre @ [b]) < 10" using Cons.prems by simp
      from Cons.IH [OF this] feed_decoder_of(1) [OF Cons.prems, of b] \<open>is_cont b\<close> v False Cons.prems
      show ?thesis by (auto simp: is_cont_def Let_def add.commute)
    qed
  qed
qed simp

lemma st_decode_varint_iff: "st_decode_varint bs = (Inr x, rest) \<longleftrightarrow> varint_decode bs = (Inr x, rest)"
  using st_decode_loop_decoder [of "[]" bs rest x]
  by (auto simp: st_decode_varint_def varint_decode_def decoder_of_Nil)

lemma st_decode_varint_bytes [wire_simps]: "st_decode_varint (varint_bytes v @ rest) = (Inr v, rest)"
  by (simp add: st_decode_varint_iff wire_simps)

section \<open>Messages\<close>

lemma encode_len_delim_eq: "encode_len_delim out i bs = out @ field_bytes (ucast i, FData bs)"
  by (simp add: encode_len_delim_def Let_def st_encode_varint_eq tag_of_def)

lemma tag_wire_type [wire_simps]:
  "tag_of i WVarint AND 7 = 0" "tag_of i WI64 AND 7 = 1" "tag_of i WData AND 7 = 2" "tag_of i WI32 AND 7 = 5"
  using and_tag [of 0 i] by (simp_all add: tag_of_def and_tag)

text \<open>What a field means to the reader: the proof, nothing, or an error.\<close>

fun proof_of_field :: "Field \<Rightarrow> bytes option \<Rightarrow> codec_error + bytes option" where
  "proof_of_field (i, FData bs) p = Inr (if i = 2 then Some bs else p)"
| "proof_of_field (i, FVarint _) p = Inr p"
| "proof_of_field (i, FI64 _) p = Inl (CodecWireType 1 i)"
| "proof_of_field (i, FI32 _) p = Inl (CodecWireType 5 i)"

lemma extract_field:
  assumes "field_ok f"
  shows "extract_proof_loop p (field_bytes f @ rest) =
    (case proof_of_field f p of Inl e \<Rightarrow> Inl e | Inr p' \<Rightarrow> extract_proof_loop p' rest)"
proof -
  obtain i x where f: "f = (i, x)" by (cases f)
  show ?thesis
    by (cases x) (use f assms in \<open>subst extract_proof_loop.simps,
      simp add: wire_simps unat_of_nat_u64 take_delimited_def take_bytes_def Let_def\<close>)+
qed

fun proof_of_fields :: "Field list \<Rightarrow> bytes option \<Rightarrow> codec_error + bytes" where
  "proof_of_fields [] p = (case p of None \<Rightarrow> Inl CodecNoProof | Some bs \<Rightarrow> Inr bs)"
| "proof_of_fields (f # fs) p =
     (case proof_of_field f p of Inl e \<Rightarrow> Inl e | Inr p' \<Rightarrow> proof_of_fields fs p')"

lemma extract_fields:
  "list_all field_ok fs \<Longrightarrow> extract_proof_loop p (fields_bytes fs) = proof_of_fields fs p"
proof (induction fs arbitrary: p)
  case Nil
  then show ?case by (simp add: extract_proof_loop.simps)
next
  case (Cons f fs)
  then show ?case by (simp add: extract_field split: sum.split)
qed

text \<open>The reference reading: the fields that are refused, and the candidates for the proof.\<close>

fun fixed_width :: "Field \<Rightarrow> bool" where
  "fixed_width (i, FI64 _) = True"
| "fixed_width (i, FI32 _) = True"
| "fixed_width _ = False"

fun fixed_error :: "Field \<Rightarrow> codec_error" where
  "fixed_error (i, FI64 _) = CodecWireType 1 i"
| "fixed_error (i, _) = CodecWireType 5 i"

fun proof_fields :: "Field list \<Rightarrow> bytes list" where
  "proof_fields [] = []"
| "proof_fields ((i, FData bs) # fs) = (if i = 2 then bs # proof_fields fs else proof_fields fs)"
| "proof_fields (_ # fs) = proof_fields fs"

lemma proof_of_fields_eq:
  "proof_of_fields fs p =
     (let ps = (case p of None \<Rightarrow> [] | Some bs \<Rightarrow> [bs]) @ proof_fields fs in
      case find fixed_width fs of
        Some f \<Rightarrow> Inl (fixed_error f)
      | None \<Rightarrow> if ps = [] then Inl CodecNoProof else Inr (last ps))"
proof (induction fs p rule: proof_of_fields.induct)
  case (2 f fs p)
  obtain i x where f: "f = (i, x)" by (cases f)
  show ?case by (cases x) (use 2 f in \<open>auto simp: Let_def split: option.splits\<close>)
qed (simp split: option.split)

section \<open>Properties\<close>

text \<open>
  (C35) The state protocol's messages. A request is the protobuf message with the block hash in field 1 and
  the key in field 2, as the crate's own decoder reads it. In a response made of any
  well-formed fields the proof is the last length-delimited field 2; a response without one
  and a response with a fixed-width field are rejected. The example's varint reader accepts
  exactly what the crate's reader accepts.
\<close>

theorem state_protocol_codec:
  assumes "length block_hash < 2 ^ 64" and "length start_key < 2 ^ 64" and "list_all field_ok fs"
  shows "protobuf_decode collect_visitor (encode_state_request block_hash start_key) [] =
      (Inr (), [], [(1, FData block_hash), (2, FData start_key)]) \<and>
    extract_state_response_proof (fields_bytes fs) =
      (case find fixed_width fs of
         Some f \<Rightarrow> Inl (fixed_error f)
       | None \<Rightarrow>
           if proof_fields fs = [] then Inl CodecNoProof else Inr (last (proof_fields fs))) \<and>
    (st_decode_varint input = (Inr v, rest) \<longleftrightarrow> varint_decode input = (Inr v, rest))"
  (is "?request \<and> ?response \<and> ?varint")
proof (intro conjI)
  have "encode_state_request block_hash start_key = fields_bytes [(1, FData block_hash), (2, FData start_key)]"
    by (simp add: encode_state_request_def encode_len_delim_eq)
  then show ?request
    using protobuf_decode_fields [of "[(1, FData block_hash), (2, FData start_key)]" collect_visitor "[]" "[]"] assms
    by (simp add: fold_collect collect_visitor_def)
  show ?response
    using extract_fields [OF assms(3), of None]
    by (simp add: extract_state_response_proof_def proof_of_fields_eq Let_def)
  show ?varint
    by (rule st_decode_varint_iff)
qed

theorem state_protocol_codec_witness:
  "extract_state_response_proof (fields_bytes [(1, FData [7]), (2, FData [1, 2]), (3, FVarint 1)]) = Inr [1, 2]"
  using state_protocol_codec [of "[]" "[]" "[(1, FData [7]), (2, FData [1, 2]), (3, FVarint 1)]"] by simp

end
