(* ===== verification/LightClient.thy ===== *)
theory LightClient
  imports ConnectionRuns WarpSyncTrust StateCodec
begin

text \<open>
  The light clients built on the crate: the demo of \<open>warp-sync/src/main.rs\<close> and the examples
  \<open>assethub-balance\<close> and \<open>assethub-timestamp\<close>. Each drives a connection with a loop over \<open>next\<close> and
  keeps a \<open>GrandpaState\<close>; the examples then read the chain's storage through proofs.

  \<open>sp_state_machine\<close>, \<open>sp_trie\<close>, the SCALE codec, \<open>hex\<close>, \<open>bs58\<close> and the hash functions are the
  parameter \<open>StateLib\<close>. A loop over \<open>next\<close> is \<open>client_poll\<close> (one poll of the \<open>async\<close> block), with the
  \<open>match\<close> over the messages as its handler; the outer loop that reconnects is the step relation
  \<open>client_step\<close>, in which \<open>tokio\<close>'s connections are arbitrary.
\<close>

section \<open>Libraries and errors\<close>

type_synonym u128 = "128 word"

record AccountData =
  ad_free :: u128
  ad_reserved :: u128
  ad_frozen :: u128
  ad_flags :: u128

record AccountInfo =
  ai_nonce :: u32
  ai_consumers :: u32
  ai_providers :: u32
  ai_sufficients :: u32
  ai_data :: AccountData

record 'proof StateLib =
  decode_nodes :: "bytes \<Rightarrow> string + bytes list"
  to_storage_proof :: "bytes list \<Rightarrow> Hash \<Rightarrow> string + 'proof"
  read_proof_check :: "Hash \<Rightarrow> 'proof \<Rightarrow> bytes list \<Rightarrow> string + (bytes \<rightharpoonup> bytes option)"
  decode_byte_vec :: "bytes \<Rightarrow> string + bytes"
  decode_header :: "bytes \<Rightarrow> string + BlockHeader"
  decode_account_info :: "bytes \<Rightarrow> string + AccountInfo \<times> bytes"
  decode_u64 :: "bytes \<Rightarrow> string + u64"
  encode_u32 :: "u32 \<Rightarrow> bytes"
  encode_announce_handshake :: "u8 \<Rightarrow> u32 \<Rightarrow> bytes \<Rightarrow> bytes \<Rightarrow> bytes"
  lib_hex_decode :: "string \<Rightarrow> string + bytes"
  lib_hex_encode :: "bytes \<Rightarrow> string"
  bs58_decode :: "string \<Rightarrow> string + bytes"
  twox_64 :: "bytes \<Rightarrow> bytes"
  twox_128 :: "bytes \<Rightarrow> bytes"
  lib_blake2_128 :: "bytes \<Rightarrow> bytes"
  lib_blake2b_512 :: "bytes \<Rightarrow> bytes"

datatype client_error =
    ClStateResponse codec_error
  | ClNodes string
  | ClExpand string
  | ClProof string
  | ClMissingKey
  | ClWarp warp_error
  | ClConnection ConnectionError
  | ClStream StreamError
  | ClSubscriptionClosed
  | ClSubscriptionError SubscriptionResponseError
  | ClRequest RequestResponseError
  | ClHeadData string
  | ClHeader string
  | ClAccountInfo string
  | ClLeftover nat
  | ClTimestamp string
  | ClEnded
  | ClCheckpoint checkpoint_error
  | ClTcp string

section \<open>Storage keys and proofs\<close>

definition blake2_128 :: "'q StateLib \<Rightarrow> bytes \<Rightarrow> bytes" where
  "blake2_128 S data = lib_blake2_128 S data"

definition system_account_key :: "'q StateLib \<Rightarrow> bytes \<Rightarrow> bytes" where
  "system_account_key S account_id =
     twox_128 S (bytes_of ''System'') @ twox_128 S (bytes_of ''Account'') @
     blake2_128 S account_id @ account_id"

definition paras_heads_key :: "'q StateLib \<Rightarrow> u32 \<Rightarrow> bytes" where
  "paras_heads_key S para_id =
     (let id_encoded = encode_u32 S para_id in
      twox_128 S (bytes_of ''Paras'') @ twox_128 S (bytes_of ''Heads'') @
      twox_64 S id_encoded @ id_encoded)"

definition timestamp_now_key :: "'q StateLib \<Rightarrow> bytes" where
  "timestamp_now_key S = twox_128 S (bytes_of ''Timestamp'') @ twox_128 S (bytes_of ''Now'')"

definition verify_state_proof :: "'q StateLib \<Rightarrow> bytes \<Rightarrow> Hash \<Rightarrow> bytes \<Rightarrow> client_error + bytes" where
  "verify_state_proof S response_bytes expected_state_root key =
     (case extract_state_response_proof response_bytes of
        Inl e \<Rightarrow> Inl (ClStateResponse e)
      | Inr proof_bytes \<Rightarrow>
     (case decode_nodes S proof_bytes of
        Inl e \<Rightarrow> Inl (ClNodes e)
      | Inr encoded_nodes \<Rightarrow>
     (case to_storage_proof S encoded_nodes expected_state_root of
        Inl e \<Rightarrow> Inl (ClExpand e)
      | Inr storage_proof \<Rightarrow>
     (case read_proof_check S expected_state_root storage_proof [key] of
        Inl e \<Rightarrow> Inl (ClProof e)
      | Inr verified \<Rightarrow>
          (case verified key of
             Some (Some v) \<Rightarrow> Inr v
           | _ \<Rightarrow> Inl ClMissingKey)))))"

section \<open>Addresses and amounts\<close>

datatype address_error =
    AeHex string
  | AeHexLength nat
  | AeBase58 string
  | AeLength nat
  | AeChecksum

definition parse_account_id :: "'q StateLib \<Rightarrow> string \<Rightarrow> address_error + bytes" where
  "parse_account_id S input =
     (if take 2 input = ''0x'' then
        (case lib_hex_decode S (drop 2 input) of
           Inl e \<Rightarrow> Inl (AeHex e)
         | Inr bs \<Rightarrow> if length bs \<noteq> 32 then Inl (AeHexLength (length bs)) else Inr bs)
      else case bs58_decode S input of
        Inl e \<Rightarrow> Inl (AeBase58 e)
      | Inr decoded \<Rightarrow>
          (if length decoded \<noteq> 35 then Inl (AeLength (length decoded))
           else
             (let body = take 33 decoded;
                  checksum_received = drop 33 decoded;
                  hash = lib_blake2b_512 S (bytes_of ''SS58PRE'' @ body)
              in if checksum_received \<noteq> take 2 hash then Inl AeChecksum
                 else Inr (take 32 (drop 1 decoded)))))"

text \<open>\<open>format!("{n}")\<close> of an unsigned integer, and its zero-padded form \<open>{n:010}\<close>.\<close>

fun dec_digits :: "nat \<Rightarrow> string" where
  "dec_digits n =
     (if n < 10 then [char_of (48 + n)] else dec_digits (n div 10) @ [char_of (48 + n mod 10)])"

declare dec_digits.simps [simp del]

definition pad_zeros :: "nat \<Rightarrow> string \<Rightarrow> string" where
  "pad_zeros width s = replicate (width - length s) CHR ''0'' @ s"

definition format_dot :: "u128 \<Rightarrow> string" where
  "format_dot plancks =
     (let whole = plancks div 10000000000; frac = plancks mod 10000000000
      in dec_digits (unat whole) @ ''.'' @ pad_zeros 10 (dec_digits (unat frac)) @ '' DOT'')"

section \<open>Configurations\<close>

record ClientIds =
  block_announce_id :: SubscriptionProtocolId
  grandpa_id :: SubscriptionProtocolId
  warp_sync_id :: RequestProtocolId
  state_id :: RequestProtocolId

definition announce_protocol :: "'q StateLib \<Rightarrow> bytes \<Rightarrow> SubscriptionProtocol" where
  "announce_protocol S genesis = SubscriptionProtocol_new
     (bytes_of (''/'' @ lib_hex_encode S genesis @ ''/block-announces/1''))
     (encode_announce_handshake S 2 0 genesis genesis)
     (\<lambda>remote_hs. 69 \<le> length remote_hs \<and> take 32 (drop 37 remote_hs) = genesis)"

definition grandpa_protocol :: "'q StateLib \<Rightarrow> bytes \<Rightarrow> SubscriptionProtocol" where
  "grandpa_protocol S genesis = SubscriptionProtocol_new
     (bytes_of (''/'' @ lib_hex_encode S genesis @ ''/grandpa/1'')) [2] (\<lambda>remote_hs. length remote_hs = 1)"

definition sync_protocol :: "'q StateLib \<Rightarrow> bytes \<Rightarrow> string \<Rightarrow> nat \<Rightarrow> RequestProtocol" where
  "sync_protocol S genesis name max_size = rp_with_timeout (from_secs 60)
     (rp_with_max_response_size max_size (RequestProtocol_new (bytes_of (''/'' @ lib_hex_encode S genesis @ name))))"

text \<open>
  The protocols of \<open>learn_assethub_head\<close>, of the functions that read the parachain's storage, and of
  the demo, added to a new configuration in order.
\<close>

definition notification_config ::
  "'q StateLib \<Rightarrow> bytes \<Rightarrow> nat \<Rightarrow> (SubscriptionProtocolId \<times> SubscriptionProtocolId) \<times> nat \<times> Configuration" where
  "notification_config S genesis n0 =
     (case add_subscription_protocol (announce_protocol S genesis) n0 Configuration_default of
        (announce, n1, cfg1) \<Rightarrow>
     (case add_subscription_protocol (grandpa_protocol S genesis) n1 cfg1 of
        (grandpa, n2, cfg2) \<Rightarrow> ((announce, grandpa), n2, cfg2)))"

definition relay_config :: "'q StateLib \<Rightarrow> bytes \<Rightarrow> nat \<Rightarrow> ClientIds \<times> nat \<times> Configuration" where
  "relay_config S genesis n0 =
     (case notification_config S genesis n0 of
        ((announce, grandpa), n2, cfg2) \<Rightarrow>
     (case add_request_protocol (sync_protocol S genesis ''/sync/warp'' (32 * 1024 * 1024)) n2 cfg2 of
        (warp, n3, cfg3) \<Rightarrow>
     (case add_request_protocol (sync_protocol S genesis ''/state/2'' (16 * 1024 * 1024)) n3 cfg3 of
        (state, n4, cfg4) \<Rightarrow>
          (\<lparr>block_announce_id = announce, grandpa_id = grandpa, warp_sync_id = warp, state_id = state\<rparr>,
           n4, cfg4))))"

definition fetch_config ::
  "'q StateLib \<Rightarrow> bytes \<Rightarrow> nat \<Rightarrow> (SubscriptionProtocolId \<times> RequestProtocolId) \<times> nat \<times> Configuration" where
  "fetch_config S genesis n0 =
     (case notification_config S genesis n0 of
        ((announce, _), n2, cfg2) \<Rightarrow>
     (case add_request_protocol (sync_protocol S genesis ''/state/2'' (16 * 1024 * 1024)) n2 cfg2 of
        (state, n3, cfg3) \<Rightarrow> ((announce, state), n3, cfg3)))"

definition demo_config ::
  "'q StateLib \<Rightarrow> bytes \<Rightarrow> nat \<Rightarrow> (SubscriptionProtocolId \<times> RequestProtocolId) \<times> nat \<times> Configuration" where
  "demo_config S genesis n0 =
     (case notification_config S genesis n0 of
        ((announce, _), n2, cfg2) \<Rightarrow>
     (case add_request_protocol (sync_protocol S genesis ''/sync/warp'' (32 * 1024 * 1024)) n2 cfg2 of
        (warp, n3, cfg3) \<Rightarrow> ((announce, warp), n3, cfg3)))"

section \<open>The loop over the messages\<close>

text \<open>What the \<open>match\<close> makes of a message: go on, leave the loop with a value, or an error.\<close>

datatype 'a flow = FlContinue | FlReturn 'a | FlBail client_error

text \<open>\<open>conn.request(..)?\<close>\<close>

definition client_request ::
  "('p, 'z) PlatformT \<Rightarrow> 'p \<Rightarrow> RequestProtocolId \<Rightarrow> bytes \<Rightarrow> ('r, 'w, 'z) Connection \<times> 'x
     \<Rightarrow> ('a flow \<times> ('r, 'w, 'z) Connection \<times> 'x) option" where
  "client_request pf now pid req s =
     (case conn_request pf now pid req (fst s) of
        None \<Rightarrow> None
      | Some (Inl e, c) \<Rightarrow> Some (FlBail (ClConnection e), c, snd s)
      | Some (Inr _, c) \<Rightarrow> Some (FlContinue, c, snd s))"

text \<open>
  One poll of \<open>while let Some(result) = conn.next().await { match result? { .. } }\<close>. \<open>fut\<close> is the state
  of the suspended \<open>next\<close>; \<open>m\<close> bounds the number of messages handled.
\<close>

fun client_poll ::
  "('p, 'z) PlatformT \<Rightarrow> (nat \<Rightarrow> nat \<Rightarrow> 'p) \<Rightarrow> 'r read_op \<Rightarrow> 'w write_op \<Rightarrow> (bytes \<Rightarrow> nat) \<Rightarrow> nat \<Rightarrow> nat \<Rightarrow> nat
     \<Rightarrow> ('p \<Rightarrow> Message \<Rightarrow> ('r, 'w, 'z) Connection \<times> 'x \<Rightarrow> ('a flow \<times> ('r, 'w, 'z) Connection \<times> 'x) option)
     \<Rightarrow> nat \<Rightarrow> nat option \<Rightarrow> ('r, 'w, 'z) Connection \<times> 'x
     \<Rightarrow> ((client_error + 'a) poll \<times> nat option \<times> ('r, 'w, 'z) Connection \<times> 'x) run" where
  "client_poll pf clk rd wr sl fuel k n handler 0 fut (c, x) = OutOfFuel"
| "client_poll pf clk rd wr sl fuel k n handler (Suc m) fut (c, x) =
     (case conn_next pf (clk m) rd wr sl fuel k n fut c of
        Panic \<Rightarrow> Panic
      | OutOfFuel \<Rightarrow> OutOfFuel
      | Done (Pending, fut', c') \<Rightarrow> Done (Pending, fut', c', x)
      | Done (Ready None, _, c') \<Rightarrow> Done (Ready (Inl ClEnded), None, c', x)
      | Done (Ready (Some (Inl e)), _, c') \<Rightarrow> Done (Ready (Inl (ClStream e)), None, c', x)
      | Done (Ready (Some (Inr msg)), _, c') \<Rightarrow>
          (case handler (clk m 0) msg (c', x) of
             None \<Rightarrow> Panic
           | Some (FlContinue, s') \<Rightarrow> client_poll pf clk rd wr sl fuel k n handler m None s'
           | Some (FlReturn a, s') \<Rightarrow> Done (Ready (Inr a), None, s')
           | Some (FlBail e, s') \<Rightarrow> Done (Ready (Inl e), None, s')))"

section \<open>Learning the head of the parachain\<close>

text \<open>The GRANDPA state and \<open>warp_sync_done\<close>.\<close>

type_synonym relay_state = "GrandpaState \<times> bool"

definition relay_on_message ::
  "('p, 'z) PlatformT \<Rightarrow> 'k WarpLib \<Rightarrow> 'q StateLib \<Rightarrow> ClientIds \<Rightarrow> bytes
     \<Rightarrow> 'p \<Rightarrow> Message \<Rightarrow> ('r, 'w, 'z) Connection \<times> relay_state
     \<Rightarrow> ((BlockHash \<times> u32 \<times> Hash) flow \<times> ('r, 'w, 'z) Connection \<times> relay_state) option" where
  "relay_on_message pf L S ids storage_key now msg s =
     (case s of (c, g, warp_sync_done) \<Rightarrow>
      case msg of
        MNotification protocol_id res \<Rightarrow>
          (if protocol_id = block_announce_id ids then
             (case res of
                SrOpened \<Rightarrow> client_request pf now (warp_sync_id ids) (finalized_hash g) s
              | SrClosed \<Rightarrow> Some (FlBail ClSubscriptionClosed, s)
              | SrError e \<Rightarrow> Some (FlBail (ClSubscriptionError e), s)
              | SrValue _ \<Rightarrow> Some (FlContinue, s))
           else Some (FlContinue, s))
      | MResponse _ protocol_id res \<Rightarrow>
          (if protocol_id = warp_sync_id ids then
             (case res of
                RsValue bs \<Rightarrow>
                  (case update_with_warp_sync_response L bs g of
                     (Inl e, g') \<Rightarrow> Some (FlBail (ClWarp e), c, g', warp_sync_done)
                   | (Inr False, g') \<Rightarrow>
                       client_request pf now (warp_sync_id ids) (finalized_hash g') (c, g', warp_sync_done)
                   | (Inr True, g') \<Rightarrow>
                       client_request pf now (state_id ids)
                         (encode_state_request (finalized_hash g') storage_key) (c, g', True))
              | RsError e \<Rightarrow> Some (FlBail (ClRequest e), s)
              | RsCancelled \<Rightarrow> Some (FlContinue, s))
           else if protocol_id = state_id ids then
             (case res of
                RsValue bs \<Rightarrow>
                  (case verify_state_proof S bs (finalized_state_root g) storage_key of
                     Inl e \<Rightarrow> Some (FlBail e, s)
                   | Inr v \<Rightarrow>
                       (case decode_byte_vec S v of
                          Inl e \<Rightarrow> Some (FlBail (ClHeadData e), s)
                        | Inr head_data \<Rightarrow>
                            (case decode_header S head_data of
                               Inl e \<Rightarrow> Some (FlBail (ClHeader e), s)
                             | Inr h \<Rightarrow> Some (FlReturn (header_hash L h, hd_number h, state_root h), s))))
              | RsError e \<Rightarrow> Some (FlBail (ClRequest e), s)
              | RsCancelled \<Rightarrow> Some (FlContinue, s))
           else Some (FlContinue, s))
      | MRequest _ _ _ \<Rightarrow> Some (FlContinue, s))"

section \<open>Reading the parachain's storage\<close>

text \<open>
  The loops of \<open>fetch_assethub_account_info\<close> and \<open>fetch_assethub_timestamp\<close> differ in the key and in
  how the value is decoded.
\<close>

definition fetch_on_message ::
  "('p, 'z) PlatformT \<Rightarrow> 'q StateLib \<Rightarrow> SubscriptionProtocolId \<times> RequestProtocolId \<Rightarrow> (bytes \<Rightarrow> client_error + 'a) \<Rightarrow> bytes \<Rightarrow> BlockHash \<Rightarrow> Hash
     \<Rightarrow> 'p \<Rightarrow> Message \<Rightarrow> ('r, 'w, 'z) Connection \<times> unit
     \<Rightarrow> ('a flow \<times> ('r, 'w, 'z) Connection \<times> unit) option" where
  "fetch_on_message pf S ids decode_value key head_hash root now msg s =
     (case msg of
        MNotification protocol_id res \<Rightarrow>
          (if protocol_id = fst ids then
             (case res of
                SrOpened \<Rightarrow> client_request pf now (snd ids) (encode_state_request head_hash key) s
              | SrClosed \<Rightarrow> Some (FlBail ClSubscriptionClosed, s)
              | SrError e \<Rightarrow> Some (FlBail (ClSubscriptionError e), s)
              | SrValue _ \<Rightarrow> Some (FlContinue, s))
           else Some (FlContinue, s))
      | MResponse _ protocol_id res \<Rightarrow>
          (if protocol_id = snd ids then
             (case res of
                RsValue bs \<Rightarrow>
                  (case verify_state_proof S bs root key of
                     Inl e \<Rightarrow> Some (FlBail e, s)
                   | Inr v \<Rightarrow>
                       (case decode_value v of
                          Inl e \<Rightarrow> Some (FlBail e, s)
                        | Inr a \<Rightarrow> Some (FlReturn a, s)))
              | RsError e \<Rightarrow> Some (FlBail (ClRequest e), s)
              | RsCancelled \<Rightarrow> Some (FlContinue, s))
           else Some (FlContinue, s))
      | MRequest _ _ _ \<Rightarrow> Some (FlContinue, s))"

definition account_value :: "'q StateLib \<Rightarrow> bytes \<Rightarrow> client_error + AccountInfo" where
  "account_value S v =
     (case decode_account_info S v of
        Inl e \<Rightarrow> Inl (ClAccountInfo e)
      | Inr (info, cursor) \<Rightarrow> if cursor \<noteq> [] then Inl (ClLeftover (length cursor)) else Inr info)"

definition account_on_message where
  "account_on_message pf S ids account_id =
     fetch_on_message pf S ids (account_value S) (system_account_key S account_id)"

definition timestamp_value :: "'q StateLib \<Rightarrow> bytes \<Rightarrow> client_error + u64" where
  "timestamp_value S v = (case decode_u64 S v of Inl e \<Rightarrow> Inl (ClTimestamp e) | Inr t \<Rightarrow> Inr t)"

definition timestamp_on_message where
  "timestamp_on_message pf S ids = fetch_on_message pf S ids (timestamp_value S) (timestamp_now_key S)"

section \<open>Reconnecting\<close>

text \<open>
  The outer loop of the examples: \<open>bootnode_n\<close> counts the attempts, \<open>x\<close> is what survives an attempt
  and \<open>start x\<close> what a new one begins with. A connection that fails to come up and an attempt that
  ends with an error are retried with the next node; a refused \<open>subscribe\<close> ends the function. The
  connection of an attempt is arbitrary, and between two polls the transport and the timers may
  do anything.
\<close>

datatype ('c, 'x, 'a) client =
    ClConnecting nat 'x
  | ClRunning nat "nat option" 'c 'x
  | ClReturned "client_error + 'a"

inductive client_step ::
  "('p, 'z) PlatformT \<Rightarrow> 'r read_op \<Rightarrow> 'w write_op \<Rightarrow> (bytes \<Rightarrow> nat) \<Rightarrow> SubscriptionProtocolId \<Rightarrow> ('x \<Rightarrow> 'x)
     \<Rightarrow> ('p \<Rightarrow> Message \<Rightarrow> ('r, 'w, 'z) Connection \<times> 'x \<Rightarrow> ('a flow \<times> ('r, 'w, 'z) Connection \<times> 'x) option)
     \<Rightarrow> (('r, 'w, 'z) Connection, 'x, 'a) client \<Rightarrow> (('r, 'w, 'z) Connection, 'x, 'a) client \<Rightarrow> bool"
  for pf rd wr sl announce start handler where
  cl_connect_failed:
    "client_step pf rd wr sl announce start handler (ClConnecting b x) (ClConnecting (Suc b) x)"
| cl_connected: "conn_subscribe announce c = Some (Inr (), c') \<Longrightarrow>
    client_step pf rd wr sl announce start handler (ClConnecting b x) (ClRunning (Suc b) None c' (start x))"
| cl_refused: "conn_subscribe announce (c :: ('r, 'w, 'z) Connection) = Some (Inl e, c') \<Longrightarrow>
    client_step pf rd wr sl announce start handler (ClConnecting b x) (ClReturned (Inl (ClConnection e)))"
| cl_pending: "client_poll pf clk rd wr sl fuel k n handler m fut (c, x) = Done (Pending, fut', c', x') \<Longrightarrow>
    client_step pf rd wr sl announce start handler (ClRunning b fut c x) (ClRunning b fut' c' x')"
| cl_finished: "client_poll pf clk rd wr sl fuel k n handler m fut (c, x) = Done (Ready (Inr a), fut', c', x') \<Longrightarrow>
    client_step pf rd wr sl announce start handler (ClRunning b fut c x) (ClReturned (Inr a))"
| cl_failed: "client_poll pf clk rd wr sl fuel k n handler m fut (c, x) = Done (Ready (Inl e), fut', c', x') \<Longrightarrow>
    client_step pf rd wr sl announce start handler (ClRunning b fut c x) (ClConnecting b x')"
| cl_wake: "client_step pf rd wr sl announce start handler (ClRunning b fut c x) (ClRunning b fut (conn_wake j c) x)"
| cl_transport:
    "client_step pf rd wr sl announce start handler (ClRunning b fut c x) (ClRunning b fut (conn_set_reader r c) x)"

text \<open>
  The loops of \<open>learn_assethub_head\<close>, \<open>fetch_assethub_account_info\<close> and \<open>fetch_assethub_timestamp\<close>, each as
  the results of its runs.
\<close>

definition learn_loop where
  "learn_loop pf rd wr sl L S ids para_id g0 result \<longleftrightarrow>
     (client_step pf rd wr sl (block_announce_id ids) (\<lambda>(g, _). (g, False))
        (relay_on_message pf L S ids (paras_heads_key S para_id)))\<^sup>*\<^sup>*
       (ClConnecting 0 (g0, False)) (ClReturned result)"

definition account_loop where
  "account_loop pf rd wr sl S ids account_id head_hash root result \<longleftrightarrow>
     (client_step pf rd wr sl (fst ids) (\<lambda>u. u) (account_on_message pf S ids account_id head_hash root))\<^sup>*\<^sup>*
       (ClConnecting 0 ()) (ClReturned result)"

definition timestamp_loop where
  "timestamp_loop pf rd wr sl S ids head_hash root result \<longleftrightarrow>
     (client_step pf rd wr sl (fst ids) (\<lambda>u. u) (timestamp_on_message pf S ids head_hash root))\<^sup>*\<^sup>*
       (ClConnecting 0 ()) (ClReturned result)"

section \<open>The warp sync demo\<close>

text \<open>
  The \<open>match\<close> in \<open>main\<close> of \<open>warp-sync\<close>. An error of a warp sync request is the \<open>break\<close> that makes it
  reconnect; which errors do, and which end the program, is \<open>demo_retries\<close>.
\<close>

definition demo_on_message ::
  "('p, 'z) PlatformT \<Rightarrow> 'k WarpLib \<Rightarrow> SubscriptionProtocolId \<times> RequestProtocolId \<Rightarrow> 'p \<Rightarrow> Message
     \<Rightarrow> ('r, 'w, 'z) Connection \<times> GrandpaState
     \<Rightarrow> (GrandpaState flow \<times> ('r, 'w, 'z) Connection \<times> GrandpaState) option" where
  "demo_on_message pf L ids now msg s =
     (case msg of
        MNotification protocol_id res \<Rightarrow>
          (if protocol_id = fst ids then
             (case res of
                SrOpened \<Rightarrow> client_request pf now (snd ids) (finalized_hash (snd s)) s
              | SrClosed \<Rightarrow> Some (FlBail ClSubscriptionClosed, s)
              | SrError e \<Rightarrow> Some (FlBail (ClSubscriptionError e), s)
              | SrValue _ \<Rightarrow> Some (FlContinue, s))
           else Some (FlContinue, s))
      | MResponse _ protocol_id res \<Rightarrow>
          (if protocol_id = snd ids then
             (case res of
                RsValue bs \<Rightarrow>
                  (case update_with_warp_sync_response L bs (snd s) of
                     (Inl e, g) \<Rightarrow> Some (FlBail (ClWarp e), fst s, g)
                   | (Inr True, g) \<Rightarrow> Some (FlReturn g, fst s, g)
                   | (Inr False, g) \<Rightarrow> client_request pf now (snd ids) (finalized_hash g) (fst s, g))
              | RsError e \<Rightarrow> Some (FlBail (ClRequest e), s)
              | RsCancelled \<Rightarrow> Some (FlContinue, s))
           else Some (FlContinue, s))
      | MRequest _ _ _ \<Rightarrow> Some (FlContinue, s))"

fun demo_retries :: "client_error \<Rightarrow> bool" where
  "demo_retries (ClRequest _) = True"
| "demo_retries ClEnded = True"
| "demo_retries _ = False"

end
