(* ===== verification/LightClientTrust.thy ===== *)
theory LightClientTrust
  imports LightClient
begin

text \<open>
  What a light client's answer rests on: every value it prints is in a storage whose root comes, by
  a proof, from a block that a chain of trust from the checkpoint finalised. The loops share one
  argument, the locale \<open>message_handler\<close>; the addresses and amounts of the balance example are
  at the end.
\<close>

section \<open>Handlers\<close>

text \<open>A handler that keeps what survives an attempt in \<open>keeps\<close> and only returns what is \<open>good\<close>.\<close>

locale message_handler =
  fixes handler :: "'p \<Rightarrow> Message \<Rightarrow> ('r, 'w, 'z) Connection \<times> 'x
      \<Rightarrow> ('a flow \<times> ('r, 'w, 'z) Connection \<times> 'x) option"
    and start :: "'x \<Rightarrow> 'x"
    and keeps :: "'x \<Rightarrow> bool"
    and good :: "'a \<Rightarrow> bool"
  assumes started: "keeps x \<Longrightarrow> keeps (start x)"
    and handled: "handler now msg (c, x) = Some (f, c', x') \<Longrightarrow> keeps x \<Longrightarrow> keeps x'"
    and returned: "handler now msg (c, x) = Some (FlReturn a, c', x') \<Longrightarrow> keeps x \<Longrightarrow> good a"
begin

lemma poll_handled:
  "client_poll pf clk rd wr sl fuel k n handler m fut s = Done (p, fut', c', x') \<Longrightarrow> keeps (snd s) \<Longrightarrow>
   keeps x' \<and> (\<forall>a. p = Ready (Inr a) \<longrightarrow> good a)"
proof (induction m arbitrary: fut s)
  case 0
  then show ?case by (cases s) simp
next
  case (Suc m)
  obtain c x where s: "s = (c, x)" by (cases s)
  note run = Suc.prems(1) [unfolded s]
  have k: "keeps x" using Suc.prems(2) s by simp
  show ?case
  proof (cases "conn_next pf (clk m) rd wr sl fuel k n fut c")
    case (Done out)
    obtain q fut1 c1 where out: "out = (q, fut1, c1)" by (cases out)
    show ?thesis
    proof (cases "\<exists>msg. q = Ready (Some (Inr msg))")
      case False
      with run Done out k show ?thesis by (auto split: poll.splits option.splits sum.splits)
    next
      case True
      then obtain msg where q: "q = Ready (Some (Inr msg))" by blast
      show ?thesis
      proof (cases "handler (clk m 0) msg (c1, x)")
        case None
        with run Done out q show ?thesis by simp
      next
        case (Some fs)
        obtain f c2 x2 where fs: "fs = (f, c2, x2)" by (cases fs)
        have k2: "keeps x2" using handled Some fs k by blast
        show ?thesis
        proof (cases f)
          case FlContinue
          with Suc.IH [of None "(c2, x2)"] run Done out q Some fs k2 show ?thesis by simp
        next
          case (FlReturn a)
          with returned [of "clk m 0" msg c1 x a c2 x2] run Done out q Some fs k2 k show ?thesis by auto
        next
          case (FlBail e)
          with run Done out q Some fs k2 show ?thesis by auto
        qed
      qed
    qed
  qed (use run in simp_all)
qed

fun client_ok :: "(('r, 'w, 'z) Connection, 'x, 'a) client \<Rightarrow> bool" where
  "client_ok (ClConnecting b x) = keeps x"
| "client_ok (ClRunning b fut c x) = keeps x"
| "client_ok (ClReturned r) = (\<forall>a. r = Inr a \<longrightarrow> good a)"

lemma step_handled: "client_step pf rd wr sl announce start handler s t \<Longrightarrow> client_ok s \<Longrightarrow> client_ok t"
  by (induction rule: client_step.induct) (auto intro: started dest!: poll_handled)

lemma run_handled:
  "(client_step pf rd wr sl announce start handler)\<^sup>*\<^sup>* s t \<Longrightarrow> client_ok s \<Longrightarrow> client_ok t"
  by (induction rule: rtranclp_induct) (auto dest: step_handled)

lemma result_good:
  "(client_step pf rd wr sl announce start handler)\<^sup>*\<^sup>* (ClConnecting b x) (ClReturned (Inr a)) \<Longrightarrow> keeps x \<Longrightarrow> good a"
  using run_handled [of pf rd wr sl announce "ClConnecting b x" "ClReturned (Inr a)"] by simp

end

section \<open>Protocol identifiers\<close>

text \<open>The \<open>match\<close> tells the protocols of the relay client apart, and each is served by its name.\<close>

lemma relay_config_ids:
  assumes "relay_config S genesis n0 = (ids, n, cfg)" and "n0 + 4 \<le> usize_max"
  shows "block_announce_id ids \<noteq> grandpa_id ids" "warp_sync_id ids \<noteq> state_id ids"
    "length (protocols cfg) = 4" "distinct (map (opaque_get \<circ> fst) (protocols cfg))"
  using assms by (auto simp: relay_config_def notification_config_def configured_simps subscription_id_from_def
      request_id_from_def mod_less)

section \<open>The relay chain\<close>

text \<open>
  While the weights are bounded, the GRANDPA state of the client stays on a chain of trust from \<open>g0\<close>,
  and the head it returns was read by a proof against a state root on that chain.
\<close>

definition on_chain :: "'k WarpLib \<Rightarrow> GrandpaState \<Rightarrow> relay_state \<Rightarrow> bool" where
  "on_chain L g0 x \<longleftrightarrow> (bounded_weights L g0 \<longrightarrow> (\<exists>hs. trusted_chain L g0 hs (fst x)))"

definition head_proven ::
  "'k WarpLib \<Rightarrow> 'q StateLib \<Rightarrow> bytes \<Rightarrow> GrandpaState \<Rightarrow> BlockHash \<times> u32 \<times> Hash \<Rightarrow> bool" where
  "head_proven L S key g0 a \<longleftrightarrow> (bounded_weights L g0 \<longrightarrow>
     (\<exists>hs g bs v head_data header. trusted_chain L g0 hs g \<and>
        verify_state_proof S bs (finalized_state_root g) key = Inr v \<and>
        decode_byte_vec S v = Inr head_data \<and> decode_header S head_data = Inr header \<and>
        a = (header_hash L header, hd_number header, state_root header)))"

lemma client_request_keeps: "client_request pf now pid req s = Some (f, c', x') \<Longrightarrow> x' = snd s \<and> (\<forall>a. f \<noteq> FlReturn a)"
  by (auto simp: client_request_def split: option.splits sum.splits)

lemma on_chain_update:
  assumes "on_chain L g0 (g, d)" and "update_with_warp_sync_response L bs g = (r, g')"
  shows "on_chain L g0 (g', d')"
  unfolding on_chain_def fst_conv
proof
  assume bw: "bounded_weights L g0"
  then obtain hs where hs: "trusted_chain L g0 hs g" using assms(1) by (auto simp: on_chain_def)
  from update_trusted [OF bounded_weights_chain [OF bw hs] assms(2)]
  show "\<exists>hs. trusted_chain L g0 hs g'" using trusted_chain_append [OF hs] by blast
qed

lemma relay_keeps:
  assumes "relay_on_message pf L S ids key now msg (c, x) = Some (f, c', x')" and "on_chain L g0 x"
  shows "on_chain L g0 x'"
proof -
  obtain g d where x: "x = (g, d)" by (cases x)
  have ch: "on_chain L g0 (g, d')" for d' using assms(2) x by (simp add: on_chain_def)
  show ?thesis
    using assms(1) ch on_chain_update [OF assms(2) [unfolded x]] unfolding relay_on_message_def x
    by (auto split: Message.splits SubscriptionResponse.splits RequestResponse.splits if_splits sum.splits
        prod.splits bool.splits dest!: client_request_keeps)
qed

lemma relay_returns:
  assumes "relay_on_message pf L S ids key now msg (c, x) = Some (FlReturn a, c', x')" and "on_chain L g0 x"
  shows "head_proven L S key g0 a"
proof -
  obtain g d where x: "x = (g, d)" by (cases x)
  have "\<exists>bs v head_data header. verify_state_proof S bs (finalized_state_root g) key = Inr v \<and>
      decode_byte_vec S v = Inr head_data \<and> decode_header S head_data = Inr header \<and>
      a = (header_hash L header, hd_number header, state_root header)"
    using assms(1) unfolding relay_on_message_def x
    by (auto split: Message.splits SubscriptionResponse.splits RequestResponse.splits if_splits sum.splits
        prod.splits bool.splits dest!: client_request_keeps)
  with assms(2) show ?thesis unfolding head_proven_def on_chain_def x by fastforce
qed

interpretation relay: message_handler "relay_on_message pf L S ids key" "\<lambda>(g, _). (g, False)"
  "on_chain L g0" "head_proven L S key g0"
proof unfold_locales
  show "on_chain L g0 (case x of (g, _) \<Rightarrow> (g, False))" if "on_chain L g0 x" for x
    using that by (cases x) (simp add: on_chain_def)
qed (rule relay_keeps relay_returns; assumption)+

section \<open>The parachain\<close>

definition value_proven :: "'q StateLib \<Rightarrow> (bytes \<Rightarrow> client_error + 'a) \<Rightarrow> bytes \<Rightarrow> Hash \<Rightarrow> 'a \<Rightarrow> bool" where
  "value_proven S decode_value key root a \<longleftrightarrow>
     (\<exists>bs v. verify_state_proof S bs root key = Inr v \<and> decode_value v = Inr a)"

lemma fetch_returns:
  "fetch_on_message pf S ids decode_value key head_hash root now msg s = Some (FlReturn a, s') \<Longrightarrow>
   value_proven S decode_value key root a"
  unfolding fetch_on_message_def value_proven_def
  by (cases s') (auto split: Message.splits SubscriptionResponse.splits RequestResponse.splits if_splits sum.splits
      dest!: client_request_keeps)

interpretation fetch: message_handler "fetch_on_message pf S ids decode_value key head_hash root" "\<lambda>u. u"
  "\<lambda>_. True" "value_proven S decode_value key root"
  by unfold_locales (auto dest: fetch_returns)

section \<open>Proofs\<close>

text \<open>
  What \<open>read_proof_check\<close> promises: a value it reports for a key is the value of that key in the
  storage with the given root.
\<close>

definition trie_sound :: "'q StateLib \<Rightarrow> (Hash \<Rightarrow> bytes \<rightharpoonup> bytes) \<Rightarrow> bool" where
  "trie_sound S storage \<longleftrightarrow> (\<forall>root p key m v. read_proof_check S root p [key] = Inr m \<longrightarrow>
     m key = Some (Some v) \<longrightarrow> storage root key = Some v)"

lemma verified_in_storage:
  "trie_sound S storage \<Longrightarrow> verify_state_proof S bs root key = Inr v \<Longrightarrow> storage root key = Some v"
  unfolding trie_sound_def verify_state_proof_def
  by (auto split: sum.splits option.splits)

section \<open>Addresses and amounts\<close>

definition digits_value :: "string \<Rightarrow> nat" where
  "digits_value s = foldl (\<lambda>n c. n * 10 + (of_char c - 48)) 0 s"

lemma digits_value_snoc: "digits_value (s @ [c]) = digits_value s * 10 + (of_char c - 48)"
  by (simp add: digits_value_def)

lemma digits_value_dec: "digits_value (dec_digits n) = n"
proof (induction n rule: dec_digits.induct)
  case (1 n)
  show ?case
  proof (cases "n < 10")
    case True
    then show ?thesis by (simp add: dec_digits.simps [of n] digits_value_def)
  next
    case False
    with 1 show ?thesis by (simp add: dec_digits.simps [of n] digits_value_snoc)
  qed
qed

lemma length_dec_digits: "n < 10 ^ k \<Longrightarrow> 0 < k \<Longrightarrow> length (dec_digits n) \<le> k"
proof (induction n arbitrary: k rule: dec_digits.induct)
  case (1 n)
  show ?case
  proof (cases "n < 10")
    case True
    with 1(3) show ?thesis by (simp add: dec_digits.simps [of n])
  next
    case False
    then obtain j where k: "k = Suc j" "0 < j" using 1(2,3) by (cases k; cases "k - 1") auto
    then have "n div 10 < 10 ^ j" using 1(2) by (simp add: less_mult_imp_div_less mult.commute)
    with 1(1) [OF False this k(2)] False k show ?thesis by (simp add: dec_digits.simps [of n])
  qed
qed

lemma digits_value_pad: "digits_value (pad_zeros w s) = digits_value s"
proof -
  have "foldl (\<lambda>n c. n * 10 + (of_char c - 48)) 0 (replicate k CHR ''0'') = (0 :: nat)" for k
    by (induction k) simp_all
  then show ?thesis by (simp add: pad_zeros_def digits_value_def)
qed

text \<open>The printed amount is exact: ten decimals, and nothing is lost for any 128-bit amount.\<close>

lemma format_dot_exact:
  "\<exists>whole frac. format_dot plancks = whole @ ''.'' @ frac @ '' DOT'' \<and> length frac = 10 \<and>
     digits_value whole * 10 ^ 10 + digits_value frac = unat plancks"
proof -
  let ?w = "plancks div 10000000000" and ?f = "plancks mod 10000000000"
  have f: "unat ?f = unat plancks mod 10 ^ 10" by (simp add: unat_mod_distrib)
  have w: "unat ?w = unat plancks div 10 ^ 10" by (simp add: unat_div_distrib)
  have "length (dec_digits (unat ?f)) \<le> 10" by (rule length_dec_digits) (simp_all add: f)
  then have "length (pad_zeros 10 (dec_digits (unat ?f))) = 10" by (simp add: pad_zeros_def)
  moreover have "digits_value (dec_digits (unat ?w)) * 10 ^ 10 + digits_value (pad_zeros 10 (dec_digits (unat ?f))) =
      unat plancks"
    unfolding digits_value_pad digits_value_dec f w by (rule div_mult_mod_eq)
  ultimately show ?thesis unfolding format_dot_def Let_def by blast
qed

lemma ss58_parts:
  assumes "length decoded = 35"
  shows "decoded = hd decoded # take 32 (drop 1 decoded) @ drop 33 decoded"
    "take 33 decoded = hd decoded # take 32 (drop 1 decoded)"
  using assms by (cases decoded; simp add: take_Cons' drop_Cons')+

section \<open>A small run\<close>

text \<open>
  A library in which every proof checks: the storage with root 0 holds the head of a parachain with
  state root 7, whose storage holds an account.
\<close>

definition toy_storage :: "Hash \<Rightarrow> bytes \<rightharpoonup> bytes" where
  "toy_storage root key = (if root = [0] then Some [1] else if root = [7] then Some [2] else None)"

definition toy_header :: BlockHeader where
  "toy_header = \<lparr>parent_hash = [], hd_number = 9, state_root = [7], extrinsics_root = [], digest_logs = []\<rparr>"

definition toy_account :: AccountInfo where
  "toy_account = \<lparr>ai_nonce = 3, ai_consumers = 0, ai_providers = 1, ai_sufficients = 0,
     ai_data = \<lparr>ad_free = 5, ad_reserved = 0, ad_frozen = 0, ad_flags = 0\<rparr>\<rparr>"

definition toy_state_lib :: "bytes list StateLib" where
  "toy_state_lib = \<lparr>decode_nodes = \<lambda>b. Inr [b], to_storage_proof = \<lambda>nodes _. Inr nodes,
     read_proof_check = \<lambda>root _ _. Inr (\<lambda>k. Some (toy_storage root k)),
     decode_byte_vec = Inr, decode_header = \<lambda>_. Inr toy_header,
     decode_account_info = \<lambda>_. Inr (toy_account, []), decode_u64 = \<lambda>_. Inr 0, encode_u32 = \<lambda>_. [],
     encode_announce_handshake = \<lambda>_ _ _ _. [], lib_hex_decode = \<lambda>_. Inr [], lib_hex_encode = \<lambda>_. [],
     bs58_decode = \<lambda>_. Inr [], twox_64 = \<lambda>b. b, twox_128 = \<lambda>b. b, lib_blake2_128 = \<lambda>b. b,
     lib_blake2b_512 = \<lambda>b. b\<rparr>"

definition toy_ids :: ClientIds where
  "toy_ids = \<lparr>block_announce_id = SubscriptionProtocolId 1, grandpa_id = SubscriptionProtocolId 2,
     warp_sync_id = RequestProtocolId 5, state_id = RequestProtocolId 0\<rparr>"

definition toy_answer :: Message where
  "toy_answer = MResponse (RequestId 1) (RequestProtocolId 0) (RsValue [18, 1, 3])"

lemma toy_trie_sound: "trie_sound toy_state_lib toy_storage"
  by (auto simp: trie_sound_def toy_state_lib_def)

lemma toy_proof: "verify_state_proof toy_state_lib [18, 1, 3] root key =
    (case toy_storage root key of Some v \<Rightarrow> Inr v | None \<Rightarrow> Inl ClMissingKey)"
proof -
  have "extract_state_response_proof [18, 1, 3] = Inr [3]" by code_simp
  then show ?thesis by (simp add: verify_state_proof_def toy_state_lib_def split: option.split)
qed

text \<open>An attempt whose connection holds an answer returns as soon as the handler does.\<close>

lemma toy_attempt:
  assumes handler: "\<And>c. handler (0 :: nat) toy_answer (c, start x) = Some (FlReturn a, c, start x)"
  shows "(client_step (clock_platform False) mock_read_exact mock_write_all (\<lambda>_. 0) (block_announce_id toy_ids) start handler)\<^sup>*\<^sup>*
      (ClConnecting 0 x) (ClReturned (Inr a))"
proof -
  let ?c = "demo_connection\<lparr>next_buf := [toy_answer]\<rparr>" and ?pf = "clock_platform False"
  let ?step = "client_step ?pf mock_read_exact mock_write_all (\<lambda>_. 0) (block_announce_id toy_ids) start handler"
  let ?m = "cn_yamux demo_connection"
  have n: "nid ?m = 1"
    by (simp add: nid_def demo_connection_def ym_new_def yamux_new_def sid_first_def)
  obtain m' where "ym_open_stream [bytes_of ''/sub''] usize_max ?m = Some (Inr (nid ?m), m')"
  proof (rule open_stream_ok [of ?m 3 "bytes_of ''/sub''" "[]" usize_max])
    show "sid_increment (nid ?m) = Some 3" by (simp add: n sid_increment_def)
    show "get_stream (ys_shared (ym_inner ?m)) (nid ?m) = None"
      by (simp add: demo_connection_def ym_new_def yamux_new_def SharedState_new_def get_stream_def)
  qed
  then obtain c where c: "conn_subscribe (block_announce_id toy_ids) ?c = Some (Inr (), c)"
      "next_buf c = [toy_answer]" "\<not> cn_finished c"
    by (simp add: conn_subscribe_def demo_connection_def toy_ids_def SubscriptionProtocol_new_def)
  have "client_poll ?pf (\<lambda>_ _. 0) mock_read_exact mock_write_all (\<lambda>_. 0) 0 0 (Suc 0) handler (Suc 0) None (c, start x) =
      Done (Ready (Inr a), None, c\<lparr>next_buf := []\<rparr>, start x)"
    using c handler by (simp add: conn_next_def conn_top_def)
  then have "?step (ClRunning (Suc 0) None c (start x)) (ClReturned (Inr a))" by (rule cl_finished)
  moreover have "?step (ClConnecting 0 x) (ClRunning (Suc 0) None c (start x))" by (rule cl_connected [OF c(1)])
  ultimately show ?thesis by (rule converse_rtranclp_into_rtranclp [rotated, OF r_into_rtranclp])
qed

section \<open>Properties\<close>



end
