(* ===== verification/Futures.thy ===== *)
theory Futures
  imports AsyncStream
begin

text \<open>
  The futures of \<open>async\<close> functions whose only effects are reads and writes of byte streams, as
  resumptions: a future has completed, or it awaits one operation of a stream and holds what it
  will do with the answer. Polling it (\<open>fut_poll\<close>) answers operations until one is pending and
  returns the future as it is suspended there. What a suspended operation of a stream has done so
  far belongs to the state of that stream.

  The locale \<open>resumable\<close> is the contract of a reader that loses nothing while it is pending:
  bytes may arrive at any time, and the outcome only depends on which bytes arrived. It carries
  over to every future (\<open>fut_resume\<close>, \<open>fut_ready\<close>).
\<close>

section \<open>Futures\<close>

text \<open>\<open>Aborted\<close> is a panic, or a loop that exceeds the bound it was given.\<close>

datatype 'a future =
    Complete 'a
  | Aborted
  | AwaitRead nat "async_read_error + bytes \<Rightarrow> 'a future"
  | AwaitWrite bytes "async_write_error + unit \<Rightarrow> 'a future"

primrec fut_bind :: "'a future \<Rightarrow> ('a \<Rightarrow> 'b future) \<Rightarrow> 'b future" where
  "fut_bind (Complete a) k = k a"
| "fut_bind Aborted k = Aborted"
| "fut_bind (AwaitRead n c) k = AwaitRead n (\<lambda>x. fut_bind (c x) k)"
| "fut_bind (AwaitWrite d c) k = AwaitWrite d (\<lambda>x. fut_bind (c x) k)"

text \<open>\<open>.await?\<close>: go on with the value, or complete with the error.\<close>

definition fut_try :: "('e + 'a) future \<Rightarrow> ('e \<Rightarrow> 'b) \<Rightarrow> ('a \<Rightarrow> 'b future) \<Rightarrow> 'b future" where
  "fut_try f err k = fut_bind f (\<lambda>x. case x of Inl e \<Rightarrow> Complete (err e) | Inr a \<Rightarrow> k a)"

definition fut_of_option :: "'a option \<Rightarrow> ('a \<Rightarrow> 'b future) \<Rightarrow> 'b future" where
  "fut_of_option x k = (case x of None \<Rightarrow> Aborted | Some a \<Rightarrow> k a)"

primrec fut_poll ::
  "'r read_op \<Rightarrow> 'w write_op \<Rightarrow> 'a future \<Rightarrow> 'r \<Rightarrow> 'w \<Rightarrow> ('a poll \<times> 'a future \<times> 'r \<times> 'w) option" where
  "fut_poll rd wr (Complete a) = (\<lambda>r w. Some (Ready a, Complete a, r, w))"
| "fut_poll rd wr Aborted = (\<lambda>r w. None)"
| "fut_poll rd wr (AwaitRead n k) = (\<lambda>r w.
     case rd r n of
       (Pending, r') \<Rightarrow> Some (Pending, AwaitRead n k, r', w)
     | (Ready x, r') \<Rightarrow> fut_poll rd wr (k x) r' w)"
| "fut_poll rd wr (AwaitWrite d k) = (\<lambda>r w.
     case wr w d of
       (Pending, w') \<Rightarrow> Some (Pending, AwaitWrite d k, r, w')
     | (Ready x, w') \<Rightarrow> fut_poll rd wr (k x) r w')"

text \<open>Every value the future can complete with satisfies \<open>P\<close>, whatever the streams answer.\<close>

primrec fut_all :: "('a \<Rightarrow> bool) \<Rightarrow> 'a future \<Rightarrow> bool" where
  "fut_all P (Complete a) = P a"
| "fut_all P Aborted = True"
| "fut_all P (AwaitRead n k) = (\<forall>x. fut_all P (k x))"
| "fut_all P (AwaitWrite d k) = (\<forall>x. fut_all P (k x))"

section \<open>Laws\<close>

lemma fut_induct [case_names Complete Aborted AwaitRead AwaitWrite]:
  assumes "\<And>a. P (Complete a)" and "P Aborted"
    and "\<And>n k. (\<And>x. P (k x)) \<Longrightarrow> P (AwaitRead n k)" and "\<And>d k. (\<And>x. P (k x)) \<Longrightarrow> P (AwaitWrite d k)"
  shows "P f"
  by (induction f) (auto intro: assms)

lemma fut_bind_assoc: "fut_bind (fut_bind f g) h = fut_bind f (\<lambda>x. fut_bind (g x) h)"
  by (induction f rule: fut_induct) simp_all

lemma fut_bind_of_option [simp]: "fut_bind (fut_of_option x k) h = fut_of_option x (\<lambda>a. fut_bind (k a) h)"
  by (cases x) (simp_all add: fut_of_option_def)

lemma fut_bind_try: "fut_bind (fut_try f err k) h =
    fut_bind f (\<lambda>x. case x of Inl e \<Rightarrow> h (err e) | Inr a \<Rightarrow> fut_bind (k a) h)"
  by (simp add: fut_try_def fut_bind_assoc) (rule arg_cong [where f = "fut_bind f"], auto split: sum.split)

lemma fut_poll_bind:
  "fut_poll rd wr (fut_bind f k) r w =
     (case fut_poll rd wr f r w of
        None \<Rightarrow> None
      | Some (Pending, f', r', w') \<Rightarrow> Some (Pending, fut_bind f' k, r', w')
      | Some (Ready a, _, r', w') \<Rightarrow> fut_poll rd wr (k a) r' w')"
  by (induction f arbitrary: r w rule: fut_induct) (auto split: prod.split poll.split)

lemma fut_poll_try:
  "fut_poll rd wr (fut_try f err k) r w =
     (case fut_poll rd wr f r w of
        None \<Rightarrow> None
      | Some (Pending, f', r', w') \<Rightarrow> Some (Pending, fut_try f' err k, r', w')
      | Some (Ready (Inl e), _, r', w') \<Rightarrow> Some (Ready (err e), Complete (err e), r', w')
      | Some (Ready (Inr a), _, r', w') \<Rightarrow> fut_poll rd wr (k a) r' w')"
  by (auto simp: fut_try_def fut_poll_bind split: option.split prod.split poll.split sum.split)

lemma fut_all_bind: "fut_all P f \<Longrightarrow> (\<And>a. P a \<Longrightarrow> fut_all Q (k a)) \<Longrightarrow> fut_all Q (fut_bind f k)"
  by (induction f rule: fut_induct) simp_all

lemma fut_all_bind_any: "(\<And>a. fut_all Q (k a)) \<Longrightarrow> fut_all Q (fut_bind f k)"
  by (induction f rule: fut_induct) simp_all

lemma fut_all_try: "(\<And>e. Q (err e)) \<Longrightarrow> (\<And>a. fut_all Q (k a)) \<Longrightarrow> fut_all Q (fut_try f err k)"
  unfolding fut_try_def by (rule fut_all_bind_any) (simp split: sum.split)

lemma fut_all_of_option: "(\<And>a. x = Some a \<Longrightarrow> fut_all Q (k a)) \<Longrightarrow> fut_all Q (fut_of_option x k)"
  by (simp add: fut_of_option_def split: option.split)

lemma fut_poll_all:
  assumes "fut_all P f" and "fut_poll rd wr f r w = Some (p, f', r', w')"
  shows "fut_all P f' \<and> (\<forall>a. p = Ready a \<longrightarrow> P a)"
  using assms
proof (induction f arbitrary: r w rule: fut_induct)
  case (AwaitRead n k)
  then show ?case by (fastforce split: prod.splits poll.splits)
next
  case (AwaitWrite d k)
  then show ?case by (fastforce split: prod.splits poll.splits)
qed auto

lemma fut_poll_Ready: "fut_poll rd wr f r w = Some (Ready a, f', r', w') \<Longrightarrow> f' = Complete a"
  by (induction f arbitrary: r w rule: fut_induct) (auto split: prod.splits poll.splits)

section \<open>Resuming\<close>

text \<open>
  \<open>arrive bs r\<close> is the reader \<open>r\<close> after more bytes arrived. A read that was ready is not affected by
  them, and a read that was pending can go on as if it had only been started now.
\<close>

locale resumable =
  fixes rd :: "'r read_op"
    and arrive :: "bytes \<Rightarrow> 'r \<Rightarrow> 'r"
  assumes arrive_nil: "arrive [] r = r"
    and arrive_append: "arrive (xs @ ys) r = arrive ys (arrive xs r)"
    and ready_stays: "rd r n = (Ready x, r') \<Longrightarrow> rd (arrive bs r) n = (Ready x, arrive bs r')"
    and pending_resumes: "rd r n = (Pending, r') \<Longrightarrow> rd (arrive bs r') n = rd (arrive bs r) n"
begin

lemma fut_ready:
  "fut_poll rd wr f r w = Some (Ready a, f', r', w') \<Longrightarrow>
   fut_poll rd wr f (arrive bs r) w = Some (Ready a, f', arrive bs r', w')"
  by (induction f arbitrary: r w rule: fut_induct) (auto simp: ready_stays split: prod.splits poll.splits)

lemma fut_aborts: "fut_poll rd wr f r w = None \<Longrightarrow> fut_poll rd wr f (arrive bs r) w = None"
  by (induction f arbitrary: r w rule: fut_induct) (auto simp: ready_stays split: prod.splits poll.splits)

text \<open>For a writer that never suspends, a pending future goes on where it was suspended.\<close>

lemma fut_resume:
  assumes "\<And>w d. fst (wr w d) \<noteq> Pending" and "fut_poll rd wr f r w = Some (Pending, f', r', w')"
  shows "fut_poll rd wr f' (arrive bs r') w' = fut_poll rd wr f (arrive bs r) w"
  using assms(2)
proof (induction f arbitrary: r w rule: fut_induct)
  case (AwaitRead n k)
  then show ?case
    by (cases "rd r n"; cases "fst (rd r n)") (auto simp: ready_stays pending_resumes)
next
  case (AwaitWrite d k)
  then show ?case using assms(1) [of w d]
    by (cases "wr w d"; cases "fst (wr w d)") auto
qed simp_all

end

interpretation mock_res: resumable mock_read_exact mock_extend
proof unfold_locales
  fix xs ys bs and r r' :: MockStream and n x
  show "mock_extend [] r = r" by (simp add: mock_extend_def)
  show "mock_extend (xs @ ys) r = mock_extend ys (mock_extend xs r)" by (simp add: mock_extend_def)
  have drop: "mock_extend bs (s\<lparr>ms_read_buf := drop n (ms_read_buf s)\<rparr>) =
      (mock_extend bs s)\<lparr>ms_read_buf := drop n (ms_read_buf s) @ bs\<rparr>" for s
    by (rule MockStream.equality) simp_all
  show "mock_read_exact (mock_extend bs r) n = (Ready x, mock_extend bs r')"
    if "mock_read_exact r n = (Ready x, r')"
    using that by (auto simp: mock_read_exact_def drop split: if_splits)
  show "mock_read_exact (mock_extend bs r') n = mock_read_exact (mock_extend bs r) n"
    if "mock_read_exact r n = (Pending, r')"
    using that by (auto simp: mock_read_exact_def split: if_splits)
qed

end
