(* ===== verification/Handshakes.thy ===== *)
theory Handshakes
  imports Futures MultistreamDialer Noise
begin

text \<open>
  The asynchronous functions of \<open>src/layers/multistream.rs\<close> and \<open>src/layers/noise.rs\<close> as futures
  that can be suspended at each of their await points. \<open>over_noise\<close> runs a future on the encrypted
  streams: each of its reads and writes becomes the future of \<open>NoiseReadStream::read_exact\<close> or
  \<open>NoiseWriteStream::write_all\<close>. The lemmas show that one poll of each future is the run that
  \<open>MultistreamDialer\<close> and \<open>Noise\<close> describe, so that what is proved there holds of the futures.
\<close>

section \<open>Multistream negotiation\<close>

function decode_future :: "Decoder \<Rightarrow> (varint_error + u64) future" where
  "decode_future d = AwaitRead 1 (\<lambda>x. case x of
       Inl e \<Rightarrow> Complete (Inl (VStream e))
     | Inr byte \<Rightarrow>
         (case Decoder_feed d (hd byte) of
            DValue v \<Rightarrow> Complete (Inr v)
          | NeedsMoreBytes d' \<Rightarrow> decode_future d'
          | OutOfRange \<Rightarrow> Complete (Inl VOutOfRange)))"
  by pat_completeness auto
termination
  by (relation "measure (\<lambda>d. length (dbuf d) - dlen d)")
     (auto simp: Decoder_feed_def Let_def split: if_splits)

declare decode_future.simps [simp del]

definition read_msg_future :: "(dialer_error + bytes) future" where
  "read_msg_future =
     fut_try (decode_future Decoder_new) (\<lambda>e. Inl (DVarint e)) (\<lambda>len.
       if MULTISTREAM_MAX_MSG_BYTES < len then Complete (Inl (DMessageTooLarge len))
       else AwaitRead (unat len) (\<lambda>x. case x of
         Inl e \<Rightarrow> Complete (Inl (DAsyncRead e))
       | Inr buf \<Rightarrow>
           (if buf = [] \<or> last buf \<noteq> 10
            then Complete (Inl (DMessageMustEndInNewline (utf8_lossy (butlast buf))))
            else Complete (Inr (butlast buf)))))"

definition negotiate_future :: "utf8_string \<Rightarrow> (dialer_error + unit) future" where
  "negotiate_future protocol =
     fut_of_option (Option.bind (encode_msg MULTISTREAM_HEADER []) (encode_msg protocol)) (\<lambda>msgs.
     fut_try (AwaitWrite msgs Complete) (\<lambda>e. Inl (DAsyncWrite e)) (\<lambda>_.
     fut_try read_msg_future Inl (\<lambda>resp.
       if resp \<noteq> MULTISTREAM_HEADER then Complete (Inl (DBadMultiStreamHeader (utf8_lossy resp)))
       else fut_try read_msg_future Inl (\<lambda>resp.
         if resp = bytes_of ''na'' then Complete (Inl DMultistreamNotSupported)
         else if resp \<noteq> protocol then Complete (Inl (DUnexpectedResponse (utf8_lossy resp)))
         else Complete (Inr ())))))"

section \<open>The noise handshake\<close>

definition send_frame_future :: "bytes \<Rightarrow> (async_write_error + unit) future" where
  "send_frame_future data =
     (if MAX_NOISE_MSG < length data then Aborted
      else AwaitWrite (u16_to_be_bytes (of_nat (length data)) @ data) Complete)"

definition recv_frame_future :: "(async_read_error + bytes) future" where
  "recv_frame_future =
     fut_try (AwaitRead 2 Complete) Inl (\<lambda>len_buf. AwaitRead (unat (u16_from_be_bytes (len_buf ! 0) (len_buf ! 1))) Complete)"

definition send_identity_future ::
  "('h, 't) Snow \<Rightarrow> 'k Ed25519 \<Rightarrow> 'k Identity \<Rightarrow> bytes \<Rightarrow> 'h \<Rightarrow> (noise_error + 't) future" where
  "send_identity_future sn ed identity dh_public noise =
     fut_of_option (payload_to_protobuf \<lparr>nh_key = public_key_bytes ed identity,
         nh_signature = Identity_sign ed identity (STATIC_KEY_DOMAIN @ dh_public)\<rparr> (replicate MAX_NOISE_MSG 0))
       (\<lambda>(buf, len).
         case sn_write_message sn noise (take len buf) of
           Inl e \<Rightarrow> Complete (Inl (NSnow e))
         | Inr (ct, noise) \<Rightarrow>
             fut_try (send_frame_future ct) (\<lambda>e. Inl (NAsyncWrite e)) (\<lambda>_.
               case sn_into_transport_mode sn noise of
                 Inl e \<Rightarrow> Complete (Inl (NSnow e))
               | Inr t \<Rightarrow> Complete (Inr t)))"

definition handshake_future ::
  "('h, 't) Snow \<Rightarrow> 'k Ed25519 \<Rightarrow> 'k Identity \<Rightarrow> PeerId option \<Rightarrow> (noise_error + 't \<times> PeerId) future" where
  "handshake_future sn ed identity expected_peer_id =
     (case sn_build_initiator sn of
        Inl e \<Rightarrow> Complete (Inl (NSnow e))
      | Inr (dh_public, noise) \<Rightarrow>
          (case sn_write_message sn noise [] of
             Inl e \<Rightarrow> Complete (Inl (NSnow e))
           | Inr (msg1, noise) \<Rightarrow>
               fut_try (send_frame_future msg1) (\<lambda>e. Inl (NAsyncWrite e)) (\<lambda>_.
               fut_try recv_frame_future (\<lambda>e. Inl (NAsyncRead e)) (\<lambda>msg2.
               fut_of_option (check_remote sn ed expected_peer_id noise msg2) (\<lambda>x.
                 case x of
                   Inl e \<Rightarrow> Complete (Inl e)
                 | Inr (remote_peer_id, noise) \<Rightarrow>
                     fut_try (send_identity_future sn ed identity dh_public noise) Inl
                       (\<lambda>t. Complete (Inr (t, remote_peer_id))))))))"

section \<open>The encrypted streams\<close>

text \<open>The buffered plaintext and the transport state that the two halves share.\<close>

type_synonym 't noise_state = "bytes \<times> 't"

fun noise_read_future ::
  "('t \<Rightarrow> bytes \<Rightarrow> (snow_error + bytes) \<times> 't) \<Rightarrow> nat \<Rightarrow> nat \<Rightarrow> bytes \<Rightarrow> 't noise_state
     \<Rightarrow> ((async_read_error + bytes) \<times> 't noise_state) future" where
  "noise_read_future rm 0 n buf s = Aborted"
| "noise_read_future rm (Suc fuel) n buf (read_buf, t) =
     (if n \<le> length buf then Complete (Inr buf, read_buf, t)
      else if read_buf \<noteq> [] then
        (let k = min (length read_buf) (n - length buf) in
         noise_read_future rm fuel n (buf @ take k read_buf) (drop k read_buf, t))
      else fut_try recv_frame_future (\<lambda>e. (Inl e, read_buf, t)) (\<lambda>frame.
        case rm t frame of
          (Inl e, t') \<Rightarrow> Complete (Inl (AsyncReadError (OpaqueError e)), read_buf, t')
        | (Inr decrypted, t') \<Rightarrow> noise_read_future rm fuel n buf (read_buf @ decrypted, t')))"

function noise_write_future ::
  "('t \<Rightarrow> bytes \<Rightarrow> (snow_error + bytes) \<times> 't) \<Rightarrow> bytes \<Rightarrow> 't noise_state
     \<Rightarrow> ((async_write_error + unit) \<times> 't noise_state) future" where
  "noise_write_future wm data s =
     (if data = [] then Complete (Inr (), s)
      else case wm (snd s) (take MAX_PLAINTEXT data) of
        (Inl e, t) \<Rightarrow> Complete (Inl (AsyncWriteError (OpaqueError e)), fst s, t)
      | (Inr encrypted, t) \<Rightarrow>
          fut_try (send_frame_future encrypted) (\<lambda>e. (Inl e, fst s, t))
            (\<lambda>_. noise_write_future wm (drop MAX_PLAINTEXT data) (fst s, t)))"
  by pat_completeness auto
termination
  by (relation "measure (\<lambda>(wm, data, s). length data)") (auto simp: MAX_PLAINTEXT_def MAX_NOISE_MSG_def)

declare noise_write_future.simps [simp del]

text \<open>\<open>fuel\<close> bounds the rounds of the loop in one \<open>read_exact\<close>.\<close>

primrec over_noise ::
  "('t \<Rightarrow> bytes \<Rightarrow> (snow_error + bytes) \<times> 't) \<Rightarrow> ('t \<Rightarrow> bytes \<Rightarrow> (snow_error + bytes) \<times> 't) \<Rightarrow> nat
     \<Rightarrow> 'a future \<Rightarrow> 't noise_state \<Rightarrow> ('a \<times> 't noise_state) future" where
  "over_noise rm wm fuel (Complete a) = (\<lambda>s. Complete (a, s))"
| "over_noise rm wm fuel Aborted = (\<lambda>s. Aborted)"
| "over_noise rm wm fuel (AwaitRead n k) = (\<lambda>s.
     fut_bind (noise_read_future rm fuel n [] s) (\<lambda>(x, s'). over_noise rm wm fuel (k x) s'))"
| "over_noise rm wm fuel (AwaitWrite d k) = (\<lambda>s.
     fut_bind (noise_write_future wm d s) (\<lambda>(x, s'). over_noise rm wm fuel (k x) s'))"

section \<open>One poll\<close>

text \<open>What a poll shows to the outside: the outcome and the streams, not the suspended future.\<close>

definition observe :: "('a poll \<times> 'b \<times> 'r \<times> 'w) option \<Rightarrow> ('a poll \<times> 'r \<times> 'w) option" where
  "observe x = map_option (\<lambda>(p, _, r, w). (p, r, w)) x"

lemma observe_simps [simp]:
  "observe None = None" "observe (Some (p, f, r, w)) = Some (p, r, w)"
  by (simp_all add: observe_def)

text \<open>Awaiting \<open>f\<close> when one poll of \<open>f\<close> observably is \<open>run\<close>.\<close>

lemma observe_bind:
  assumes "observe (fut_poll rd wr f r w) = run"
  shows "observe (fut_poll rd wr (fut_bind f k) r w) =
    (case run of
       None \<Rightarrow> None
     | Some (Pending, r', w') \<Rightarrow> Some (Pending, r', w')
     | Some (Ready a, r', w') \<Rightarrow> observe (fut_poll rd wr (k a) r' w'))"
  using assms by (auto simp: fut_poll_bind split: option.splits prod.splits poll.splits)

lemma observe_try:
  assumes "observe (fut_poll rd wr f r w) = run"
  shows "observe (fut_poll rd wr (fut_try f err k) r w) =
    (case run of
       None \<Rightarrow> None
     | Some (Pending, r', w') \<Rightarrow> Some (Pending, r', w')
     | Some (Ready (Inl e), r', w') \<Rightarrow> Some (Ready (err e), r', w')
     | Some (Ready (Inr a), r', w') \<Rightarrow> observe (fut_poll rd wr (k a) r' w'))"
  using assms by (auto simp: fut_poll_try split: option.splits prod.splits poll.splits sum.splits)

lemma poll_write: "observe (fut_poll rd wr (AwaitWrite d Complete) r w) = (case wr w d of (p, w') \<Rightarrow> Some (p, r, w'))"
  by (auto split: prod.split poll.split)

lemma poll_read: "observe (fut_poll rd wr (AwaitRead n Complete) r w) = (case rd r n of (p, r') \<Rightarrow> Some (p, r', w))"
  by (auto split: prod.split poll.split)

lemma poll_decode:
  "observe (fut_poll rd wr (decode_future d) r w) =
     (case decode_from_stream_loop rd d r of (p, _, r') \<Rightarrow> Some (p, r', w))"
proof (induction d arbitrary: r rule: decode_future.induct)
  case (1 d)
  show ?case
    by (subst decode_future.simps, subst decode_from_stream_loop.simps)
       (auto simp: 1 split: prod.split poll.split sum.split DecoderOutput.split)
qed

lemma poll_read_msg:
  "observe (fut_poll rd wr read_msg_future r w) = (case read_msg rd r of (p, r') \<Rightarrow> Some (p, r', w))"
  unfolding read_msg_future_def observe_try [OF poll_decode] read_msg_def varint_decode_from_stream_def
  by (auto split: prod.split poll.split sum.split)

lemma poll_negotiate:
  "observe (fut_poll rd wr (negotiate_future protocol) r w) = negotiate_dialer rd wr protocol r w"
proof -
  have "observe (fut_poll rd wr (fut_try read_msg_future Inl (\<lambda>resp.
         if resp = bytes_of ''na'' then Complete (Inl DMultistreamNotSupported)
         else if resp \<noteq> protocol then Complete (Inl (DUnexpectedResponse (utf8_lossy resp)))
         else Complete (Inr ()))) r w) =
      Some (case read_msg rd r of
        (Pending, r2) \<Rightarrow> (Pending, r2, w)
      | (Ready (Inl e), r2) \<Rightarrow> (Ready (Inl e), r2, w)
      | (Ready (Inr resp), r2) \<Rightarrow>
          (if resp = bytes_of ''na'' then (Ready (Inl DMultistreamNotSupported), r2, w)
           else if resp \<noteq> protocol then (Ready (Inl (DUnexpectedResponse (utf8_lossy resp))), r2, w)
           else (Ready (Inr ()), r2, w)))" for r w
    unfolding observe_try [OF poll_read_msg] by (cases "read_msg rd r") (auto split: poll.split sum.split)
  then show ?thesis
    unfolding negotiate_future_def negotiate_dialer_def encode_msg_eq fut_of_option_def option.case Option.bind.bind_lunit
      observe_try [OF poll_write]
    by (cases "wr w (([] @ dialer_msg MULTISTREAM_HEADER) @ dialer_msg protocol)")
       (auto simp: observe_try [OF poll_read_msg] split: poll.split sum.split prod.split)
qed

lemma poll_send_frame:
  "observe (fut_poll rd wr (send_frame_future d) r w) =
     (case send_frame wr w d of None \<Rightarrow> None | Some (p, w') \<Rightarrow> Some (p, r, w'))"
  by (auto simp: send_frame_future_def send_frame_def split: prod.split poll.split)

lemma poll_recv_frame:
  "observe (fut_poll rd wr recv_frame_future r w) = (case recv_frame rd r of (p, r') \<Rightarrow> Some (p, r', w))"
  by (auto simp: recv_frame_future_def recv_frame_def observe_try [OF poll_read] split: prod.split poll.split sum.split)

lemma poll_send_identity:
  "observe (fut_poll rd wr (send_identity_future sn ed identity dh_public noise) r w) =
     (case send_identity sn ed wr identity dh_public noise w of None \<Rightarrow> None | Some (p, w') \<Rightarrow> Some (p, r, w'))"
  by (auto simp: send_identity_future_def send_identity_def fut_of_option_def Let_def
      observe_try [OF poll_send_frame] split: option.split prod.split poll.split sum.split)

lemma poll_handshake:
  "observe (fut_poll rd wr (handshake_future sn ed identity expected) r w) =
     handshake_dialer sn ed rd wr identity expected r w"
  by (auto simp: handshake_future_def handshake_dialer_def fut_of_option_def observe_try [OF poll_send_frame]
      observe_try [OF poll_recv_frame] observe_try [OF poll_send_identity]
      split: option.split prod.split poll.split sum.split)

lemma poll_noise_read:
  "observe (fut_poll rd wr (noise_read_future rm fuel n buf (read_buf, t)) r w) =
     (case noise_read_exact rd rm fuel n buf \<lparr>nr_reader = r, nr_read_buf = read_buf, nr_transport = t\<rparr> of
        None \<Rightarrow> None
      | Some (Pending, s) \<Rightarrow> Some (Pending, nr_reader s, w)
      | Some (Ready x, s) \<Rightarrow> Some (Ready (x, nr_read_buf s, nr_transport s), nr_reader s, w))"
proof (induction fuel arbitrary: buf read_buf t r)
  case (Suc fuel)
  consider "n \<le> length buf" | "\<not> n \<le> length buf" "read_buf \<noteq> []" | "\<not> n \<le> length buf" "read_buf = []" by blast
  then show ?case
  proof cases
    case 2
    then show ?thesis by (simp add: Let_def Suc.IH)
  next
    case 3
    then show ?thesis
      by (auto simp: observe_try [OF poll_recv_frame] Suc.IH split: prod.split poll.split sum.split)
  qed simp
qed simp

lemma poll_noise_write:
  "observe (fut_poll rd wr (noise_write_future wm data (read_buf, t)) r w) =
     (case noise_write_all wr wm data \<lparr>nw_writer = w, nw_transport = t\<rparr> of
        None \<Rightarrow> None
      | Some (Pending, s) \<Rightarrow> Some (Pending, r, nw_writer s)
      | Some (Ready x, s) \<Rightarrow> Some (Ready (x, read_buf, nw_transport s), r, nw_writer s))"
proof (induction data arbitrary: t w rule: length_induct)
  case (1 data)
  have IH: "data \<noteq> [] \<Longrightarrow> observe (fut_poll rd wr (noise_write_future wm (drop MAX_PLAINTEXT data) (read_buf, t)) r w) =
     (case noise_write_all wr wm (drop MAX_PLAINTEXT data) \<lparr>nw_writer = w, nw_transport = t\<rparr> of
        None \<Rightarrow> None
      | Some (Pending, s) \<Rightarrow> Some (Pending, r, nw_writer s)
      | Some (Ready x, s) \<Rightarrow> Some (Ready (x, read_buf, nw_transport s), r, nw_writer s))" for t w
    using 1 by (simp add: MAX_PLAINTEXT_def MAX_NOISE_MSG_def)
  show ?case
  proof (cases "data = []")
    case True
    then show ?thesis by (simp add: noise_write_future.simps noise_write_all.simps)
  next
    case False
    then show ?thesis
      by (subst noise_write_future.simps, subst noise_write_all.simps)
         (auto simp: observe_try [OF poll_send_frame] IH split: prod.split poll.split sum.split option.split)
  qed
qed

section \<open>Encryption is transparent\<close>

text \<open>
  What is relied on from a transport state that is used in both directions: what it encrypts, the
  peer decrypts; and neither direction disturbs the other.
\<close>

definition snow_duplex ::
  "('t \<Rightarrow> bytes \<Rightarrow> (snow_error + bytes) \<times> 't) \<Rightarrow> ('t \<Rightarrow> bytes \<Rightarrow> (snow_error + bytes) \<times> 't)
     \<Rightarrow> ('u \<Rightarrow> bytes \<Rightarrow> (snow_error + bytes) \<times> 'u) \<Rightarrow> ('t \<Rightarrow> 'u \<Rightarrow> bool) \<Rightarrow> bool" where
  "snow_duplex rm wm peer P \<longleftrightarrow> snow_paired wm peer P \<and> (\<forall>t u ct. P t u \<longrightarrow> P (snd (rm t ct)) u) \<and>
     (\<forall>t pt cts pts. decrypts rm (snd (wm t pt)) cts pts = decrypts rm t cts pts)"

primrec reads_within :: "nat \<Rightarrow> 'a future \<Rightarrow> bool" where
  "reads_within b (Complete a) = True"
| "reads_within b Aborted = True"
| "reads_within b (AwaitRead n k) = (n \<le> b \<and> (\<forall>x. reads_within b (k x)))"
| "reads_within b (AwaitWrite d k) = (\<forall>x. reads_within b (k x))"

lemma reads_within_bind: "reads_within b f \<Longrightarrow> (\<And>a. reads_within b (k a)) \<Longrightarrow> reads_within b (fut_bind f k)"
  by (induction f rule: fut_induct) simp_all

lemma reads_within_try: "reads_within b f \<Longrightarrow> (\<And>a. reads_within b (k a)) \<Longrightarrow> reads_within b (fut_try f err k)"
  unfolding fut_try_def by (rule reads_within_bind) (auto split: sum.split)

lemma reads_within_decode: "reads_within 16384 (decode_future d)"
  by (induction d rule: decode_future.induct)
     (subst decode_future.simps, auto split: sum.split DecoderOutput.split)

lemma reads_within_msg: "reads_within 16384 read_msg_future"
proof -
  have "unat len \<le> 16384" if "\<not> MULTISTREAM_MAX_MSG_BYTES < len" for len
    using that by (simp add: MULTISTREAM_MAX_MSG_BYTES_def word_less_nat_alt)
  then show ?thesis
    unfolding read_msg_future_def by (intro reads_within_try reads_within_decode) (auto split: sum.split)
qed

lemma reads_within_negotiate: "reads_within 16384 (negotiate_future protocol)"
  unfolding negotiate_future_def fut_of_option_def
  by (auto split: option.split intro!: reads_within_try reads_within_msg)

lemma noise_read_keeps:
  assumes "\<And>t ct. P t \<Longrightarrow> P (snd (rm t ct))"
  shows "noise_read_exact rd rm fuel n buf s = Some (x, s') \<Longrightarrow> P (nr_transport s) \<Longrightarrow> P (nr_transport s')"
proof (induction fuel arbitrary: buf s)
  case (Suc fuel)
  have step: "rm (nr_transport s) ct = (y, t) \<Longrightarrow> P t" for ct y t
    using assms [OF Suc.prems(2), of ct] by simp
  show ?case
    using Suc.prems step Suc.IH
    by (auto simp: Let_def split: if_splits prod.splits poll.splits sum.splits)
qed simp

lemma noise_write_keeps:
  assumes "\<And>t pt. Q (snd (wm t pt)) = Q t"
  shows "noise_write_all wr wm data s = Some (x, s') \<Longrightarrow> Q (nw_transport s') = Q (nw_transport s)"
proof (induction data arbitrary: s rule: length_induct)
  case (1 data)
  have step: "wm (nw_transport s) pt = (y, t) \<Longrightarrow> Q t = Q (nw_transport s)" for pt y t
    using assms [of "nw_transport s" pt] by simp
  show ?case
  proof (cases "data = []")
    case True
    with 1(2) show ?thesis by (simp add: noise_write_all.simps)
  next
    case False
    have IH: "noise_write_all wr wm (drop MAX_PLAINTEXT data) s1 = Some (x, s') \<Longrightarrow>
        Q (nw_transport s') = Q (nw_transport s1)" for s1
      by (rule 1(1) [rule_format]) (use False in \<open>simp_all add: MAX_PLAINTEXT_def MAX_NOISE_MSG_def\<close>)
    from 1(2) False show ?thesis
      by (subst (asm) noise_write_all.simps)
         (auto dest!: IH step split: prod.splits poll.splits sum.splits option.splits)
  qed
qed

lemma over_noise_plain:
  assumes "snow_duplex rm wm peer P" and "2 * b + 1 < fuel"
  shows "reads_within b f \<Longrightarrow> fut_poll mock_read_exact mock_write_all f p q = Some (Ready a, g, p', q') \<Longrightarrow>
    noise_source rm ms_read_buf \<lparr>nr_reader = r, nr_read_buf = rb, nr_transport = t\<rparr> (ms_read_buf p) \<Longrightarrow> P t u \<Longrightarrow>
    \<exists>g' rb' t' r' w' cts pts.
      fut_poll mock_read_exact mock_write_all (over_noise rm wm fuel f (rb, t)) r w =
        Some (Ready (a, rb', t'), g', r', w') \<and>
      noise_source rm ms_read_buf \<lparr>nr_reader = r', nr_read_buf = rb', nr_transport = t'\<rparr> (ms_read_buf p') \<and>
      ms_write_buf w' = ms_write_buf w @ concat (map noise_frame cts) \<and> decrypts peer u cts pts \<and>
      ms_write_buf q' = ms_write_buf q @ concat pts"
proof (induction f arbitrary: p q r rb t w u rule: fut_induct)
  case (Complete c)
  then show ?case
    by simp (rule exI [of _ "[]"], simp, rule exI [of _ "[]"], simp)
next
  case (AwaitRead n k)
  let ?s = "\<lparr>nr_reader = r, nr_read_buf = rb, nr_transport = t\<rparr>"
  have n: "n \<le> length (ms_read_buf p)" and run: "fut_poll mock_read_exact mock_write_all (k (Inr (take n (ms_read_buf p))))
      (p\<lparr>ms_read_buf := drop n (ms_read_buf p)\<rparr>) q = Some (Ready a, g, p', q')"
    using AwaitRead.prems(2) by (auto simp: mock_read_exact_def [of p n] split: if_splits)
  have fl: "2 * (n - length []) + (if nr_read_buf ?s = [] then 1 else 0) < fuel"
    using assms(2) AwaitRead.prems(1) by auto
  obtain s' where rd: "noise_read_exact mock_read_exact rm fuel n [] ?s = Some (Ready (Inr (take n (ms_read_buf p))), s')"
    and src: "noise_source rm ms_read_buf s' (drop n (ms_read_buf p))"
    using mock.noise_read_exact_ok [OF AwaitRead.prems(3), of n "[]" fuel] n fl by auto
  have P: "P (nr_transport s') u"
    by (rule noise_read_keeps [where P = "\<lambda>t. P t u", OF _ rd])
       (use assms(1) AwaitRead.prems(4) in \<open>auto simp: snow_duplex_def\<close>)
  obtain g1 where "fut_poll mock_read_exact mock_write_all (noise_read_future rm fuel n [] (rb, t)) r w =
      Some (Ready (Inr (take n (ms_read_buf p)), nr_read_buf s', nr_transport s'), g1, nr_reader s', w)"
    using poll_noise_read [of mock_read_exact mock_write_all rm fuel n "[]" rb t r w] rd
    by (auto simp: observe_def)
  moreover have "noise_source rm ms_read_buf
      \<lparr>nr_reader = nr_reader s', nr_read_buf = nr_read_buf s', nr_transport = nr_transport s'\<rparr>
      (ms_read_buf (p\<lparr>ms_read_buf := drop n (ms_read_buf p)\<rparr>))"
    using src by (simp add: noise_source_def)
  from AwaitRead.IH [OF _ run this P, of w] AwaitRead.prems(1) obtain g' rb' t' r' w' cts pts where
    "fut_poll mock_read_exact mock_write_all
       (over_noise rm wm fuel (k (Inr (take n (ms_read_buf p)))) (nr_read_buf s', nr_transport s')) (nr_reader s') w =
       Some (Ready (a, rb', t'), g', r', w')"
    "noise_source rm ms_read_buf \<lparr>nr_reader = r', nr_read_buf = rb', nr_transport = t'\<rparr> (ms_read_buf p')"
    "ms_write_buf w' = ms_write_buf w @ concat (map noise_frame cts)" "decrypts peer u cts pts"
    "ms_write_buf q' = ms_write_buf q @ concat pts"
    by auto
  ultimately show ?case by (simp add: fut_poll_bind) blast
next
  case (AwaitWrite d k)
  let ?s = "\<lparr>nw_writer = w, nw_transport = t\<rparr>" and ?q = "q\<lparr>ms_write_buf := ms_write_buf q @ d\<rparr>"
  have run: "fut_poll mock_read_exact mock_write_all (k (Inr ())) p ?q = Some (Ready a, g, p', q')"
    using AwaitWrite.prems(2) by (simp add: mock_write_all_def [of q d])
  obtain s' cts pts where wr: "noise_write_all mock_write_all wm d ?s = Some (Ready (Inr ()), s')"
    and out: "ms_write_buf (nw_writer s') = ms_write_buf w @ concat (map noise_frame cts)"
    and dec: "decrypts peer u cts pts" "concat pts = d" and P: "P (nw_transport s') (after_reading peer cts u)"
    using noise_write_all_ok [of wm peer P ?s u d] assms(1) AwaitWrite.prems(4) by (auto simp: snow_duplex_def)
  have keep: "decrypts rm (nw_transport s') xs ys = decrypts rm t xs ys" for xs ys
    using noise_write_keeps [where Q = "\<lambda>t. decrypts rm t xs ys", OF _ wr] assms(1) by (auto simp: snow_duplex_def)
  obtain g1 where "fut_poll mock_read_exact mock_write_all (noise_write_future wm d (rb, t)) r w =
      Some (Ready (Inr (), rb, nw_transport s'), g1, r, nw_writer s')"
    using poll_noise_write [of mock_read_exact mock_write_all wm d rb t r w] wr by (auto simp: observe_def)
  moreover have "noise_source rm ms_read_buf \<lparr>nr_reader = r, nr_read_buf = rb, nr_transport = nw_transport s'\<rparr>
      (ms_read_buf p)"
    using AwaitWrite.prems(3) keep by (simp add: noise_source_def)
  from AwaitWrite.IH [OF _ run this P, of "nw_writer s'"] AwaitWrite.prems(1) obtain g' rb' t' r' w' cts' pts' where
    "fut_poll mock_read_exact mock_write_all (over_noise rm wm fuel (k (Inr ())) (rb, nw_transport s')) r (nw_writer s') =
       Some (Ready (a, rb', t'), g', r', w')"
    "noise_source rm ms_read_buf \<lparr>nr_reader = r', nr_read_buf = rb', nr_transport = t'\<rparr> (ms_read_buf p')"
    "ms_write_buf w' = ms_write_buf (nw_writer s') @ concat (map noise_frame cts')"
    "decrypts peer (after_reading peer cts u) cts' pts'" "ms_write_buf q' = ms_write_buf ?q @ concat pts'"
    by auto
  ultimately show ?case
    using out dec decrypts_append [OF dec(1)]
    by (simp add: fut_poll_bind) (metis concat_append map_append append_assoc)
qed simp

section \<open>Properties\<close>

text \<open>
  Every identity the handshake completes with was checked, however often it is suspended and
  whatever the streams answer.
\<close>

lemma handshake_all_checked:
  "fut_all (\<lambda>x. \<forall>t peer. x = Inr (t, peer) \<longrightarrow>
      (\<exists>noise msg2 noise'. check_remote sn ed expected noise msg2 = Some (Inr (peer, noise'))))
    (handshake_future sn ed identity expected)"
  unfolding handshake_future_def
  by (auto split!: sum.split prod.split intro!: fut_all_try fut_all_of_option)

text \<open>
  Futures and their runs. One poll of the future of each asynchronous function of the two
  layers gives the outcome and leaves the streams as the run of that function in one go: the
  negotiation, the handshake, and reading and writing on the encrypted streams.
\<close>

theorem handshake_futures_run:
  "observe (fut_poll rd wr (negotiate_future protocol) r w) = negotiate_dialer rd wr protocol r w \<and>
   observe (fut_poll rd wr (handshake_future sn ed identity expected) r w) =
     handshake_dialer sn ed rd wr identity expected r w \<and>
   observe (fut_poll rd wr (noise_read_future rm fuel n [] (read_buf, t)) r w) =
     (case noise_read_exact rd rm fuel n [] \<lparr>nr_reader = r, nr_read_buf = read_buf, nr_transport = t\<rparr> of
        None \<Rightarrow> None
      | Some (Pending, s) \<Rightarrow> Some (Pending, nr_reader s, w)
      | Some (Ready x, s) \<Rightarrow> Some (Ready (x, nr_read_buf s, nr_transport s), nr_reader s, w)) \<and>
   observe (fut_poll rd wr (noise_write_future wm data (read_buf, t)) r w) =
     (case noise_write_all wr wm data \<lparr>nw_writer = w, nw_transport = t\<rparr> of
        None \<Rightarrow> None
      | Some (Pending, s) \<Rightarrow> Some (Pending, r, nw_writer s)
      | Some (Ready x, s) \<Rightarrow> Some (Ready (x, read_buf, nw_transport s), r, nw_writer s))"
  by (simp only: poll_negotiate poll_handshake poll_noise_read poll_noise_write)

text \<open>
  (C21) Encryption is transparent. Let the two directions of the transport state be independent, and
  what it encrypts be decrypted by the peer. A future that completes on streams that carry
  plaintext completes with the same value on the encrypted streams whose frames carry that
  plaintext: it has consumed the same plaintext, and the frames it wrote decrypt, at the peer, to
  what it wrote in the plain.
\<close>

theorem noise_is_transparent:
  assumes "snow_duplex rm wm peer P" and "P t u" and "reads_within b f" and "2 * b + 1 < fuel"
    and "fut_poll mock_read_exact mock_write_all f p q = Some (Ready a, g, p', q')"
    and "noise_source rm ms_read_buf \<lparr>nr_reader = r, nr_read_buf = rb, nr_transport = t\<rparr> (ms_read_buf p)"
  shows "\<exists>g' rb' t' r' w' cts pts.
      fut_poll mock_read_exact mock_write_all (over_noise rm wm fuel f (rb, t)) r w =
        Some (Ready (a, rb', t'), g', r', w') \<and>
      noise_source rm ms_read_buf \<lparr>nr_reader = r', nr_read_buf = rb', nr_transport = t'\<rparr> (ms_read_buf p') \<and>
      ms_write_buf w' = ms_write_buf w @ concat (map noise_frame cts) \<and> decrypts peer u cts pts \<and>
      ms_write_buf q' = ms_write_buf q @ concat pts"
  by (rule over_noise_plain [OF assms(1,4,3,5,6,2)])

lemma duplex_read_fst [simp]: "fst (snd (duplex_read t ct)) = fst t"
  by (simp add: duplex_read_def split: prod.split)

lemma duplex_write_snd [simp]: "snd (snd (duplex_write t pt)) = snd t"
  by (simp add: duplex_write_def split: prod.split)

lemma decrypts_receiving: "snd t = snd t' \<Longrightarrow> decrypts duplex_read t cts pts = decrypts duplex_read t' cts pts"
proof (induction cts arbitrary: pts t t')
  case Nil
  then show ?case by (cases pts) simp_all
next
  case (Cons ct cts)
  obtain x v where v: "tag_read (snd t) ct = (x, v)" by (cases "tag_read (snd t) ct")
  show ?case
    using Cons.prems Cons.IH [of "(fst t, v)" "(fst t', v)"] v
    by (cases pts) (simp_all add: duplex_read_def)
qed

lemma duplex_tags: "snow_duplex duplex_read duplex_write tag_read (\<lambda>t u. fst t = u)"
proof -
  have "snow_paired duplex_write tag_read (\<lambda>t u. fst t = u)"
    by (auto simp: snow_paired_def tag_write_def tag_read_def duplex_write_def)
  moreover have "decrypts duplex_read (snd (duplex_write t pt)) cts pts = decrypts duplex_read t cts pts" for t pt cts pts
    by (rule decrypts_receiving) simp
  ultimately show ?thesis unfolding snow_duplex_def by simp
qed

text \<open>A frame of the peer of \<open>toy_snow\<close>.\<close>

definition toy_frame :: "bytes \<Rightarrow> bytes" where
  "toy_frame pt = noise_frame (pt @ replicate 16 2)"

lemma toy_source:
  assumes "ms_read_buf r = toy_frame pt" and "pt \<noteq> []" and "length pt \<le> MAX_PLAINTEXT"
  shows "noise_source duplex_read ms_read_buf \<lparr>nr_reader = r, nr_read_buf = [], nr_transport = (1, 2)\<rparr> pt"
proof -
  have "decrypts duplex_read (1, 2) [pt @ replicate 16 2] [pt]"
    using assms(2,3) by (simp add: duplex_read_def tag_read_def MAX_PLAINTEXT_def MAX_NOISE_MSG_def)
  then show ?thesis
    unfolding noise_source_def
    by (intro exI [of _ "[pt @ replicate 16 2]"] exI [of _ "[pt]"]) (simp add: assms(1) toy_frame_def)
qed

theorem noise_is_transparent_witness:
  "\<exists>g' rb' t' r' w'. fut_poll mock_read_exact mock_write_all
      (over_noise duplex_read duplex_write 8 (AwaitWrite [4] (\<lambda>_. AwaitRead 2 Complete)) ([], 1, 2))
      (mock_extend (toy_frame [5, 6]) mock_new) mock_new = Some (Ready (Inr [5, 6], rb', t'), g', r', w')"
proof -
  let ?f = "AwaitWrite [4] (\<lambda>_. AwaitRead 2 Complete)" and ?r = "mock_extend (toy_frame [5, 6]) mock_new"
  let ?p = "mock_extend [5, 6] mock_new"
  have run: "fut_poll mock_read_exact mock_write_all ?f ?p mock_new = Some (Ready (Inr [5, 6]), Complete (Inr [5, 6]),
      ?p\<lparr>ms_read_buf := []\<rparr>, mock_new\<lparr>ms_write_buf := [4]\<rparr>)"
    by (simp add: mock_write_all_def mock_read_exact_def mock_new_def)
  have src: "noise_source duplex_read ms_read_buf \<lparr>nr_reader = ?r, nr_read_buf = [], nr_transport = (1, 2)\<rparr> (ms_read_buf ?p)"
    using toy_source [of ?r "[5, 6]"] by (simp add: mock_new_def MAX_PLAINTEXT_def MAX_NOISE_MSG_def)
  from noise_is_transparent [OF duplex_tags _ _ _ run src, of 1 2 8] show ?thesis by fastforce
qed

end
