(* ===== verification/FromStream.thy ===== *)
theory FromStream
  imports ConnectionRuns Handshakes
begin

text \<open>
  \<open>Connection::from_stream\<close> of \<open>src/connection.rs\<close> and the two ways to call it in
  \<open>src/configuration.rs\<close>: agree on noise, do the handshake, agree on yamux inside the encrypted
  streams, each under a timeout, and set up the connection.

  The future is a state machine over its three await points. Each of them awaits \<open>timeout\<close> of
  \<open>src/platform.rs\<close>, that is, the future of the phase and a sleep that was started with it.
\<close>

section \<open>The future\<close>

datatype ('t, 'z, 'k) connecting =
    CsNew
  | CsNoise "(dialer_error + unit) future" 'z
  | CsHandshake "(noise_error + 't \<times> PeerId) future" 'z "'k Identity"
  | CsYamux "((dialer_error + unit) \<times> 't noise_state) future" 'z "'k Identity" PeerId

text \<open>One poll of an \<open>async\<close> function: its result, or the state in which it is suspended.\<close>

datatype ('c, 's) progress = Finished 'c | Suspended 's

type_synonym ('r, 'w, 't, 'z, 'k) from_stream_progress =
  "(ConnectionError + (('r, 't) NoiseReadStream, ('w, 't) NoiseWriteStream, 'z) Connection,
    ('t, 'z, 'k) connecting \<times> 'r \<times> 'w) progress"

text \<open>One poll of \<open>timeout(duration, fut)\<close>.\<close>

definition timeout_await ::
  "('p, 'z) PlatformT \<Rightarrow> 'p \<Rightarrow> 'r read_op \<Rightarrow> 'w write_op \<Rightarrow> 'a future \<Rightarrow> 'z \<Rightarrow> 'r \<Rightarrow> 'w
     \<Rightarrow> ((unit + 'a) poll \<times> 'a future \<times> 'z \<times> 'r \<times> 'w) option" where
  "timeout_await pf now rd wr f z r w =
     (case fut_poll rd wr f r w of
        None \<Rightarrow> None
      | Some (p, f', r', w') \<Rightarrow>
          (case timeout_poll pf now z p of (q, z') \<Rightarrow> Some (q, f', z', r', w')))"

text \<open>
  The connection. The two halves of the encrypted stream share the transport state; each of them
  uses one direction of it.
\<close>

definition new_connection ::
  "'k Ed25519 \<Rightarrow> Configuration \<Rightarrow> 'k Identity \<Rightarrow> PeerId \<Rightarrow> 't noise_state \<Rightarrow> 'r \<Rightarrow> 'w
     \<Rightarrow> (('r, 't) NoiseReadStream, ('w, 't) NoiseWriteStream, 'z) Connection option" where
  "new_connection ed config identity remote s r w =
     (case Identity_peer_id ed identity of
        None \<Rightarrow> None
      | Some ours \<Rightarrow>
          (case connection_tables config of
             (subscriptions, requests) \<Rightarrow> Some
               \<lparr>cn_yamux = ym_new (yamux_new ((NoiseReadStream_new r (snd s))\<lparr>nr_read_buf := fst s\<rparr>)
                  (NoiseWriteStream_new w (snd s))),
                remote_id = remote, cn_our_id = ours,
                subscription_details = subscriptions, request_details = requests,
                incoming_requests = bt_empty, inflight_requests = bt_empty, next_buf = [],
                cn_finished = False\<rparr>))"

definition poll_yamux_phase ::
  "('p, 'z) PlatformT \<Rightarrow> 'p \<Rightarrow> 'k Ed25519 \<Rightarrow> 'r read_op \<Rightarrow> 'w write_op \<Rightarrow> Configuration
     \<Rightarrow> ((dialer_error + unit) \<times> 't noise_state) future \<Rightarrow> 'z \<Rightarrow> 'k Identity \<Rightarrow> PeerId \<Rightarrow> 'r \<Rightarrow> 'w
     \<Rightarrow> ('r, 'w, 't, 'z, 'k) from_stream_progress option" where
  "poll_yamux_phase pf now ed rd wr config f z identity remote r w =
     (case timeout_await pf now rd wr f z r w of
        None \<Rightarrow> None
      | Some (Pending, f', z', r', w') \<Rightarrow> Some (Suspended (CsYamux f' z' identity remote, r', w'))
      | Some (Ready (Inl _), _) \<Rightarrow> Some (Finished (Inl YamuxNegotiationTimeout))
      | Some (Ready (Inr (Inl e, _)), _) \<Rightarrow> Some (Finished (Inl (ConnProtocolError (PMultistream e))))
      | Some (Ready (Inr (Inr _, s)), _, _, r', w') \<Rightarrow>
          map_option (Finished \<circ> Inr) (new_connection ed config identity remote s r' w'))"

definition yamux_future :: "('h, 't) Snow \<Rightarrow> nat \<Rightarrow> 't \<Rightarrow> ((dialer_error + unit) \<times> 't noise_state) future" where
  "yamux_future sn fuel transport =
     over_noise (st_read_message sn) (st_write_message sn) fuel (negotiate_future (bytes_of ''/yamux/1.0.0''))
       ([], transport)"

definition poll_handshake_phase ::
  "('p, 'z) PlatformT \<Rightarrow> 'p \<Rightarrow> ('h, 't) Snow \<Rightarrow> 'k Ed25519 \<Rightarrow> 'r read_op \<Rightarrow> 'w write_op \<Rightarrow> nat \<Rightarrow> Configuration
     \<Rightarrow> (noise_error + 't \<times> PeerId) future \<Rightarrow> 'z \<Rightarrow> 'k Identity \<Rightarrow> 'r \<Rightarrow> 'w
     \<Rightarrow> ('r, 'w, 't, 'z, 'k) from_stream_progress option" where
  "poll_handshake_phase pf now sn ed rd wr fuel config f z identity r w =
     (case timeout_await pf now rd wr f z r w of
        None \<Rightarrow> None
      | Some (Pending, f', z', r', w') \<Rightarrow> Some (Suspended (CsHandshake f' z' identity, r', w'))
      | Some (Ready (Inl _), _) \<Rightarrow> Some (Finished (Inl NoiseHandshakeTimeout))
      | Some (Ready (Inr (Inl e)), _) \<Rightarrow> Some (Finished (Inl (ConnProtocolError (PNoise e))))
      | Some (Ready (Inr (Inr (transport, remote))), _, _, r', w') \<Rightarrow>
          poll_yamux_phase pf now ed rd wr config (yamux_future sn fuel transport)
            (pf_sleep pf now (multistream_timeout config)) identity remote r' w')"

definition poll_noise_phase ::
  "('p, 'z) PlatformT \<Rightarrow> 'p \<Rightarrow> ('h, 't) Snow \<Rightarrow> 'k Ed25519 \<Rightarrow> 'r read_op \<Rightarrow> 'w write_op \<Rightarrow> nat \<Rightarrow> Configuration
     \<Rightarrow> PeerId option \<Rightarrow> (dialer_error + unit) future \<Rightarrow> 'z \<Rightarrow> 'r \<Rightarrow> 'w
     \<Rightarrow> ('r, 'w, 't, 'z, 'k) from_stream_progress option" where
  "poll_noise_phase pf now sn ed rd wr fuel config remote_peer_id f z r w =
     (case timeout_await pf now rd wr f z r w of
        None \<Rightarrow> None
      | Some (Pending, f', z', r', w') \<Rightarrow> Some (Suspended (CsNoise f' z', r', w'))
      | Some (Ready (Inl _), _) \<Rightarrow> Some (Finished (Inl NoiseNegotiationTimeout))
      | Some (Ready (Inr (Inl e)), _) \<Rightarrow> Some (Finished (Inl (ConnProtocolError (PMultistream e))))
      | Some (Ready (Inr (Inr _)), _, _, r', w') \<Rightarrow>
          (let identity = connection_identity pf now ed config in
           poll_handshake_phase pf now sn ed rd wr fuel config (handshake_future sn ed identity remote_peer_id)
             (pf_sleep pf now (noise_timeout config)) identity r' w'))"

text \<open>One poll of \<open>from_stream\<close> in the platform's state \<open>now\<close>.\<close>

definition from_stream ::
  "('p, 'z) PlatformT \<Rightarrow> 'p \<Rightarrow> ('h, 't) Snow \<Rightarrow> 'k Ed25519 \<Rightarrow> 'r read_op \<Rightarrow> 'w write_op \<Rightarrow> nat \<Rightarrow> Configuration
     \<Rightarrow> PeerId option \<Rightarrow> ('t, 'z, 'k) connecting \<times> 'r \<times> 'w
     \<Rightarrow> ('r, 'w, 't, 'z, 'k) from_stream_progress option" where
  "from_stream pf now sn ed rd wr fuel config remote_peer_id s =
     (case s of
        (CsNew, r, w) \<Rightarrow>
          poll_noise_phase pf now sn ed rd wr fuel config remote_peer_id (negotiate_future (bytes_of ''/noise''))
            (pf_sleep pf now (multistream_timeout config)) r w
      | (CsNoise f z, r, w) \<Rightarrow> poll_noise_phase pf now sn ed rd wr fuel config remote_peer_id f z r w
      | (CsHandshake f z identity, r, w) \<Rightarrow>
          poll_handshake_phase pf now sn ed rd wr fuel config f z identity r w
      | (CsYamux f z identity remote, r, w) \<Rightarrow>
          poll_yamux_phase pf now ed rd wr config f z identity remote r w)"

text \<open>\<open>Configuration::connect\<close> and \<open>connect_to_peer\<close> return this future.\<close>

definition connect where
  "connect pf now sn ed rd wr fuel config s = from_stream pf now sn ed rd wr fuel config None s"

definition connect_to_peer where
  "connect_to_peer pf now sn ed rd wr fuel config peer_id s =
     from_stream pf now sn ed rd wr fuel config (Some peer_id) s"

section \<open>Runs\<close>

text \<open>
  The future is polled whenever its executor likes; between two polls the streams may change in
  any way.
\<close>

inductive connect_step ::
  "('p, 'z) PlatformT \<Rightarrow> ('h, 't) Snow \<Rightarrow> 'k Ed25519 \<Rightarrow> 'r read_op \<Rightarrow> 'w write_op \<Rightarrow> nat \<Rightarrow> Configuration
     \<Rightarrow> PeerId option \<Rightarrow> ('r, 'w, 't, 'z, 'k) from_stream_progress \<Rightarrow> ('r, 'w, 't, 'z, 'k) from_stream_progress \<Rightarrow> bool"
  for pf sn ed rd wr fuel config expected where
  cs_poll: "from_stream pf now sn ed rd wr fuel config expected s = Some x \<Longrightarrow>
    connect_step pf sn ed rd wr fuel config expected (Suspended s) x"
| cs_streams: "connect_step pf sn ed rd wr fuel config expected (Suspended (st, r, w)) (Suspended (st, r', w'))"

text \<open>The runs in which only bytes arrive, with the bytes that arrived so far.\<close>

inductive connect_run ::
  "('p, 'z) PlatformT \<Rightarrow> ('h, 't) Snow \<Rightarrow> 'k Ed25519 \<Rightarrow> 'r read_op \<Rightarrow> 'w write_op \<Rightarrow> nat \<Rightarrow> Configuration
     \<Rightarrow> PeerId option \<Rightarrow> (bytes \<Rightarrow> 'r \<Rightarrow> 'r) \<Rightarrow> 'r \<Rightarrow> 'w \<Rightarrow> bytes \<Rightarrow> ('r, 'w, 't, 'z, 'k) from_stream_progress \<Rightarrow> bool"
  for pf sn ed rd wr fuel config expected arrive r0 w0 where
  cr_new: "connect_run pf sn ed rd wr fuel config expected arrive r0 w0 [] (Suspended (CsNew, r0, w0))"
| cr_arrive: "connect_run pf sn ed rd wr fuel config expected arrive r0 w0 bs (Suspended (st, r, w)) \<Longrightarrow>
    connect_run pf sn ed rd wr fuel config expected arrive r0 w0 (bs @ xs) (Suspended (st, arrive xs r, w))"
| cr_poll: "connect_run pf sn ed rd wr fuel config expected arrive r0 w0 bs (Suspended s) \<Longrightarrow>
    from_stream pf now sn ed rd wr fuel config expected s = Some x \<Longrightarrow>
    connect_run pf sn ed rd wr fuel config expected arrive r0 w0 bs x"

section \<open>The future without its timeouts\<close>

text \<open>
  What is left to do in a state if no timeout strikes, as one future over the streams. Its value is
  the identity in use, that of the remote, and the state of the encrypted streams.
\<close>

type_synonym ('t, 'k) agreed = "ConnectionError + 'k Identity \<times> PeerId \<times> 't noise_state"

definition after_yamux ::
  "'k Identity \<Rightarrow> PeerId \<Rightarrow> (dialer_error + unit) \<times> 't noise_state \<Rightarrow> ('t, 'k) agreed future" where
  "after_yamux identity remote x = Complete
     (case fst x of Inl e \<Rightarrow> Inl (ConnProtocolError (PMultistream e)) | Inr _ \<Rightarrow> Inr (identity, remote, snd x))"

definition after_handshake ::
  "('h, 't) Snow \<Rightarrow> nat \<Rightarrow> 'k Identity \<Rightarrow> noise_error + 't \<times> PeerId \<Rightarrow> ('t, 'k) agreed future" where
  "after_handshake sn fuel identity x =
     (case x of
        Inl e \<Rightarrow> Complete (Inl (ConnProtocolError (PNoise e)))
      | Inr (t, remote) \<Rightarrow> fut_bind (yamux_future sn fuel t) (after_yamux identity remote))"

definition after_noise ::
  "('h, 't) Snow \<Rightarrow> 'k Ed25519 \<Rightarrow> nat \<Rightarrow> PeerId option \<Rightarrow> 'k Identity \<Rightarrow> dialer_error + unit
     \<Rightarrow> ('t, 'k) agreed future" where
  "after_noise sn ed fuel expected identity x =
     (case x of
        Inl e \<Rightarrow> Complete (Inl (ConnProtocolError (PMultistream e)))
      | Inr _ \<Rightarrow> fut_bind (handshake_future sn ed identity expected) (after_handshake sn fuel identity))"

primrec remaining ::
  "('h, 't) Snow \<Rightarrow> 'k Ed25519 \<Rightarrow> nat \<Rightarrow> PeerId option \<Rightarrow> 'k Identity \<Rightarrow> ('t, 'z, 'k) connecting
     \<Rightarrow> ('t, 'k) agreed future" where
  "remaining sn ed fuel expected i0 CsNew =
     fut_bind (negotiate_future (bytes_of ''/noise'')) (after_noise sn ed fuel expected i0)"
| "remaining sn ed fuel expected i0 (CsNoise f z) = fut_bind f (after_noise sn ed fuel expected i0)"
| "remaining sn ed fuel expected i0 (CsHandshake f z i) = fut_bind f (after_handshake sn fuel i)"
| "remaining sn ed fuel expected i0 (CsYamux f z i remote) = fut_bind f (after_yamux i remote)"

definition conclude ::
  "'k Ed25519 \<Rightarrow> Configuration \<Rightarrow> ('t, 'k) agreed \<Rightarrow> 'r \<Rightarrow> 'w
     \<Rightarrow> (ConnectionError + (('r, 't) NoiseReadStream, ('w, 't) NoiseWriteStream, 'z) Connection) option" where
  "conclude ed config x r w =
     (case x of
        Inl e \<Rightarrow> Some (Inl e)
      | Inr (identity, remote, s) \<Rightarrow> map_option Inr (new_connection ed config identity remote s r w))"

definition timed_out :: "ConnectionError + 'c \<Rightarrow> bool" where
  "timed_out res \<longleftrightarrow> res \<in> {Inl NoiseNegotiationTimeout, Inl NoiseHandshakeTimeout, Inl YamuxNegotiationTimeout}"

lemma timeout_await_cases:
  "timeout_await pf now rd wr f z r w = Some (q, f', z', r', w') \<Longrightarrow>
   \<exists>p. fut_poll rd wr f r w = Some (p, f', r', w') \<and>
     (case q of Pending \<Rightarrow> p = Pending \<and> (\<exists>b. pf_poll pf now z = (Pending, b, z'))
      | Ready (Inl _) \<Rightarrow> p = Pending \<and> (\<exists>b. pf_poll pf now z = (Ready (), b, z'))
      | Ready (Inr a) \<Rightarrow> p = Ready a)"
  by (auto simp: timeout_await_def timeout_poll_def split: option.splits prod.splits poll.splits)

lemma timeout_await_polls:
  "timeout_await pf now rd wr f z r w = Some (q, f', z', r', w') \<Longrightarrow>
   \<exists>p. fut_poll rd wr f r w = Some (p, f', r', w') \<and> (\<forall>a. q = Ready (Inr a) \<longrightarrow> p = Ready a)"
  by (auto simp: timeout_await_def timeout_poll_def split: option.splits prod.splits poll.splits)

lemma timeout_await_Ready:
  "fut_poll rd wr f r w = Some (Ready a, f', r', w') \<Longrightarrow>
   timeout_await pf now rd wr f z r w = Some (Ready (Inr a), f', z, r', w')"
  by (simp add: timeout_await_def timeout_poll_def)

lemma yamux_phase_ready:
  assumes "fut_poll rd wr (fut_bind f (after_yamux i remote)) r w = Some (Ready out, g, r', w')"
  shows "poll_yamux_phase pf now ed rd wr config f z i remote r w = map_option Finished (conclude ed config out r' w')"
  using assms
  by (auto simp: poll_yamux_phase_def fut_poll_bind after_yamux_def conclude_def timeout_await_Ready option.map_comp
      split: option.splits prod.splits poll.splits sum.splits)

lemma handshake_phase_ready:
  assumes "fut_poll rd wr (fut_bind f (after_handshake sn fuel i)) r w = Some (Ready out, g, r', w')"
  shows "poll_handshake_phase pf now sn ed rd wr fuel config f z i r w = map_option Finished (conclude ed config out r' w')"
proof -
  obtain x f1 r1 w1 where f: "fut_poll rd wr f r w = Some (Ready x, f1, r1, w1)"
    and x: "fut_poll rd wr (after_handshake sn fuel i x) r1 w1 = Some (Ready out, g, r', w')"
    using assms by (auto simp: fut_poll_bind split: option.splits prod.splits poll.splits)
  show ?thesis
    using x by (auto simp: poll_handshake_phase_def timeout_await_Ready [OF f] after_handshake_def conclude_def
        split: sum.splits dest: yamux_phase_ready)
qed

lemma noise_phase_ready:
  assumes "fut_poll rd wr (fut_bind f (after_noise sn ed fuel expected i)) r w = Some (Ready out, g, r', w')"
    and "connection_identity pf now ed config = i"
  shows "poll_noise_phase pf now sn ed rd wr fuel config expected f z r w = map_option Finished (conclude ed config out r' w')"
proof -
  obtain x f1 r1 w1 where f: "fut_poll rd wr f r w = Some (Ready x, f1, r1, w1)"
    and x: "fut_poll rd wr (after_noise sn ed fuel expected i x) r1 w1 = Some (Ready out, g, r', w')"
    using assms(1) by (auto simp: fut_poll_bind split: option.splits prod.splits poll.splits)
  show ?thesis
    using x assms(2) by (auto simp: poll_noise_phase_def timeout_await_Ready [OF f] after_noise_def conclude_def Let_def
        split: sum.splits dest: handshake_phase_ready)
qed

text \<open>If the remaining future is ready, then no timeout is looked at.\<close>

lemma from_stream_ready:
  assumes "fut_poll rd wr (remaining sn ed fuel expected i st) r w = Some (Ready out, g, r', w')"
    and "connection_identity pf now ed config = i"
  shows "from_stream pf now sn ed rd wr fuel config expected (st, r, w) = map_option Finished (conclude ed config out r' w')"
  using assms
  by (cases st) (auto simp: from_stream_def dest: noise_phase_ready handshake_phase_ready yamux_phase_ready)

text \<open>
  A poll of a phase that does not time out is a poll of the remaining future: it is suspended where
  that is, and finished with what that gives.
\<close>

definition follows ::
  "('a poll \<times> 'a future \<times> 'r \<times> 'w) option \<Rightarrow> (('t, 'z, 'k) connecting \<Rightarrow> 'a future)
     \<Rightarrow> ('a \<Rightarrow> 'r \<Rightarrow> 'w \<Rightarrow> (ConnectionError + 'c) option)
     \<Rightarrow> (ConnectionError + 'c, ('t, 'z, 'k) connecting \<times> 'r \<times> 'w) progress \<Rightarrow> bool" where
  "follows p rest fin x \<longleftrightarrow>
     (case x of
        Suspended (st, r, w) \<Rightarrow> p = Some (Pending, rest st, r, w)
      | Finished res \<Rightarrow> \<not> timed_out res \<longrightarrow>
          (\<exists>out r w. p = Some (Ready out, Complete out, r, w) \<and> fin out r w = Some res))"

lemma yamux_phase_follows:
  assumes "poll_yamux_phase pf now ed rd wr config f z i remote r w = Some x"
    and "\<And>g z. rest (CsYamux g z i remote) = fut_bind g (after_yamux i remote)"
  shows "follows (fut_poll rd wr (fut_bind f (after_yamux i remote)) r w) rest (conclude ed config) x"
proof -
  obtain q f' z' r' w' where t: "timeout_await pf now rd wr f z r w = Some (q, f', z', r', w')"
    using assms(1) by (auto simp: poll_yamux_phase_def split: option.splits)
  show ?thesis
    using timeout_await_cases [OF t] assms t
    by (auto simp: poll_yamux_phase_def follows_def fut_poll_bind timed_out_def after_yamux_def conclude_def
        split: poll.splits sum.splits)
qed

lemma handshake_phase_follows:
  assumes "poll_handshake_phase pf now sn ed rd wr fuel config f z i r w = Some x"
    and "\<And>g z. rest (CsHandshake g z i) = fut_bind g (after_handshake sn fuel i)"
    and "\<And>g z remote. rest (CsYamux g z i remote) = fut_bind g (after_yamux i remote)"
  shows "follows (fut_poll rd wr (fut_bind f (after_handshake sn fuel i)) r w) rest (conclude ed config) x"
proof -
  obtain q f' z' r' w' where t: "timeout_await pf now rd wr f z r w = Some (q, f', z', r', w')"
    using assms(1) by (auto simp: poll_handshake_phase_def split: option.splits)
  note * = timeout_await_cases [OF t]
  show ?thesis
  proof (cases "\<exists>a. q = Ready (Inr (Inr a))")
    case True
    then obtain transport remote where q: "q = Ready (Inr (Inr (transport, remote)))" by auto
    with assms(1) t have "poll_yamux_phase pf now ed rd wr config (yamux_future sn fuel transport)
        (pf_sleep pf now (multistream_timeout config)) i remote r' w' = Some x"
      by (simp add: poll_handshake_phase_def)
    from yamux_phase_follows [OF this assms(3)] * q show ?thesis
      by (simp add: fut_poll_bind [of rd wr f] after_handshake_def)
  next
    case False
    with * assms(1, 2) t show ?thesis
      by (auto simp: poll_handshake_phase_def follows_def fut_poll_bind timed_out_def after_handshake_def conclude_def
          split: poll.splits sum.splits)
  qed
qed

lemma noise_phase_follows:
  assumes "poll_noise_phase pf now sn ed rd wr fuel config expected f z r w = Some x"
    and "connection_identity pf now ed config = i"
    and "\<And>g z. rest (CsNoise g z) = fut_bind g (after_noise sn ed fuel expected i)"
    and "\<And>g z. rest (CsHandshake g z i) = fut_bind g (after_handshake sn fuel i)"
    and "\<And>g z remote. rest (CsYamux g z i remote) = fut_bind g (after_yamux i remote)"
  shows "follows (fut_poll rd wr (fut_bind f (after_noise sn ed fuel expected i)) r w) rest (conclude ed config) x"
proof -
  obtain q f' z' r' w' where t: "timeout_await pf now rd wr f z r w = Some (q, f', z', r', w')"
    using assms(1) by (auto simp: poll_noise_phase_def split: option.splits)
  note * = timeout_await_cases [OF t]
  show ?thesis
  proof (cases "q = Ready (Inr (Inr ()))")
    case True
    with assms(1, 2) t have "poll_handshake_phase pf now sn ed rd wr fuel config (handshake_future sn ed i expected)
        (pf_sleep pf now (noise_timeout config)) i r' w' = Some x"
      by (simp add: poll_noise_phase_def Let_def)
    from handshake_phase_follows [OF this assms(4, 5)] * True show ?thesis
      by (simp add: fut_poll_bind [of rd wr f] after_noise_def)
  next
    case False
    with * assms(1, 3) t show ?thesis
      by (auto simp: poll_noise_phase_def follows_def fut_poll_bind timed_out_def after_noise_def conclude_def
          split: poll.splits sum.splits)
  qed
qed

lemma from_stream_follows:
  assumes "from_stream pf now sn ed rd wr fuel config expected (st, r, w) = Some x"
    and "connection_identity pf now ed config = i"
  shows "follows (fut_poll rd wr (remaining sn ed fuel expected i st) r w) (remaining sn ed fuel expected i)
    (conclude ed config) x"
  using assms
  by (cases st) (auto simp: from_stream_def intro!: yamux_phase_follows handshake_phase_follows
      noise_phase_follows)

section \<open>Resuming\<close>

context resumable
begin

text \<open>
  In a run in which bytes arrive, the remaining future does on the reader of now what the whole
  future does on one that has all the bytes from the beginning.
\<close>

lemma run_remaining:
  assumes "connect_run pf sn ed rd wr fuel config expected arrive r0 w0 bs x"
    and "\<And>w d. fst (wr w d) \<noteq> Pending" and "\<And>now. connection_identity pf now ed config = i"
  shows "case x of
      Suspended (st, r, w) \<Rightarrow> \<forall>xs. fut_poll rd wr (remaining sn ed fuel expected i st) (arrive xs r) w =
        fut_poll rd wr (remaining sn ed fuel expected i (CsNew :: ('t, 'z, 'k) connecting)) (arrive (bs @ xs) r0) w0
    | Finished res \<Rightarrow> \<not> timed_out res \<longrightarrow> (\<exists>out r w. conclude ed config out r w = Some res \<and>
        fut_poll rd wr (remaining sn ed fuel expected i (CsNew :: ('t, 'z, 'k) connecting)) (arrive bs r0) w0 =
          Some (Ready out, Complete out, r, w))"
  using assms(1)
proof (induction rule: connect_run.induct)
  case (cr_poll bs s now x)
  obtain st r w where s: "s = (st, r, w)" by (cases s)
  let ?f = "remaining sn ed fuel expected i st"
  have *: "fut_poll rd wr ?f (arrive xs r) w =
      fut_poll rd wr (remaining sn ed fuel expected i (CsNew :: ('t, 'z, 'k) connecting)) (arrive (bs @ xs) r0) w0" for xs
    using cr_poll.IH s by simp
  have "follows (fut_poll rd wr ?f r w) (remaining sn ed fuel expected i) (conclude ed config) x"
    using from_stream_follows [OF cr_poll.hyps(2) [unfolded s] assms(3)] .
  then show ?case
    using * [of "[]"] fut_resume [OF assms(2), where f = ?f and r = r and w = w] *
    by (auto simp: follows_def arrive_nil split: progress.splits)
next
  case (cr_arrive bs st r w xs)
  then show ?case by (simp flip: arrive_append)
qed (simp add: arrive_nil)

end


section \<open>Authentication\<close>

lemma map_filter_set: "y \<in> set (List.map_filter f xs) \<longleftrightarrow> (\<exists>x \<in> set xs. f x = Some y)"
  by (induction xs) (auto simp: List.map_filter_simps split: option.splits)

lemma distinct_map_filter:
  assumes "distinct (map g xs)" and "\<And>x y. f x = Some y \<Longrightarrow> h y = g x"
  shows "distinct (map h (List.map_filter f xs))"
  using assms(1)
proof (induction xs)
  case (Cons x xs)
  have "h y \<notin> h ` set (List.map_filter f xs)" if "f x = Some y" for y
  proof
    assume "h y \<in> h ` set (List.map_filter f xs)"
    then obtain x' y' where "x' \<in> set xs" "f x' = Some y'" "h y = h y'" by (auto simp: map_filter_set)
    with assms(2) that have "g x = g x'" by simp
    with Cons.prems \<open>x' \<in> set xs\<close> show False by auto
  qed
  with Cons show ?case by (auto simp: List.map_filter_simps split: option.splits)
qed (simp add: List.map_filter_simps)

lemma distinct_map_inj: "inj f \<Longrightarrow> distinct (map g xs) \<Longrightarrow> distinct (map (\<lambda>x. f (g x)) xs)"
  by (auto simp: distinct_map inj_on_def dest: injD)

lemma tables_distinct:
  assumes "distinct (map (opaque_get \<circ> fst) (protocols config))"
    and "connection_tables config = (subs, reqs :: 'z RequestDetails list)"
  shows "distinct (map sd_protocol_id subs)" and "distinct (map rq_protocol_id reqs)"
proof -
  have s: "distinct (map (opaque_get \<circ> fst)
      (List.map_filter (\<lambda>(pid, p). map_option (Pair pid) (as_subscription p)) (protocols config)))"
    and r: "distinct (map (opaque_get \<circ> fst)
      (List.map_filter (\<lambda>(pid, p). map_option (Pair pid) (as_request p)) (protocols config)))"
    by (rule distinct_map_filter [OF assms(1)]; auto)+
  show "distinct (map sd_protocol_id subs)"
    using distinct_map_inj [OF _ s, of SubscriptionProtocolId] assms(2)
    by (auto simp: connection_tables_def inj_def comp_def case_prod_unfold)
  show "distinct (map rq_protocol_id reqs)"
    using distinct_map_inj [OF _ r, of RequestProtocolId] assms(2)
    by (auto simp: connection_tables_def inj_def comp_def case_prod_unfold)
qed

text \<open>What holds in every state of every run: the remote was checked before its identifier is used.\<close>

definition remote_checked :: "('h, 't) Snow \<Rightarrow> 'k Ed25519 \<Rightarrow> PeerId option \<Rightarrow> PeerId \<Rightarrow> bool" where
  "remote_checked sn ed expected peer \<longleftrightarrow>
     (\<exists>noise msg2 noise'. check_remote sn ed expected noise msg2 = Some (Inr (peer, noise')))"

definition drawn_identity :: "('p, 'z) PlatformT \<Rightarrow> 'k Ed25519 \<Rightarrow> Configuration \<Rightarrow> 'k Identity \<Rightarrow> bool" where
  "drawn_identity pf ed config i \<longleftrightarrow> (\<exists>now. i = connection_identity pf now ed config)"

fun connecting_ok ::
  "('p, 'z) PlatformT \<Rightarrow> ('h, 't) Snow \<Rightarrow> 'k Ed25519 \<Rightarrow> Configuration \<Rightarrow> PeerId option
     \<Rightarrow> ('r, 'w, 't, 'z, 'k) from_stream_progress \<Rightarrow> bool" where
  "connecting_ok pf sn ed config expected (Suspended (CsHandshake f z i, r, w)) =
     (fut_all (\<lambda>x. \<forall>t peer. x = Inr (t, peer) \<longrightarrow> remote_checked sn ed expected peer) f \<and> drawn_identity pf ed config i)"
| "connecting_ok pf sn ed config expected (Suspended (CsYamux f z i remote, r, w)) =
     (remote_checked sn ed expected remote \<and> drawn_identity pf ed config i)"
| "connecting_ok pf sn ed config expected (Finished (Inr c)) =
     (\<exists>i remote s r w. new_connection ed config i remote s r w = Some c \<and> remote_checked sn ed expected remote \<and>
        drawn_identity pf ed config i)"
| "connecting_ok pf sn ed config expected _ = True"

lemma yamux_phase_ok:
  assumes "poll_yamux_phase pf now ed rd wr config f z i remote r w = Some x"
    and "remote_checked sn ed expected remote" and "drawn_identity pf ed config i"
  shows "connecting_ok pf sn ed config expected x"
proof -
  obtain q f' z' r' w' where t: "timeout_await pf now rd wr f z r w = Some (q, f', z', r', w')"
    using assms(1) by (auto simp: poll_yamux_phase_def split: option.splits)
  with assms show ?thesis
    by (auto simp: poll_yamux_phase_def split: poll.splits sum.splits) blast
qed

lemma handshake_phase_ok:
  assumes "poll_handshake_phase pf now sn ed rd wr fuel config f z i r w = Some x"
    and "fut_all (\<lambda>x. \<forall>t peer. x = Inr (t, peer) \<longrightarrow> remote_checked sn ed expected peer) f"
    and "drawn_identity pf ed config i"
  shows "connecting_ok pf sn ed config expected x"
proof -
  obtain q f' z' r' w' where t: "timeout_await pf now rd wr f z r w = Some (q, f', z', r', w')"
    using assms(1) by (auto simp: poll_handshake_phase_def split: option.splits)
  then obtain p where p: "fut_poll rd wr f r w = Some (p, f', r', w')" "\<forall>a. q = Ready (Inr a) \<longrightarrow> p = Ready a"
    using timeout_await_polls [OF t] by blast
  with fut_poll_all [OF assms(2) p(1)] t assms(1,3) show ?thesis
    by (auto simp: poll_handshake_phase_def split: poll.splits sum.splits intro: yamux_phase_ok)
qed

lemma noise_phase_ok:
  assumes "poll_noise_phase pf now sn ed rd wr fuel config expected f z r w = Some x"
  shows "connecting_ok pf sn ed config expected x"
proof -
  obtain q f' z' r' w' where t: "timeout_await pf now rd wr f z r w = Some (q, f', z', r', w')"
    using assms by (auto simp: poll_noise_phase_def split: option.splits)
  have "drawn_identity pf ed config (connection_identity pf now ed config)" by (auto simp: drawn_identity_def)
  with t assms show ?thesis
    by (auto simp: poll_noise_phase_def Let_def remote_checked_def split: poll.splits sum.splits
        intro: handshake_phase_ok [OF _ handshake_all_checked [folded remote_checked_def]])
qed

lemma connect_step_ok:
  assumes "connect_step pf sn ed rd wr fuel config expected x y" and "connecting_ok pf sn ed config expected x"
  shows "connecting_ok pf sn ed config expected y"
  using assms
proof (cases rule: connect_step.cases)
  case (cs_poll now s)
  obtain st r w where s: "s = (st, r, w)" by (cases s)
  show ?thesis
    using cs_poll s assms(2)
    by (cases st) (auto simp: from_stream_def intro: noise_phase_ok handshake_phase_ok yamux_phase_ok)
next
  case (cs_streams st r w r' w')
  then show ?thesis using assms(2) by (cases st) auto
qed

lemma connect_steps_ok:
  "(connect_step pf sn ed rd wr fuel config expected)\<^sup>*\<^sup>* x y \<Longrightarrow> connecting_ok pf sn ed config expected x \<Longrightarrow>
   connecting_ok pf sn ed config expected y"
  by (induction rule: rtranclp_induct) (auto dest: connect_step_ok)

lemma new_connection_fields:
  assumes "new_connection ed config i remote s r w = Some c"
  shows "fresh_connection c" "their_id c = remote" "Identity_peer_id ed i = Some (our_id c)"
    "connection_tables config = (subscription_details c, request_details c)"
  using assms
  by (auto simp: new_connection_def fresh_connection_def their_id_def our_id_def connection_tables_def split: option.splits)
     blast+

lemma tables_complete:
  fixes subs and reqs :: "'z RequestDetails list"
  assumes "connection_tables config = (subs, reqs)"
  shows "(pid, AnySubscription q) \<in> set (protocols config) \<Longrightarrow>
      \<exists>d \<in> set subs. sd_protocol_id d = subscription_id_from pid \<and> sd_protocol d = q"
    and "(pid, AnyRequest q') \<in> set (protocols config) \<Longrightarrow>
      \<exists>d \<in> set reqs. rq_protocol_id d = request_id_from pid \<and> rq_protocol d = q' \<and>
        rq_timeouts d = map_option timers_new (rp_timeout q')"
proof -
  note tabs = assms [unfolded connection_tables_def prod.inject]
  show "\<exists>d \<in> set subs. sd_protocol_id d = subscription_id_from pid \<and> sd_protocol d = q"
    if "(pid, AnySubscription q) \<in> set (protocols config)"
  proof -
    have "(pid, q) \<in> set (List.map_filter (\<lambda>(pid, p). map_option (Pair pid) (as_subscription p)) (protocols config))"
      using that by (force simp: map_filter_set)
    then show ?thesis by (force simp: tabs [THEN conjunct1, symmetric] subscription_id_from_def)
  qed
  show "\<exists>d \<in> set reqs. rq_protocol_id d = request_id_from pid \<and> rq_protocol d = q' \<and>
        rq_timeouts d = map_option timers_new (rp_timeout q')"
    if "(pid, AnyRequest q') \<in> set (protocols config)"
  proof -
    have "(pid, q') \<in> set (List.map_filter (\<lambda>(pid, p). map_option (Pair pid) (as_request p)) (protocols config))"
      using that by (force simp: map_filter_set)
    then show ?thesis by (force simp: tabs [THEN conjunct2, symmetric] request_id_from_def)
  qed
qed

text \<open>
  (C4) A connection is with the peer it names. However often the future is polled and whatever the
  streams do in between: if connecting succeeds, then the peer identifier of the connection is that
  of a key that signed the remote's noise static key under the libp2p domain, and it is the expected
  one if one was expected; our own identifier is that of the configured (or freshly drawn)
  identity; every configured protocol is in its table under the identifier that \<open>add_protocol\<close>
  returned, once; and nothing has happened on the connection yet.
\<close>

theorem connection_authenticated:
  fixes c :: "(('r, 't) NoiseReadStream, ('w, 't) NoiseWriteStream, 'z) Connection"
  assumes "(connect_step pf sn ed rd wr fuel config expected)\<^sup>*\<^sup>* (Suspended (CsNew, r, w)) (Finished (Inr c))"
    and "configured counter config"
  shows "fresh_connection c \<and> (\<forall>e. expected = Some e \<longrightarrow> their_id c = e) \<and>
    (\<exists>noise msg2 payload noise' remote_static p.
       sn_read_message sn noise msg2 = Inr (payload, noise') \<and>
       sn_get_remote_static sn noise' = Some remote_static \<and> payload_from_protobuf payload = Inr p \<and>
       verify_ed25519 ed (nh_key p) (STATIC_KEY_DOMAIN @ remote_static) (nh_signature p) \<and>
       PeerId_from_ed25519_public_key (nh_key p) = Some (their_id c)) \<and>
    (\<exists>now. Identity_peer_id ed (connection_identity pf now ed config) = Some (our_id c)) \<and>
    distinct (map sd_protocol_id (subscription_details c)) \<and> distinct (map rq_protocol_id (request_details c)) \<and>
    (\<forall>pid q. (pid, AnySubscription q) \<in> set (protocols config) \<longrightarrow>
       (\<exists>d \<in> set (subscription_details c). sd_protocol_id d = subscription_id_from pid \<and> sd_protocol d = q)) \<and>
    (\<forall>pid q. (pid, AnyRequest q) \<in> set (protocols config) \<longrightarrow>
       (\<exists>d \<in> set (request_details c). rq_protocol_id d = request_id_from pid \<and> rq_protocol d = q \<and>
          rq_timeouts d = map_option timers_new (rp_timeout q)))"
proof -
  obtain i remote s r' w' where new: "new_connection ed config i remote s r' w' = Some c"
    and chk: "remote_checked sn ed expected remote" and drawn: "drawn_identity pf ed config i"
    using connect_steps_ok [OF assms(1)] by auto
  note c = new_connection_fields [OF new]
  have dist: "distinct (map (opaque_get \<circ> fst) (protocols config))" using configured_ids [OF assms(2)] by simp
  obtain noise msg2 noise' where "check_remote sn ed expected noise msg2 = Some (Inr (their_id c, noise'))"
    using chk c(2) by (auto simp: remote_checked_def)
  then have "(\<forall>e. expected = Some e \<longrightarrow> their_id c = e) \<and>
    (\<exists>noise msg2 payload noise' remote_static p.
       sn_read_message sn noise msg2 = Inr (payload, noise') \<and>
       sn_get_remote_static sn noise' = Some remote_static \<and> payload_from_protobuf payload = Inr p \<and>
       verify_ed25519 ed (nh_key p) (STATIC_KEY_DOMAIN @ remote_static) (nh_signature p) \<and>
       PeerId_from_ed25519_public_key (nh_key p) = Some (their_id c))"
    by (rule check_remote_authentic) blast
  moreover have "\<exists>now. Identity_peer_id ed (connection_identity pf now ed config) = Some (our_id c)"
    using drawn c(3) by (auto simp: drawn_identity_def)
  ultimately show ?thesis
    using c(1) tables_distinct [OF dist c(4)] tables_complete [OF c(4)] by blast
qed

section \<open>Timeouts\<close>

text \<open>The sleep a suspended future waits for beside its streams.\<close>

primrec phase_sleep :: "('t, 'z, 'k) connecting \<Rightarrow> 'z option" where
  "phase_sleep CsNew = None"
| "phase_sleep (CsNoise f z) = Some z"
| "phase_sleep (CsHandshake f z i) = Some z"
| "phase_sleep (CsYamux f z i remote) = Some z"

definition covered ::
  "('p, 'z) PlatformT \<Rightarrow> 'p \<Rightarrow> Configuration \<Rightarrow> 'z option \<Rightarrow> ('r, 'w, 't, 'z, 'k) from_stream_progress \<Rightarrow> bool" where
  "covered pf now config old x \<longleftrightarrow>
     (\<forall>st r w. x = Suspended (st, r, w) \<longrightarrow>
        (\<exists>z b z'. pf_poll pf now z = (Pending, b, z') \<and> phase_sleep st = Some z' \<and>
           (old = Some z \<or> z = pf_sleep pf now (multistream_timeout config) \<or> z = pf_sleep pf now (noise_timeout config))))"

lemma yamux_phase_covered:
  assumes "poll_yamux_phase pf now ed rd wr config f z i remote r w = Some x"
    and "old = Some z \<or> z = pf_sleep pf now (multistream_timeout config)"
  shows "covered pf now config old x"
proof -
  obtain q f' z' r' w' where t: "timeout_await pf now rd wr f z r w = Some (q, f', z', r', w')"
    using assms(1) by (auto simp: poll_yamux_phase_def split: option.splits)
  with assms timeout_await_cases [OF t] show ?thesis
    by (fastforce simp: poll_yamux_phase_def covered_def split: poll.splits sum.splits)
qed

lemma handshake_phase_covered:
  assumes "poll_handshake_phase pf now sn ed rd wr fuel config f z i r w = Some x"
    and "old = Some z \<or> z = pf_sleep pf now (noise_timeout config)"
  shows "covered pf now config old x"
proof -
  obtain q f' z' r' w' where t: "timeout_await pf now rd wr f z r w = Some (q, f', z', r', w')"
    using assms(1) by (auto simp: poll_handshake_phase_def split: option.splits)
  show ?thesis
  proof (cases "q = Pending")
    case True
    with assms t timeout_await_cases [OF t] show ?thesis
      by (fastforce simp: poll_handshake_phase_def covered_def)
  next
    case False
    with assms(1) t show ?thesis
      by (auto simp: poll_handshake_phase_def split: poll.splits sum.splits dest!: yamux_phase_covered)
         (simp_all add: covered_def)
  qed
qed

lemma noise_phase_covered:
  assumes "poll_noise_phase pf now sn ed rd wr fuel config expected f z r w = Some x"
    and "old = Some z \<or> z = pf_sleep pf now (multistream_timeout config)"
  shows "covered pf now config old x"
proof -
  obtain q f' z' r' w' where t: "timeout_await pf now rd wr f z r w = Some (q, f', z', r', w')"
    using assms(1) by (auto simp: poll_noise_phase_def split: option.splits)
  show ?thesis
  proof (cases "q = Pending")
    case True
    with assms t timeout_await_cases [OF t] show ?thesis
      by (fastforce simp: poll_noise_phase_def covered_def)
  next
    case False
    with assms(1) t show ?thesis
      by (auto simp: poll_noise_phase_def Let_def split: poll.splits sum.splits dest!: handshake_phase_covered)
         (simp_all add: covered_def)
  qed
qed


section \<open>A small run\<close>

text \<open>A remote that agrees to everything, and what connecting to it comes to.\<close>

definition toy_wire :: bytes where
  "toy_wire = dialer_msg MULTISTREAM_HEADER @ dialer_msg (bytes_of ''/noise'') @ noise_frame [9] @
     toy_frame (dialer_msg MULTISTREAM_HEADER @ dialer_msg (bytes_of ''/yamux/1.0.0''))"

lemma observe_Ready:
  "observe (fut_poll rd wr f r w) = Some (Ready a, r', w') \<Longrightarrow>
   fut_poll rd wr f r w = Some (Ready a, Complete a, r', w')"
  by (auto simp: observe_def dest: fut_poll_Ready)

lemma toy_yamux:
  assumes "ms_read_buf r = toy_frame (dialer_msg MULTISTREAM_HEADER @ dialer_msg (bytes_of ''/yamux/1.0.0''))"
  obtains s g r' w' where "fut_poll mock_read_exact mock_write_all (yamux_future (toy_snow payload) 40000 (1, 2)) r w =
    Some (Ready (Inr (), s), g, r', w')"
proof -
  define p where "p = bytes_of ''/yamux/1.0.0''"
  define pt where "pt = dialer_msg MULTISTREAM_HEADER @ dialer_msg p @ []"
  have ne: "p \<noteq> bytes_of ''na''" and len: "length p < 16384" by (simp_all add: p_def bytes_of_def)
  obtain w1 where w1: "mock_write_all mock_new (dialer_msg MULTISTREAM_HEADER @ dialer_msg p) = (Ready (Inr ()), w1)"
    by (simp add: mock_write_all_def)
  let ?plain = "mock_extend pt mock_new"
  obtain r1 where "negotiate_dialer mock_read_exact mock_write_all p ?plain mock_new = Some (Ready (Inr ()), r1, w1)"
    by (rule mock.negotiate_accepts [where wr = mock_write_all, OF _ len ne w1]) (auto simp: pt_def mock_new_def)
  then have run: "fut_poll mock_read_exact mock_write_all (negotiate_future p) ?plain mock_new =
      Some (Ready (Inr ()), Complete (Inr ()), r1, w1)"
    by (intro observe_Ready) (simp only: poll_negotiate)
  have "length pt \<le> 100" by (simp add: pt_def p_def dialer_msg_def bytes_of_def MULTISTREAM_HEADER_def varint_bytes.simps)
  moreover have "pt \<noteq> []" by (simp add: pt_def dialer_msg_def)
  ultimately have src: "noise_source duplex_read ms_read_buf \<lparr>nr_reader = r, nr_read_buf = [], nr_transport = (1, 2)\<rparr>
      (ms_read_buf ?plain)"
    using toy_source [of r pt] assms
    by (simp add: pt_def p_def mock_new_def MAX_PLAINTEXT_def MAX_NOISE_MSG_def)
  from over_noise_plain [OF duplex_tags _ reads_within_negotiate run src, of 40000 1 w] that show ?thesis
    unfolding yamux_future_def p_def by (auto simp: toy_snow_def)
qed

lemma toy_agrees:
  assumes "ms_read_buf r = toy_wire"
  obtains payload peer s g r' w' where
    "fut_poll mock_read_exact mock_write_all (remaining (toy_snow payload) toy_ed25519 40000 None i CsNew) r mock_new =
       Some (Ready (Inr (i, peer, s)), g, r', w')"
proof -
  define pn where "pn = bytes_of ''/noise''"
  have ne: "pn \<noteq> bytes_of ''na''" and len: "length pn < 16384" by (simp_all add: pn_def bytes_of_def)
  obtain w1 where w1: "mock_write_all mock_new (dialer_msg MULTISTREAM_HEADER @ dialer_msg pn) = (Ready (Inr ()), w1)"
    by (simp add: mock_write_all_def)
  let ?yw = "toy_frame (dialer_msg MULTISTREAM_HEADER @ dialer_msg (bytes_of ''/yamux/1.0.0''))"
  obtain r1 where n1: "negotiate_dialer mock_read_exact mock_write_all pn r mock_new = Some (Ready (Inr ()), r1, w1)"
    and r1: "ms_read_buf r1 = noise_frame [9] @ ?yw"
    by (rule mock.negotiate_accepts [where wr = mock_write_all, OF _ len ne w1])
       (use assms in \<open>simp add: toy_wire_def pn_def\<close>)
  obtain payload peer r2 w2 where hs: "handshake_dialer (toy_snow payload) toy_ed25519 mock_read_exact
      mock_write_all i None r1 w1 = Some (Ready (Inr ((1, 2), peer)), r2, w2)"
    and r2: "ms_read_buf r2 = ?yw"
    by (rule toy_handshake [OF r1])
  obtain s g r3 w3 where "fut_poll mock_read_exact mock_write_all (yamux_future (toy_snow payload) 40000 (1, 2)) r2 w2 =
      Some (Ready (Inr (), s), g, r3, w3)"
    by (rule toy_yamux [OF r2])
  moreover have "fut_poll mock_read_exact mock_write_all (negotiate_future pn) r mock_new =
      Some (Ready (Inr ()), Complete (Inr ()), r1, w1)"
    by (intro observe_Ready) (simp only: poll_negotiate n1)
  moreover have "fut_poll mock_read_exact mock_write_all (handshake_future (toy_snow payload) toy_ed25519 i None) r1 w1 =
      Some (Ready (Inr ((1, 2), peer)), Complete (Inr ((1, 2), peer)), r2, w2)"
    by (intro observe_Ready) (simp only: poll_handshake hs)
  ultimately show ?thesis
    by (intro that [of payload peer s _ r3 w3])
       (simp add: fut_poll_bind after_noise_def after_handshake_def after_yamux_def pn_def)
qed

lemma toy_identity: "connection_identity pf now toy_ed25519 cfg = connection_identity pf' now' toy_ed25519 cfg'"
  by (simp add: connection_identity_def Identity_from_random_bytes_def toy_ed25519_def split: option.split)

lemma toy_concludes: "\<exists>c. conclude toy_ed25519 cfg (Inr (i, peer, s)) r w = Some (Inr c)"
  using peer_id_of_key [of "replicate 32 7"]
  by (auto simp: conclude_def new_connection_def Identity_peer_id_def public_key_bytes_def toy_ed25519_def
      split: prod.split)

lemma toy_waits:
  "\<exists>f w. fut_poll mock_read_exact mock_write_all (negotiate_future (bytes_of ''/noise'')) mock_new mock_new =
      Some (Pending, f, mock_new, w)"
  by (simp add: negotiate_future_def encode_msg_eq fut_of_option_def fut_poll_try mock_write_all_def [of mock_new]
      read_msg_future_def decode_future.simps) (simp add: mock_read_exact_def mock_new_def)

text \<open>The future is polled before anything has arrived, and again when everything has.\<close>

lemma toy_run:
  assumes "0 < multistream_timeout cfg"
  obtains payload and c :: "((MockStream, u8 \<times> u8) NoiseReadStream, (MockStream, u8 \<times> u8) NoiseWriteStream, nat) Connection"
    and st :: "(u8 \<times> u8, nat, unit) connecting" and w where
    "from_stream (clock_platform False) 0 (toy_snow payload) toy_ed25519 mock_read_exact mock_write_all 40000 cfg None
       (CsNew, mock_new, mock_new) = Some (Suspended (st, mock_new, w))"
    "from_stream (clock_platform False) 1 (toy_snow payload) toy_ed25519 mock_read_exact mock_write_all 40000 cfg None
       (st, mock_extend toy_wire mock_new, w) = Some (Finished (Inr c))"
proof -
  let ?pf = "clock_platform False" and ?i = "connection_identity (clock_platform False) 0 toy_ed25519 cfg"
  let ?new = "CsNew :: (u8 \<times> u8, nat, unit) connecting"
  obtain payload peer s g r' w' where all: "fut_poll mock_read_exact mock_write_all
      (remaining (toy_snow payload) toy_ed25519 40000 None ?i ?new) (mock_extend toy_wire mock_new) mock_new =
      Some (Ready (Inr (?i, peer, s)), g, r', w')"
    by (rule toy_agrees [of "mock_extend toy_wire mock_new" ?i]) (simp_all add: mock_new_def)
  let ?sn = "toy_snow payload"
  from toy_waits obtain st :: "(u8 \<times> u8, nat, unit) connecting" and w where
    first: "from_stream ?pf 0 ?sn toy_ed25519 mock_read_exact mock_write_all 40000 cfg None
       (CsNew, mock_new, mock_new) = Some (Suspended (st, mock_new, w))"
    using assms by (auto simp: from_stream_def poll_noise_phase_def timeout_await_def timeout_poll_def clock_platform_def)
  have "fut_poll mock_read_exact mock_write_all (remaining ?sn toy_ed25519 40000 None ?i ?new) mock_new mock_new =
      Some (Pending, remaining ?sn toy_ed25519 40000 None ?i st, mock_new, w)"
    using from_stream_follows [OF first refl] by (simp add: follows_def)
  from mock_res.fut_resume [OF _ this, of toy_wire] all
  have "fut_poll mock_read_exact mock_write_all (remaining ?sn toy_ed25519 40000 None ?i st)
      (mock_extend toy_wire mock_new) w = Some (Ready (Inr (?i, peer, s)), g, r', w')"
    by (simp add: mock_write_all_def)
  note fin = from_stream_ready [OF this toy_identity, where pf = ?pf and now = 1 and config = cfg]
  obtain c :: "((MockStream, u8 \<times> u8) NoiseReadStream, (MockStream, u8 \<times> u8) NoiseWriteStream, nat) Connection" where
    "conclude toy_ed25519 cfg (Inr (?i, peer, s)) r' w' = Some (Inr c)"
    using toy_concludes [of cfg ?i peer s r' w'] ..
  with fin first show ?thesis by (intro that [of payload st w c]) simp_all
qed


theorem connection_authenticated_witness:
  "\<exists>payload (c :: ((MockStream, u8 \<times> u8) NoiseReadStream, (MockStream, u8 \<times> u8) NoiseWriteStream, nat) Connection).
     (connect_step (clock_platform False) (toy_snow payload) toy_ed25519 mock_read_exact mock_write_all 40000
        (snd (snd (add_request_protocol (RequestProtocol_new (bytes_of ''/req'')) 0 Configuration_default))) None)\<^sup>*\<^sup>*
       (Suspended (CsNew, mock_new, mock_new)) (Finished (Inr c)) \<and>
     (\<exists>d \<in> set (request_details c). rq_protocol_id d = RequestProtocolId 0)"
proof -
  define q where "q = RequestProtocol_new (bytes_of ''/req'')"
  define cfg where "cfg = snd (snd (add_request_protocol q 0 Configuration_default))"
  let ?pf = "clock_platform False"
  have add: "add_request_protocol q 0 Configuration_default = (RequestProtocolId 0, 1, cfg)"
    by (simp add: cfg_def add_protocol_def OpaqueId_new_def request_id_from_def usize_max_def)
  have "0 < multistream_timeout cfg"
    by (simp add: cfg_def add_protocol_def OpaqueId_new_def Configuration_default_def from_secs_def)
  then obtain payload st w and c :: "((MockStream, u8 \<times> u8) NoiseReadStream, (MockStream, u8 \<times> u8) NoiseWriteStream, nat) Connection"
    where polls: "from_stream ?pf 0 (toy_snow payload) toy_ed25519 mock_read_exact mock_write_all 40000 cfg None
       (CsNew, mock_new, mock_new) = Some (Suspended (st, mock_new, w))"
      "from_stream ?pf 1 (toy_snow payload) toy_ed25519 mock_read_exact mock_write_all 40000 cfg None
       (st, mock_extend toy_wire mock_new, w) = Some (Finished (Inr c))"
    by (rule toy_run)
  let ?step = "connect_step ?pf (toy_snow payload) toy_ed25519 mock_read_exact mock_write_all 40000 cfg None"
  have "?step (Suspended (CsNew, mock_new, mock_new)) (Suspended (st, mock_new, w))" by (rule cs_poll [OF polls(1)])
  moreover have "?step (Suspended (st, mock_new, w)) (Suspended (st, mock_extend toy_wire mock_new, w))"
    by (rule cs_streams)
  moreover have "?step (Suspended (st, mock_extend toy_wire mock_new, w)) (Finished (Inr c))" by (rule cs_poll [OF polls(2)])
  ultimately have run: "?step\<^sup>*\<^sup>* (Suspended (CsNew, mock_new, mock_new)) (Finished (Inr c))"
    by (meson converse_rtranclp_into_rtranclp rtranclp.rtrancl_refl)
  have "configured 1 cfg" by (rule cf_request [OF cf_new _ add]) (simp add: usize_max_def)
  from connection_authenticated [OF run this] have "\<exists>d \<in> set (request_details c). rq_protocol_id d = RequestProtocolId 0"
    by (auto simp: cfg_def add_protocol_def OpaqueId_new_def request_id_from_def Configuration_default_def)
  with run show ?thesis unfolding cfg_def [symmetric] q_def [symmetric] by blast
qed


end
