(* ===== verification/Programs.thy ===== *)
theory Programs
  imports LightClientTrust FromStream
begin

text \<open>
  The programs: the examples \<open>assethub-balance\<close> and \<open>assethub-timestamp\<close> and the demo of \<open>warp-sync\<close>,
  from their command line to what they print. \<open>attempt_step\<close> is their outer loop with everything in
  it: the round robin over the boot nodes, \<open>TcpStream::connect\<close>, the polls of \<open>Configuration::connect\<close>,
  the subscription, the loop over the messages, and the pauses. It refines \<open>client_step\<close>, in
  which the connection of an attempt is arbitrary. \<open>tokio\<close> is the parameter \<open>Host\<close>: the TCP streams
  and what reading and writing through the noise streams on top of them does.
\<close>

section \<open>Constants\<close>

definition GENESIS_HASH :: bytes where
  "GENESIS_HASH =
     [0x91, 0xb1, 0x71, 0xbb, 0x15, 0x8e, 0x2d, 0x38, 0x48, 0xfa, 0x23, 0xa9, 0xf1, 0xc2, 0x51, 0x82,
      0xfb, 0x8e, 0x20, 0x31, 0x3b, 0x2c, 0x1e, 0xb4, 0x92, 0x19, 0xda, 0x7a, 0x70, 0xce, 0x90, 0xc3]"

definition ASSETHUB_GENESIS_HASH :: bytes where
  "ASSETHUB_GENESIS_HASH =
     [0x68, 0xd5, 0x6f, 0x15, 0xf8, 0x5d, 0x31, 0x36, 0x97, 0x0e, 0xc1, 0x69, 0x46, 0x04, 0x0b, 0xc1,
      0x75, 0x26, 0x54, 0xe9, 0x06, 0x14, 0x7f, 0x7e, 0x43, 0xe9, 0xd5, 0x39, 0xd7, 0xc3, 0xde, 0x2f]"

definition ASSETHUB_PARA_ID :: u32 where
  "ASSETHUB_PARA_ID = 1000"

definition RELAY_BOOTNODES :: "(string \<times> u16) list" where
  "RELAY_BOOTNODES =
     [(''polkadot-bootnode-1.polkadot.io'', 30333),
      (''polkadot-bootnode-0.polkadot.io'', 30333),
      (''boot-node.helikon.io'', 7070)]"

definition ASSETHUB_BOOTNODES :: "(string \<times> u16) list" where
  "ASSETHUB_BOOTNODES =
     [(''polkadot-asset-hub-connect-0.polkadot.io'', 30334),
      (''polkadot-asset-hub-connect-1.polkadot.io'', 30334),
      (''boot-node.helikon.io'', 10220),
      (''statemint-bootnode.turboflakes.io'', 30315),
      (''asset-hub-polkadot.bootnode.amforc.com'', 30007)]"

section \<open>The outer loop\<close>

record ('p, 'z, 'h, 't, 'k, 'r, 'w) Host =
  ho_platform :: "('p, 'z) PlatformT"
  ho_snow :: "('h, 't) Snow"
  ho_ed25519 :: "'k Ed25519"
  ho_tcp_read :: "'r read_op"
  ho_tcp_write :: "'w write_op"
  ho_noise_read :: "('r, 't) NoiseReadStream read_op"
  ho_noise_write :: "('w, 't) NoiseWriteStream write_op"
  ho_slack :: "bytes \<Rightarrow> nat"
  ho_fuel :: nat

text \<open>
  \<open>bootnodes[bootnode_n % bootnodes.len()]\<close>; \<open>None\<close> is the panic of the remainder or of the index.
\<close>

definition bootnode :: "'a list \<Rightarrow> nat \<Rightarrow> 'a option" where
  "bootnode nodes n = (if nodes = [] then None else Some (nodes ! (n mod length nodes)))"

text \<open>
  Where the loop is: \<open>AtDial n\<close> at its top with \<open>bootnode_n = n\<close>; \<open>AtConnecting n addr s\<close> in
  \<open>config.connect(..).await\<close> of attempt \<open>n\<close>, with the future and the streams in \<open>s\<close>; \<open>AtRunning n\<close> in
  the loop over the messages, with \<open>bootnode_n = n\<close>; \<open>AtSleeping n d\<close> in \<open>tokio::time::sleep\<close> for \<open>d\<close>.
\<close>

datatype ('s, 'c, 'x, 'a) attempt =
    AtDial nat 'x
  | AtConnecting nat "string \<times> u16" 's 'x
  | AtRunning nat "string \<times> u16" "nat option" 'c 'x
  | AtSleeping nat duration 'x
  | AtReturned "client_error + 'a"

text \<open>
  What a program does about errors: the examples retry after two seconds when a connection does
  not come up and after ten when an attempt fails; the demo returns the errors of connecting, and
  those of an attempt unless they are in \<open>demo_retries\<close>.
\<close>

record policy =
  po_dial :: "duration option"
  po_retries :: "client_error \<Rightarrow> bool"

definition example_policy :: policy where
  "example_policy = \<lparr>po_dial = Some (from_secs 2), po_retries = (\<lambda>_. True)\<rparr>"

definition demo_policy :: policy where
  "demo_policy = \<lparr>po_dial = None, po_retries = demo_retries\<rparr>"

definition dial_failed :: "policy \<Rightarrow> nat \<Rightarrow> client_error \<Rightarrow> 'x \<Rightarrow> ('s, 'c, 'x, 'a) attempt" where
  "dial_failed po n e x = (case po_dial po of Some d \<Rightarrow> AtSleeping (Suc n) d x | None \<Rightarrow> AtReturned (Inl e))"

definition attempt_failed :: "policy \<Rightarrow> nat \<Rightarrow> client_error \<Rightarrow> 'x \<Rightarrow> ('s, 'c, 'x, 'a) attempt" where
  "attempt_failed po n e x = (if po_retries po e then AtSleeping n (from_secs 10) x else AtReturned (Inl e))"

type_synonym ('r, 'w, 't, 'z) noise_connection =
  "(('r, 't) NoiseReadStream, ('w, 't) NoiseWriteStream, 'z) Connection"

inductive attempt_step ::
  "('p, 'z, 'h, 't, 'k, 'r, 'w) Host \<Rightarrow> policy \<Rightarrow> (string \<times> u16) list \<Rightarrow> Configuration
     \<Rightarrow> SubscriptionProtocolId \<Rightarrow> ('x \<Rightarrow> 'x)
     \<Rightarrow> ('p \<Rightarrow> Message \<Rightarrow> ('r, 'w, 't, 'z) noise_connection \<times> 'x
          \<Rightarrow> ('a flow \<times> ('r, 'w, 't, 'z) noise_connection \<times> 'x) option)
     \<Rightarrow> (('t, 'z, 'k) connecting \<times> 'r \<times> 'w, ('r, 'w, 't, 'z) noise_connection, 'x, 'a) attempt
     \<Rightarrow> (('t, 'z, 'k) connecting \<times> 'r \<times> 'w, ('r, 'w, 't, 'z) noise_connection, 'x, 'a) attempt \<Rightarrow> bool"
  for H po nodes config announce start handler where
  at_tcp_failed: "bootnode nodes n = Some addr \<Longrightarrow>
    attempt_step H po nodes config announce start handler (AtDial n x) (dial_failed po n (ClTcp e) x)"
| at_tcp: "bootnode nodes n = Some addr \<Longrightarrow>
    attempt_step H po nodes config announce start handler (AtDial n x) (AtConnecting n addr (CsNew, r, w) x)"
| at_streams: "attempt_step H po nodes config announce start handler
    (AtConnecting n addr (st, r, w) x) (AtConnecting n addr (st, r', w') x)"
| at_connecting: "connect (ho_platform H) now (ho_snow H) (ho_ed25519 H) (ho_tcp_read H) (ho_tcp_write H) (ho_fuel H)
      config s = Some (Suspended s') \<Longrightarrow>
    attempt_step H po nodes config announce start handler (AtConnecting n addr s x) (AtConnecting n addr s' x)"
| at_connect_failed: "connect (ho_platform H) now (ho_snow H) (ho_ed25519 H) (ho_tcp_read H) (ho_tcp_write H) (ho_fuel H)
      config s = Some (Finished (Inl e)) \<Longrightarrow>
    attempt_step H po nodes config announce start handler (AtConnecting n addr s x)
      (dial_failed po n (ClConnection e) x)"
| at_connected: "connect (ho_platform H) now (ho_snow H) (ho_ed25519 H) (ho_tcp_read H) (ho_tcp_write H) (ho_fuel H)
      config s = Some (Finished (Inr c)) \<Longrightarrow> conn_subscribe announce c = Some (Inr (), c') \<Longrightarrow>
    attempt_step H po nodes config announce start handler (AtConnecting n addr s x)
      (AtRunning (Suc n) addr None c' (start x))"
| at_refused: "connect (ho_platform H) now (ho_snow H) (ho_ed25519 H) (ho_tcp_read H) (ho_tcp_write H) (ho_fuel H)
      config s = Some (Finished (Inr c)) \<Longrightarrow> conn_subscribe announce c = Some (Inl e, c') \<Longrightarrow>
    attempt_step H po nodes config announce start handler (AtConnecting n addr s x) (AtReturned (Inl (ClConnection e)))"
| at_pending: "client_poll (ho_platform H) clk (ho_noise_read H) (ho_noise_write H) (ho_slack H) fuel k m handler j fut (c, x) =
      Done (Pending, fut', c', x') \<Longrightarrow>
    attempt_step H po nodes config announce start handler (AtRunning n addr fut c x) (AtRunning n addr fut' c' x')"
| at_finished: "client_poll (ho_platform H) clk (ho_noise_read H) (ho_noise_write H) (ho_slack H) fuel k m handler j fut (c, x) =
      Done (Ready (Inr a), fut', c', x') \<Longrightarrow>
    attempt_step H po nodes config announce start handler (AtRunning n addr fut c x) (AtReturned (Inr a))"
| at_failed: "client_poll (ho_platform H) clk (ho_noise_read H) (ho_noise_write H) (ho_slack H) fuel k m handler j fut (c, x) =
      Done (Ready (Inl e), fut', c', x') \<Longrightarrow>
    attempt_step H po nodes config announce start handler (AtRunning n addr fut c x) (attempt_failed po n e x')"
| at_wake: "attempt_step H po nodes config announce start handler
    (AtRunning n addr fut c x) (AtRunning n addr fut (conn_wake j c) x)"
| at_transport: "attempt_step H po nodes config announce start handler
    (AtRunning n addr fut c x) (AtRunning n addr fut (conn_set_reader r c) x)"
| at_slept: "attempt_step H po nodes config announce start handler (AtSleeping n d x) (AtDial n x)"

text \<open>The runs of the loop from its first iteration.\<close>

definition attempts where
  "attempts H po nodes config announce start handler x0 result \<longleftrightarrow>
     (attempt_step H po nodes config announce start handler)\<^sup>*\<^sup>* (AtDial 0 x0) (AtReturned result)"

section \<open>Refinement\<close>

primrec client_of :: "('s, 'c, 'x, 'a) attempt \<Rightarrow> ('c, 'x, 'a) client" where
  "client_of (AtDial n x) = ClConnecting n x"
| "client_of (AtConnecting n addr s x) = ClConnecting n x"
| "client_of (AtRunning n addr fut c x) = ClRunning n fut c x"
| "client_of (AtSleeping n d x) = ClConnecting n x"
| "client_of (AtReturned r) = ClReturned r"

lemma attempt_refines:
  assumes "attempt_step H example_policy nodes config announce start handler s t"
  shows "client_of s = client_of t \<or>
    client_step (ho_platform H) (ho_noise_read H) (ho_noise_write H) (ho_slack H) announce start handler
      (client_of s) (client_of t)"
  using assms
  by cases (auto simp: example_policy_def dial_failed_def attempt_failed_def intro: client_step.intros)

lemma attempts_refine:
  "(attempt_step H example_policy nodes config announce start handler)\<^sup>*\<^sup>* s t \<Longrightarrow>
   (client_step (ho_platform H) (ho_noise_read H) (ho_noise_write H) (ho_slack H) announce start handler)\<^sup>*\<^sup>*
     (client_of s) (client_of t)"
proof (induction rule: rtranclp_induct)
  case (step t u)
  from attempt_refines [OF step(2)] step(3) show ?case by (auto intro: rtranclp.rtrancl_into_rtrancl)
qed simp

text \<open>Every connection is to the node whose turn it is.\<close>

fun at_node :: "(string \<times> u16) list \<Rightarrow> ('s, 'c, 'x, 'a) attempt \<Rightarrow> bool" where
  "at_node nodes (AtConnecting n addr s x) = (bootnode nodes n = Some addr)"
| "at_node nodes (AtRunning n addr fut c x) = (0 < n \<and> bootnode nodes (n - 1) = Some addr)"
| "at_node nodes _ = True"

lemma attempt_at_node:
  "attempt_step H po nodes config announce start handler s t \<Longrightarrow> at_node nodes s \<Longrightarrow> at_node nodes t"
  by (induction rule: attempt_step.induct)
     (auto simp: dial_failed_def attempt_failed_def split: option.splits)

lemma attempts_at_node:
  "(attempt_step H po nodes config announce start handler)\<^sup>*\<^sup>* s t \<Longrightarrow> at_node nodes s \<Longrightarrow> at_node nodes t"
  by (induction rule: rtranclp_induct) (auto dest: attempt_at_node)

text \<open>The argument of \<open>LightClientTrust\<close> for a handler holds for the whole loop, whatever its policy.\<close>

locale noise_handler = message_handler handler start keeps good
  for handler :: "'p \<Rightarrow> Message \<Rightarrow> ('r, 'w, 't, 'z) noise_connection \<times> 'x
      \<Rightarrow> ('a flow \<times> ('r, 'w, 't, 'z) noise_connection \<times> 'x) option"
    and start keeps good
begin

lemma attempt_handled:
  "attempt_step H po nodes config announce start handler s t \<Longrightarrow> client_ok (client_of s) \<Longrightarrow> client_ok (client_of t)"
  by (induction rule: attempt_step.induct)
     (auto simp: dial_failed_def attempt_failed_def intro: started dest!: poll_handled split: option.splits)

lemma attempts_good:
  assumes "attempts H po nodes config announce start handler x (Inr a)" and "keeps x"
  shows "good a"
proof -
  have "(attempt_step H po nodes config announce start handler)\<^sup>*\<^sup>* s t \<Longrightarrow> client_ok (client_of s) \<Longrightarrow>
      client_ok (client_of t)" for s t
    by (induction rule: rtranclp_induct) (auto dest: attempt_handled)
  from this [OF assms(1) [unfolded attempts_def]] assms(2) show ?thesis by simp
qed

end

text \<open>The demo ends well only on a chain of trust from its checkpoint.\<close>

definition demo_on_chain :: "'k WarpLib \<Rightarrow> GrandpaState \<Rightarrow> GrandpaState \<Rightarrow> bool" where
  "demo_on_chain L g0 g \<longleftrightarrow> on_chain L g0 (g, False)"

lemma demo_keeps:
  assumes "demo_on_message pf L ids now msg (c, g) = Some (f, c', g')" and "demo_on_chain L g0 g"
  shows "demo_on_chain L g0 g' \<and> (\<forall>a. f = FlReturn a \<longrightarrow> a = g')"
  using assms on_chain_update [where L = L and ?g0.0 = g0 and g = g and d = False and d' = False]
  unfolding demo_on_message_def demo_on_chain_def
  by (auto split: Message.splits SubscriptionResponse.splits RequestResponse.splits if_splits sum.splits
      prod.splits bool.splits dest!: client_request_keeps)

interpretation demo: noise_handler "demo_on_message pf L ids" "\<lambda>g. g" "demo_on_chain L g0" "demo_on_chain L g0"
  by unfold_locales (auto dest: demo_keeps)

interpretation relay_program: noise_handler "relay_on_message pf L S ids key" "\<lambda>(g, _). (g, False)"
  "on_chain L g0" "head_proven L S key g0" ..

interpretation fetch_program: noise_handler "fetch_on_message pf S ids decode_value key head_hash root" "\<lambda>u. u"
  "\<lambda>_. True" "value_proven S decode_value key root" ..

section \<open>The connections of the programs\<close>

text \<open>
  What a program does with a connection is a run of that connection in the sense of
  \<open>ConnectionRuns\<close>, so that what holds in all such runs holds in the programs.
\<close>

definition conn_reached ::
  "('p, 'z) PlatformT \<Rightarrow> 'r read_op \<Rightarrow> 'w write_op \<Rightarrow> (bytes \<Rightarrow> nat) \<Rightarrow> ('r, 'w, 'z) Connection \<Rightarrow> nat option \<Rightarrow> bool" where
  "conn_reached pf rd wr sl c fut \<longleftrightarrow>
     (\<exists>c0 ls. fresh_connection c0 \<and> trace (conn_step pf rd wr sl) (c0, None) ls (c, fut))"

lemma reached_step: "conn_reached pf rd wr sl c fut \<Longrightarrow> conn_step pf rd wr sl (c, fut) l (c', fut') \<Longrightarrow> conn_reached pf rd wr sl c' fut'"
  unfolding conn_reached_def by (blast intro: trace_step)

lemma reached_fresh: "fresh_connection c \<Longrightarrow> conn_reached pf rd wr sl c None"
  unfolding conn_reached_def by (blast intro: trace_nil)

lemma reached_request:
  assumes "client_request pf now pid req (c, x) = Some (f, c', x')" and "conn_reached pf rd wr sl c fut"
  shows "conn_reached pf rd wr sl c' None"
proof (cases "conn_request pf now pid req c")
  case (Some y)
  obtain res c1 where y: "y = (res, c1)" by (cases y)
  have "\<exists>l. conn_step pf rd wr sl (c, fut) l (c1, None)"
  proof (cases res)
    case (Inr rid)
    obtain i where "rid = RequestId i" by (cases rid)
    with Some y Inr show ?thesis by (auto intro: cs_request)
  qed (use Some y in \<open>auto intro: cs_request_err\<close>)
  with reached_step [OF assms(2)] assms(1) Some y show ?thesis
    by (auto simp: client_request_def split: sum.splits)
qed (use assms(1) in \<open>simp add: client_request_def\<close>)

locale connection_user =
  fixes pf :: "('p, 'z) PlatformT" and rd :: "'r read_op" and wr :: "'w write_op" and sl
    and handler :: "'p \<Rightarrow> Message \<Rightarrow> ('r, 'w, 'z) Connection \<times> 'x \<Rightarrow> ('a flow \<times> ('r, 'w, 'z) Connection \<times> 'x) option"
  assumes uses: "handler now msg (c, x) = Some (f, c', x') \<Longrightarrow> conn_reached pf rd wr sl c None \<Longrightarrow>
    conn_reached pf rd wr sl c' None"
begin

lemma poll_reached:
  "client_poll pf clk rd wr sl fuel k n handler m fut (c, x) = Done (p, fut', c', x') \<Longrightarrow>
   conn_reached pf rd wr sl c fut \<Longrightarrow> conn_reached pf rd wr sl c' fut'"
proof (induction m arbitrary: fut c x)
  case (Suc m)
  show ?case
  proof (cases "conn_next pf (clk m) rd wr sl fuel k n fut c")
    case (Done out)
    obtain q fut1 c1 where out: "out = (q, fut1, c1)" by (cases out)
    have c1: "conn_reached pf rd wr sl c1 fut1"
      by (rule reached_step [OF Suc.prems(2) cs_next]) (use Done out in simp)
    have c1n: "conn_reached pf rd wr sl c1 None" by (rule reached_step [OF c1 cs_drop])
    show ?thesis
    proof (cases "\<exists>msg. q = Ready (Some (Inr msg))")
      case False
      with Suc.prems Done out c1 c1n show ?thesis by (auto split: poll.splits option.splits sum.splits)
    next
      case True
      then obtain msg where q: "q = Ready (Some (Inr msg))" by blast
      show ?thesis
      proof (cases "handler (clk m 0) msg (c1, x)")
        case (Some fs)
        obtain f c2 x2 where fs: "fs = (f, c2, x2)" by (cases fs)
        have c2: "conn_reached pf rd wr sl c2 None" using uses Some fs c1n by blast
        with Suc.prems Done out q Some fs show ?thesis by (cases f) (auto intro: Suc.IH)
      qed (use Suc.prems Done out q in simp)
    qed
  qed (use Suc.prems in simp_all)
qed simp

end

lemmas handler_splits = Message.splits SubscriptionResponse.splits RequestResponse.splits if_splits sum.splits
  prod.splits bool.splits

interpretation relay_user: connection_user pf rd wr sl "relay_on_message pf L S ids key"
  by unfold_locales (auto simp: relay_on_message_def split: handler_splits intro: reached_request)

interpretation fetch_user: connection_user pf rd wr sl "fetch_on_message pf S ids decode_value key head_hash root"
  by unfold_locales (auto simp: fetch_on_message_def split: handler_splits intro: reached_request)

interpretation demo_user: connection_user pf rd wr sl "demo_on_message pf L ids"
  by unfold_locales (auto simp: demo_on_message_def split: handler_splits intro: reached_request)

text \<open>Only a new connection is handed out by \<open>connect\<close>.\<close>

lemma from_stream_new:
  assumes "from_stream pf now sn ed rd wr fuel config expected s = Some (Finished (Inr c))"
  shows "\<exists>i remote t r w. new_connection ed config i remote t r w = Some c"
  using assms
  by (auto simp: from_stream_def poll_noise_phase_def poll_handshake_phase_def poll_yamux_phase_def Let_def
      split: prod.splits connecting.splits option.splits poll.splits sum.splits) blast+

lemma from_stream_fresh:
  "from_stream pf now sn ed rd wr fuel config expected s = Some (Finished (Inr c)) \<Longrightarrow> fresh_connection c"
  by (drule from_stream_new) (blast intro: new_connection_fields(1))

lemma reached_subscribe:
  assumes "fresh_connection c" and "conn_subscribe spid c = Some (res, c')"
  shows "conn_reached pf rd wr sl c' None"
  by (rule reached_step [OF reached_fresh [OF assms(1)] cs_subscribe [OF assms(2)]])

fun runs_connection :: "('p, 'z, 'h, 't, 'k, 'r, 'w) Host \<Rightarrow> ('s, ('r, 'w, 't, 'z) noise_connection, 'x, 'a) attempt \<Rightarrow> bool" where
  "runs_connection H (AtRunning n addr fut c x) =
     conn_reached (ho_platform H) (ho_noise_read H) (ho_noise_write H) (ho_slack H) c fut"
| "runs_connection H _ = True"

lemma attempt_runs:
  assumes "connection_user (ho_platform H) (ho_noise_read H) (ho_noise_write H) (ho_slack H) handler"
    and "attempt_step H po nodes config announce start handler s t" and "runs_connection H s"
  shows "runs_connection H t"
  using assms(2, 3)
  by (cases rule: attempt_step.cases)
     (auto simp: dial_failed_def attempt_failed_def connect_def
       intro: connection_user.poll_reached [OF assms(1)] reached_subscribe [OF from_stream_fresh]
         reached_step [OF _ cs_wake] reached_step [OF _ cs_transport] split: option.splits)

section \<open>The programs\<close>

datatype main_error = MeUsage | MeAddress address_error | MeClient client_error

text \<open>
  The two functions with their configuration, the checkpoint and the nodes. \<open>json\<close> is the bundled
  file, \<open>n0\<close> the process-wide counter of protocol identifiers.
\<close>

definition learn_assethub_head where
  "learn_assethub_head H L S decode_prefix J json n0 result \<longleftrightarrow>
     (case relay_config S GENESIS_HASH n0 of
        (ids, _, config) \<Rightarrow>
          (case checkpoint_load L (decode_header S) decode_prefix J json of
             Inl e \<Rightarrow> result = Inl (ClCheckpoint e)
           | Inr grandpa_state \<Rightarrow>
               attempts H example_policy RELAY_BOOTNODES config (block_announce_id ids) (\<lambda>(g, _). (g, False))
                 (relay_on_message (ho_platform H) L S ids (paras_heads_key S ASSETHUB_PARA_ID))
                 (grandpa_state, False) result))"

definition fetch_assethub_account_info where
  "fetch_assethub_account_info H S n0 account_id head_hash root result \<longleftrightarrow>
     (case fetch_config S ASSETHUB_GENESIS_HASH n0 of
        (ids, _, config) \<Rightarrow>
          attempts H example_policy ASSETHUB_BOOTNODES config (fst ids) (\<lambda>u. u)
            (account_on_message (ho_platform H) S ids account_id head_hash root) () result)"

definition fetch_assethub_timestamp where
  "fetch_assethub_timestamp H S n0 head_hash root result \<longleftrightarrow>
     (case fetch_config S ASSETHUB_GENESIS_HASH n0 of
        (ids, _, config) \<Rightarrow>
          attempts H example_policy ASSETHUB_BOOTNODES config (fst ids) (\<lambda>u. u)
            (timestamp_on_message (ho_platform H) S ids head_hash root) () result)"

text \<open>What \<open>main\<close> prints, line by line.\<close>

definition balance_report :: "'q StateLib \<Rightarrow> bytes \<Rightarrow> u32 \<Rightarrow> AccountInfo \<Rightarrow> string list" where
  "balance_report S account_id number info =
     (let amount = (\<lambda>n. format_dot n @ '' ('' @ dec_digits (unat n) @ '' plancks)'') in
      [[],
       ''Polkadot AssetHub account 0x'' @ lib_hex_encode S account_id @
         '' at finalized-on-relay block #'' @ dec_digits (unat number),
       ''  nonce       = '' @ dec_digits (unat (ai_nonce info)),
       ''  consumers   = '' @ dec_digits (unat (ai_consumers info)),
       ''  providers   = '' @ dec_digits (unat (ai_providers info)),
       ''  sufficients = '' @ dec_digits (unat (ai_sufficients info)),
       ''  free        = '' @ amount (ad_free (ai_data info)),
       ''  reserved    = '' @ amount (ad_reserved (ai_data info)),
       ''  frozen      = '' @ amount (ad_frozen (ai_data info))])"

definition timestamp_report :: "u32 \<Rightarrow> u64 \<Rightarrow> string list" where
  "timestamp_report number now_ms =
     [''Polkadot AssetHub Timestamp.Now at finalized-on-relay block #'' @ dec_digits (unat number) @
      '' is '' @ dec_digits (unat now_ms) @ '' ms since Unix epoch'']"

text \<open>
  \<open>main\<close> of the two examples: an error, or the lines on the standard output. \<open>learn\<close> and \<open>fetch\<close> are the
  results its two phases may have; \<open>args\<close> begins with the name of the program.
\<close>

inductive balance_main ::
  "'q StateLib \<Rightarrow> (client_error + BlockHash \<times> u32 \<times> Hash \<Rightarrow> bool)
     \<Rightarrow> (bytes \<Rightarrow> BlockHash \<Rightarrow> Hash \<Rightarrow> client_error + AccountInfo \<Rightarrow> bool) \<Rightarrow> string list \<Rightarrow> main_error + string list \<Rightarrow> bool"
  for S learn fetch where
  bm_usage: "length args \<le> 1 \<Longrightarrow> balance_main S learn fetch args (Inl MeUsage)"
| bm_address: "parse_account_id S address = Inl e \<Longrightarrow>
    balance_main S learn fetch (prog # address # rest) (Inl (MeAddress e))"
| bm_learn: "parse_account_id S address = Inr account_id \<Longrightarrow> learn (Inl e) \<Longrightarrow>
    balance_main S learn fetch (prog # address # rest) (Inl (MeClient e))"
| bm_fetch: "parse_account_id S address = Inr account_id \<Longrightarrow> learn (Inr (head_hash, number, root)) \<Longrightarrow>
    fetch account_id head_hash root (Inl e) \<Longrightarrow>
    balance_main S learn fetch (prog # address # rest) (Inl (MeClient e))"
| bm_report: "parse_account_id S address = Inr account_id \<Longrightarrow> learn (Inr (head_hash, number, root)) \<Longrightarrow>
    fetch account_id head_hash root (Inr info) \<Longrightarrow>
    balance_main S learn fetch (prog # address # rest) (Inr (balance_report S account_id number info))"

inductive timestamp_main ::
  "(client_error + BlockHash \<times> u32 \<times> Hash \<Rightarrow> bool) \<Rightarrow> (BlockHash \<Rightarrow> Hash \<Rightarrow> client_error + u64 \<Rightarrow> bool)
     \<Rightarrow> main_error + string list \<Rightarrow> bool"
  for learn fetch where
  tm_learn: "learn (Inl e) \<Longrightarrow> timestamp_main learn fetch (Inl (MeClient e))"
| tm_fetch: "learn (Inr (head_hash, number, root)) \<Longrightarrow> fetch head_hash root (Inl e) \<Longrightarrow>
    timestamp_main learn fetch (Inl (MeClient e))"
| tm_report: "learn (Inr (head_hash, number, root)) \<Longrightarrow> fetch head_hash root (Inr now_ms) \<Longrightarrow>
    timestamp_main learn fetch (Inr (timestamp_report number now_ms))"

inductive_cases balance_main_report: "balance_main S learn fetch args (Inr lines)"
inductive_cases timestamp_main_report: "timestamp_main learn fetch (Inr lines)"

lemma balance_main_mono:
  "balance_main S learn fetch args out \<Longrightarrow> (\<And>r. learn r \<Longrightarrow> learn' r) \<Longrightarrow>
   (\<And>a h r x. fetch a h r x \<Longrightarrow> fetch' a h r x) \<Longrightarrow> balance_main S learn' fetch' args out"
  by (induction rule: balance_main.induct) (blast intro: balance_main.intros)+

lemma timestamp_main_mono:
  "timestamp_main learn fetch out \<Longrightarrow> (\<And>r. learn r \<Longrightarrow> learn' r) \<Longrightarrow>
   (\<And>h r x. fetch h r x \<Longrightarrow> fetch' h r x) \<Longrightarrow> timestamp_main learn' fetch' out"
  by (induction rule: timestamp_main.induct) (blast intro: timestamp_main.intros)+

text \<open>The whole programs. The second configuration counts on where the first one stopped.\<close>

definition balance_program where
  "balance_program H L S decode_prefix J json n0 args out \<longleftrightarrow>
     balance_main S (learn_assethub_head H L S decode_prefix J json n0)
       (fetch_assethub_account_info H S (fst (snd (relay_config S GENESIS_HASH n0)))) args out"

definition timestamp_program where
  "timestamp_program H L S decode_prefix J json n0 out \<longleftrightarrow>
     timestamp_main (learn_assethub_head H L S decode_prefix J json n0)
       (fetch_assethub_timestamp H S (fst (snd (relay_config S GENESIS_HASH n0)))) out"

definition warp_sync_program where
  "warp_sync_program H L S decode_prefix J json n0 result \<longleftrightarrow>
     (case demo_config S GENESIS_HASH n0 of
        (ids, _, config) \<Rightarrow>
          (case checkpoint_load L (decode_header S) decode_prefix J json of
             Inl e \<Rightarrow> result = Inl (ClCheckpoint e)
           | Inr grandpa_state \<Rightarrow>
               attempts H demo_policy RELAY_BOOTNODES config (fst ids) (\<lambda>g. g)
                 (demo_on_message (ho_platform H) L ids) grandpa_state result))"

section \<open>What the programs answer\<close>

text \<open>The two phases of a program are runs of the loops with arbitrary connections.\<close>

lemma learn_refines:
  assumes "learn_assethub_head H L S decode_prefix J json n0 result"
    and "checkpoint_load L (decode_header S) decode_prefix J json = Inr g0"
  shows "learn_loop (ho_platform H) (ho_noise_read H) (ho_noise_write H) (ho_slack H) L S
    (fst (relay_config S GENESIS_HASH n0)) ASSETHUB_PARA_ID g0 result"
  using assms attempts_refine [where s = "AtDial 0 (g0, False)" and t = "AtReturned result"]
  by (auto simp: learn_assethub_head_def learn_loop_def attempts_def split: prod.splits)

lemma fetch_refines:
  "fetch_assethub_account_info H S n0 account_id head_hash root res \<Longrightarrow>
   account_loop (ho_platform H) (ho_noise_read H) (ho_noise_write H) (ho_slack H) S
     (fst (fetch_config S ASSETHUB_GENESIS_HASH n0)) account_id head_hash root res"
  "fetch_assethub_timestamp H S n0 head_hash root res' \<Longrightarrow>
   timestamp_loop (ho_platform H) (ho_noise_read H) (ho_noise_write H) (ho_slack H) S
     (fst (fetch_config S ASSETHUB_GENESIS_HASH n0)) head_hash root res'"
  using attempts_refine [where s = "AtDial 0 ()" and t = "AtReturned res"]
    attempts_refine [where s = "AtDial 0 ()" and t = "AtReturned res'"]
  by (auto simp: fetch_assethub_account_info_def fetch_assethub_timestamp_def account_loop_def timestamp_loop_def
      attempts_def split: prod.splits)

text \<open>The answers, if the proofs are trusted.\<close>

definition relay_head ::
  "'k WarpLib \<Rightarrow> 'q StateLib \<Rightarrow> (Hash \<Rightarrow> bytes \<rightharpoonup> bytes) \<Rightarrow> GrandpaState \<Rightarrow> BlockHash \<Rightarrow> u32 \<Rightarrow> Hash \<Rightarrow> bool" where
  "relay_head L S storage g0 head_hash number root \<longleftrightarrow>
     (\<exists>hs g v head_data header. trusted_chain L g0 hs g \<and>
        storage (finalized_state_root g) (paras_heads_key S ASSETHUB_PARA_ID) = Some v \<and>
        decode_byte_vec S v = Inr head_data \<and> decode_header S head_data = Inr header \<and>
        head_hash = header_hash L header \<and> number = hd_number header \<and> root = state_root header)"

lemma learned_head:
  assumes "learn_loop pf rd wr sl L S ids ASSETHUB_PARA_ID g0 (Inr (head_hash, number, root))"
    and "bounded_weights L g0" and "trie_sound S storage"
  shows "relay_head L S storage g0 head_hash number root"
proof -
  have "on_chain L g0 (g0, False)" by (auto simp: on_chain_def intro: tc_nil)
  from relay.result_good [OF assms(1) [unfolded learn_loop_def] this]
  have "head_proven L S (paras_heads_key S ASSETHUB_PARA_ID) g0 (head_hash, number, root)" .
  with assms(2) verified_in_storage [OF assms(3)] show ?thesis
    unfolding head_proven_def relay_head_def by blast
qed

lemma fetched_account:
  assumes "account_loop pf rd wr sl S ids account_id head_hash root (Inr info)" and "trie_sound S storage"
  shows "\<exists>v. storage root (system_account_key S account_id) = Some v \<and> decode_account_info S v = Inr (info, [])"
proof -
  from fetch.result_good [OF assms(1) [unfolded account_loop_def account_on_message_def]]
  have "value_proven S (account_value S) (system_account_key S account_id) root info" by simp
  moreover have "account_value S v = Inr info \<Longrightarrow> decode_account_info S v = Inr (info, [])" for v
    by (auto simp: account_value_def split: sum.splits if_splits)
  ultimately show ?thesis using verified_in_storage [OF assms(2)] unfolding value_proven_def by blast
qed

lemma fetched_timestamp:
  assumes "timestamp_loop pf rd wr sl S ids head_hash root (Inr now_ms)" and "trie_sound S storage"
  shows "\<exists>v. storage root (timestamp_now_key S) = Some v \<and> decode_u64 S v = Inr now_ms"
proof -
  from fetch.result_good [OF assms(1) [unfolded timestamp_loop_def timestamp_on_message_def]]
  have "value_proven S (timestamp_value S) (timestamp_now_key S) root now_ms" by simp
  moreover have "timestamp_value S v = Inr now_ms \<Longrightarrow> decode_u64 S v = Inr now_ms" for v
    by (auto simp: timestamp_value_def split: sum.splits)
  ultimately show ?thesis using verified_in_storage [OF assms(2)] unfolding value_proven_def by blast
qed

lemma reported_balance:
  assumes "balance_main S (learn_loop pf rd wr sl L S ids ASSETHUB_PARA_ID g0) (account_loop pf rd wr sl S ids') args (Inr lines)"
    and "bounded_weights L g0" and "trie_sound S storage"
  shows "\<exists>account_id head_hash number root info v. parse_account_id S (args ! 1) = Inr account_id \<and>
    relay_head L S storage g0 head_hash number root \<and>
    storage root (system_account_key S account_id) = Some v \<and> decode_account_info S v = Inr (info, []) \<and>
    lines = balance_report S account_id number info"
proof -
  obtain prog address rest account_id head_hash number root info where "args = prog # address # rest"
    "parse_account_id S address = Inr account_id" "lines = balance_report S account_id number info"
    and ln: "learn_loop pf rd wr sl L S ids ASSETHUB_PARA_ID g0 (Inr (head_hash, number, root))"
    and ft: "account_loop pf rd wr sl S ids' account_id head_hash root (Inr info)"
    using assms(1) by (auto elim: balance_main_report)
  with learned_head [OF ln assms(2, 3)] fetched_account [OF ft assms(3)] show ?thesis by fastforce
qed

lemma reported_timestamp:
  assumes "timestamp_main (learn_loop pf rd wr sl L S ids ASSETHUB_PARA_ID g0) (timestamp_loop pf rd wr sl S ids') (Inr lines)"
    and "bounded_weights L g0" and "trie_sound S storage"
  shows "\<exists>head_hash number root now_ms v. relay_head L S storage g0 head_hash number root \<and>
    storage root (timestamp_now_key S) = Some v \<and> decode_u64 S v = Inr now_ms \<and>
    lines = timestamp_report number now_ms"
proof -
  obtain head_hash number root now_ms where "lines = timestamp_report number now_ms"
    and ln: "learn_loop pf rd wr sl L S ids ASSETHUB_PARA_ID g0 (Inr (head_hash, number, root))"
    and ft: "timestamp_loop pf rd wr sl S ids' head_hash root (Inr now_ms)"
    using assms(1) by (auto elim: timestamp_main_report)
  with learned_head [OF ln assms(2, 3)] fetched_timestamp [OF ft assms(3)] show ?thesis by blast
qed

text \<open>The demo: success means that the printed state is on a chain of trust from the checkpoint.\<close>

lemma warp_sync_program_trusted:
  assumes "warp_sync_program H L S decode_prefix J json n0 (Inr g)" and "bounded_weights L g0"
    and "checkpoint_load L (decode_header S) decode_prefix J json = Inr g0"
  shows "\<exists>hs. trusted_chain L g0 hs g"
proof -
  have "demo_on_chain L g0 g0" by (auto simp: demo_on_chain_def on_chain_def intro: tc_nil)
  with assms(1, 3) have "demo_on_chain L g0 g"
    by (auto simp: warp_sync_program_def split: prod.splits dest: demo.attempts_good)
  with assms(2) show ?thesis by (simp add: demo_on_chain_def on_chain_def)
qed

lemma balance_program_proven:
  assumes "balance_program H L S decode_prefix J json n0 args (Inr lines)"
    and "checkpoint_load L (decode_header S) decode_prefix J json = Inr g0"
    and "bounded_weights L g0" and "trie_sound S storage"
  shows "\<exists>account_id head_hash number root info v. parse_account_id S (args ! 1) = Inr account_id \<and>
    relay_head L S storage g0 head_hash number root \<and>
    storage root (system_account_key S account_id) = Some v \<and> decode_account_info S v = Inr (info, []) \<and>
    lines = balance_report S account_id number info"
  by (rule reported_balance [OF balance_main_mono [OF assms(1) [unfolded balance_program_def]
        learn_refines [OF _ assms(2)] fetch_refines(1)] assms(3, 4)])

lemma timestamp_program_proven:
  assumes "timestamp_program H L S decode_prefix J json n0 (Inr lines)"
    and "checkpoint_load L (decode_header S) decode_prefix J json = Inr g0"
    and "bounded_weights L g0" and "trie_sound S storage"
  shows "\<exists>head_hash number root now_ms v. relay_head L S storage g0 head_hash number root \<and>
    storage root (timestamp_now_key S) = Some v \<and> decode_u64 S v = Inr now_ms \<and>
    lines = timestamp_report number now_ms"
  by (rule reported_timestamp [OF timestamp_main_mono [OF assms(1) [unfolded timestamp_program_def]
        learn_refines [OF _ assms(2)] fetch_refines(2)] assms(3, 4)])

section \<open>Errors of the examples\<close>

text \<open>On a new connection every configured subscription can be opened.\<close>

lemma fresh_subscribes:
  assumes "fresh_connection c" and "p \<in> set (subscription_details c)"
  shows "\<exists>c'. conn_subscribe (sd_protocol_id p) c = Some (Inr (), c')"
proof -
  obtain q where q: "List.find (\<lambda>d. sd_protocol_id d = sd_protocol_id p) (subscription_details c) = Some q"
    using assms(2) by (cases "List.find (\<lambda>d. sd_protocol_id d = sd_protocol_id p) (subscription_details c)") (auto simp: find_None_iff)
  then have "q \<in> set (subscription_details c)" by (auto simp: find_Some_iff)
  then have closed: "our_stream q = SsClosed" using assms(1) by (simp add: fresh_connection_def)
  let ?m = "cn_yamux c"
  obtain r w where m: "?m = ym_new (yamux_new r w)" using assms(1) by (auto simp: fresh_connection_def)
  obtain m' where "ym_open_stream [sp_name (sd_protocol q)] (sp_max_response_size_in_bytes (sd_protocol q)) ?m = Some (Inr (nid ?m), m')"
  proof (rule open_stream_ok [of ?m 3 "sp_name (sd_protocol q)" "[]" "sp_max_response_size_in_bytes (sd_protocol q)"])
    show "sid_increment (nid ?m) = Some 3" by (simp add: m nid_def ym_new_def yamux_new_def sid_first_def sid_increment_def)
    show "get_stream (ys_shared (ym_inner ?m)) (nid ?m) = None"
      by (simp add: m ym_new_def yamux_new_def SharedState_new_def get_stream_def)
  qed
  with q closed show ?thesis by (simp add: conn_subscribe_def)
qed

text \<open>So the examples never end with an error of an attempt.\<close>

definition announces :: "Configuration \<Rightarrow> SubscriptionProtocolId \<Rightarrow> bool" where
  "announces config announce \<longleftrightarrow>
     (\<exists>pid q. (pid, AnySubscription q) \<in> set (protocols config) \<and> subscription_id_from pid = announce)"

lemma announcesI: "(pid, AnySubscription q) \<in> set (protocols config) \<Longrightarrow> announces config (subscription_id_from pid)"
  by (auto simp: announces_def)

lemma configs_announce:
  "relay_config S genesis n0 = (ids, n, config) \<Longrightarrow> announces config (block_announce_id ids)"
  "fetch_config S genesis n0 = (ids', n, config) \<Longrightarrow> announces config (fst ids')"
  by (auto simp: relay_config_def fetch_config_def notification_config_def configured_simps split: prod.splits
      intro!: announcesI [where pid = "OpaqueId n0" and q = "announce_protocol S genesis"])

lemma connect_announces:
  assumes "connect pf now sn ed rd wr fuel config s = Some (Finished (Inr c))" and "announces config announce"
  shows "\<exists>c'. conn_subscribe announce c = Some (Inr (), c')"
proof -
  obtain i remote t r w where new: "new_connection ed config i remote t r w = Some c"
    using from_stream_new [OF assms(1) [unfolded connect_def]] by blast
  obtain pid q where "(pid, AnySubscription q) \<in> set (protocols config)" "subscription_id_from pid = announce"
    using assms(2) by (auto simp: announces_def)
  with tables_complete(1) [OF new_connection_fields(4) [OF new]] obtain d
    where "d \<in> set (subscription_details c)" "sd_protocol_id d = announce" by blast
  with fresh_subscribes [OF new_connection_fields(1) [OF new]] show ?thesis by blast
qed

lemma attempt_no_error:
  assumes "attempt_step H example_policy nodes config announce start handler s t" and "announces config announce"
  shows "t \<noteq> AtReturned (Inl e)"
  using assms
  by (cases rule: attempt_step.cases)
     (auto simp: dial_failed_def attempt_failed_def example_policy_def dest!: connect_announces)

lemma attempts_no_error:
  assumes "attempts H example_policy nodes config announce start handler x (Inl e)" and "announces config announce"
  shows False
  using assms(1) [unfolded attempts_def] by (cases rule: rtranclp.cases) (auto dest: attempt_no_error [OF _ assms(2)])

section \<open>Properties\<close>


text \<open>
  (C38) The examples do not give up. The balance program ends with an error only when it is called
  without an address, with an address that does not parse, or with a checkpoint that does not load:
  whatever the network does, it tries again, and on a new connection the subscription it needs can
  always be opened.
\<close>

theorem examples_do_not_give_up:
  assumes "balance_program H L S decode_prefix J json n0 args (Inl e)"
  shows "e = MeUsage \<and> length args \<le> 1 \<or>
    (\<exists>a. e = MeAddress a \<and> parse_account_id S (args ! 1) = Inl a) \<or>
    (\<exists>ce. e = MeClient (ClCheckpoint ce) \<and> checkpoint_load L (decode_header S) decode_prefix J json = Inl ce)"
proof -
  have learn: "\<exists>ce. e = ClCheckpoint ce \<and> checkpoint_load L (decode_header S) decode_prefix J json = Inl ce"
    if "learn_assethub_head H L S decode_prefix J json n0 (Inl e)" for e
    using that attempts_no_error configs_announce(1)
    by (fastforce simp: learn_assethub_head_def split: prod.splits sum.splits)
  have fetch: "\<not> fetch_assethub_account_info H S n1 account_id head_hash root (Inl e)" for n1 account_id head_hash root e
    using attempts_no_error configs_announce(2)
    by (fastforce simp: fetch_assethub_account_info_def split: prod.splits)
  show ?thesis
    using assms [unfolded balance_program_def]
    by (cases rule: balance_main.cases) (auto simp: fetch dest!: learn)
qed

text \<open>A host whose TCP streams are mock streams; the run below dials twice and connects the second time.\<close>

definition toy_host where
  "toy_host payload =
     \<lparr>ho_platform = clock_platform False, ho_snow = toy_snow payload, ho_ed25519 = toy_ed25519,
      ho_tcp_read = mock_read_exact, ho_tcp_write = mock_write_all,
      ho_noise_read = (\<lambda>s n. (Pending, s) :: (async_read_error + bytes) poll \<times> (MockStream, u8 \<times> u8) NoiseReadStream),
      ho_noise_write = (\<lambda>s d. (Ready (Inr ()), s) :: (async_write_error + unit) poll \<times> (MockStream, u8 \<times> u8) NoiseWriteStream),
      ho_slack = (\<lambda>_. 0), ho_fuel = 40000\<rparr>"

lemma toy_fetch_config:
  "\<exists>cfg. fetch_config toy_state_lib ASSETHUB_GENESIS_HASH 0 = ((SubscriptionProtocolId 0, RequestProtocolId 2), 3, cfg) \<and>
     0 < multistream_timeout cfg"
  by (simp add: fetch_config_def notification_config_def configured_simps subscription_id_from_def
      request_id_from_def usize_max_def from_secs_def)


theorem examples_do_not_give_up_witness:
  "\<exists>e. balance_program (toy_host []) (net_lib []) (toy_state_lib\<lparr>lib_hex_decode := \<lambda>_. Inr (replicate 32 8)\<rparr>)
     (\<lambda>_. Inr ([], 0)) \<lparr>js_from_str = \<lambda>_. Inl ''eof'', js_get = \<lambda>_ _. None, js_str = \<lambda>_. Inl [], hex_decode = \<lambda>_. Inr []\<rparr>
     [] 0 [''assethub-balance'', ''0x08''] (Inl e) \<and> e = MeClient (ClCheckpoint (CeParse ''eof''))"
proof -
  let ?S = "toy_state_lib\<lparr>lib_hex_decode := \<lambda>_. Inr (replicate 32 8)\<rparr>" and ?L = "net_lib []"
  let ?J = "\<lparr>js_from_str = \<lambda>_. Inl ''eof'', js_get = \<lambda>_ _. None, js_str = \<lambda>_. Inl [], hex_decode = \<lambda>_. Inr []\<rparr>"
  have "learn_assethub_head (toy_host []) ?L ?S (\<lambda>_. Inr ([], 0)) ?J [] 0 (Inl (ClCheckpoint (CeParse ''eof'')))"
    by (simp add: learn_assethub_head_def checkpoint_load_def split: prod.split)
  then have run: "balance_program (toy_host []) ?L ?S (\<lambda>_. Inr ([], 0)) ?J [] 0 [''assethub-balance'', ''0x08'']
      (Inl (MeClient (ClCheckpoint (CeParse ''eof''))))"
    unfolding balance_program_def by (rule bm_learn [rotated]) (simp add: parse_account_id_def)
  from examples_do_not_give_up [OF run] run show ?thesis by blast
qed

end
