(* ===== verification/WebBridge.thy ===== *)
theory WebBridge
  imports Programs
begin

text \<open>
  The browser client \<open>examples/web/src/lib.rs\<close> and the basic client \<open>examples/basic.rs\<close>: a WebSocket
  as an \<open>AsyncRead\<close>, the browser's timers as sleep futures, the loop that prints block
  announcements, and the two programs. A waker is a flag; the event handlers of the socket return
  whether they woke the task. \<open>web_sys\<close> is not modelled, \<open>blake2\<close> and \<open>hex\<close> are parameters.
\<close>

section \<open>The socket\<close>

record WsState =
  ws_buffer :: bytes
  ws_waker :: bool
  ws_opened :: bool
  ws_closed :: bool
  ws_error :: "string option"

definition ws_new :: WsState where
  "ws_new = \<lparr>ws_buffer = [], ws_waker = False, ws_opened = False, ws_closed = False, ws_error = None\<rparr>"

definition ws_read_exact :: "WsState read_op" where
  "ws_read_exact st n =
     (case ws_error st of
        Some err \<Rightarrow> (Ready (Inl (read_error_from_string err)), st\<lparr>ws_error := None\<rparr>)
      | None \<Rightarrow>
          (if n \<le> length (ws_buffer st) then
             (Ready (Inr (take n (ws_buffer st))), st\<lparr>ws_buffer := drop n (ws_buffer st)\<rparr>)
           else if ws_closed st then (Ready (Inl (read_error_from_string ''connection closed'')), st)
           else (Pending, st\<lparr>ws_waker := True\<rparr>)))"

text \<open>\<open>if let Some(w) = st.waker.take() { w.wake() }\<close>\<close>

definition ws_wake :: "WsState \<Rightarrow> bool \<times> WsState" where
  "ws_wake st = (ws_waker st, st\<lparr>ws_waker := False\<rparr>)"

datatype ws_event = WsOpen | WsMessage bytes | WsClose | WsError

fun ws_on_event :: "ws_event \<Rightarrow> WsState \<Rightarrow> bool \<times> WsState" where
  "ws_on_event WsOpen st = ws_wake (st\<lparr>ws_opened := True\<rparr>)"
| "ws_on_event (WsMessage arr) st = ws_wake (st\<lparr>ws_buffer := ws_buffer st @ arr\<rparr>)"
| "ws_on_event WsClose st = ws_wake (st\<lparr>ws_closed := True\<rparr>)"
| "ws_on_event WsError st = ws_wake (st\<lparr>ws_error := Some ''WebSocket error''\<rparr>)"

definition ws_wait_open :: "WsState \<Rightarrow> (string + unit) poll \<times> WsState" where
  "ws_wait_open st =
     (if ws_opened st then (Ready (Inr ()), st)
      else if ws_error st \<noteq> None \<or> ws_closed st then
        (Ready (Inl (case ws_error st of Some e \<Rightarrow> e | None \<Rightarrow> ''failed to connect'')), st\<lparr>ws_error := None\<rparr>)
      else (Pending, st\<lparr>ws_waker := True\<rparr>))"

section \<open>Timers\<close>

record WasmSleep =
  wsl_done :: bool
  wsl_waker :: bool

definition WasmSleep_poll :: "WasmSleep \<Rightarrow> unit poll \<times> WasmSleep" where
  "WasmSleep_poll s = (if wsl_done s then (Ready (), s) else (Pending, s\<lparr>wsl_waker := True\<rparr>))"

text \<open>The callback of \<open>setTimeout\<close>, and its delay: \<open>as_millis() as i32\<close> keeps the low 32 bits.\<close>

definition sleep_callback :: "WasmSleep \<Rightarrow> bool \<times> WasmSleep" where
  "sleep_callback s = (wsl_waker s, s\<lparr>wsl_done := True, wsl_waker := False\<rparr>)"

definition sleep_delay :: "duration \<Rightarrow> int" where
  "sleep_delay d = sint (of_nat (d div 1000000) :: u32)"

definition wasm_sleep :: "duration \<Rightarrow> WasmSleep" where
  "wasm_sleep d = \<lparr>wsl_done = False, wsl_waker = False\<rparr>"

section \<open>Block announcements\<close>

datatype block_type = BtNormal | BtBest | BtUnknown

text \<open>\<open>data.pop(); match data.pop() { .. }\<close>, and the rest, which is hashed.\<close>

definition announced_block :: "bytes \<Rightarrow> block_type \<times> bytes" where
  "announced_block data =
     (let data1 = butlast data
      in (if data1 = [] then BtUnknown
          else if last data1 = 0 then BtNormal
          else if last data1 = 1 then BtBest
          else BtUnknown,
          butlast data1))"

text \<open>What the client does with a message: go on, print a block, or leave the loop.\<close>

datatype announce_action = AnGoOn | AnPrint block_type bytes | AnBreak

definition announce_on_message :: "SubscriptionProtocolId \<Rightarrow> Message \<Rightarrow> announce_action" where
  "announce_on_message announce_id msg =
     (case msg of
        MNotification protocol_id res \<Rightarrow>
          (if protocol_id = announce_id then
             (case res of
                SrOpened \<Rightarrow> AnGoOn
              | SrValue data \<Rightarrow> (case announced_block data of (t, header) \<Rightarrow> AnPrint t header)
              | SrClosed \<Rightarrow> AnBreak
              | SrError _ \<Rightarrow> AnBreak)
           else AnGoOn)
      | _ \<Rightarrow> AnGoOn)"

fun block_type_name :: "block_type \<Rightarrow> string" where
  "block_type_name BtNormal = ''normal''"
| "block_type_name BtBest = ''best''"
| "block_type_name BtUnknown = ''unknown''"

definition block_line :: "'q StateLib \<Rightarrow> (bytes \<Rightarrow> bytes) \<Rightarrow> block_type \<Rightarrow> bytes \<Rightarrow> string" where
  "block_line S block_hash t header = ''hash='' @ lib_hex_encode S (block_hash header) @ '' type='' @ block_type_name t"

text \<open>The \<open>match\<close> as a handler; what survives is what was printed so far.\<close>

definition announce_handler ::
  "'q StateLib \<Rightarrow> (bytes \<Rightarrow> bytes) \<Rightarrow> SubscriptionProtocolId \<Rightarrow> 'p \<Rightarrow> Message \<Rightarrow> 'c \<times> string list
     \<Rightarrow> (unit flow \<times> 'c \<times> string list) option" where
  "announce_handler S block_hash announce now msg s =
     Some (case announce_on_message announce msg of
        AnGoOn \<Rightarrow> (FlContinue, s)
      | AnPrint t header \<Rightarrow> (FlContinue, fst s, snd s @ [block_line S block_hash t header])
      | AnBreak \<Rightarrow> (FlReturn (), s))"

definition announce_config ::
  "'q StateLib \<Rightarrow> bytes \<Rightarrow> nat \<Rightarrow> SubscriptionProtocolId \<times> nat \<times> Configuration" where
  "announce_config S genesis n0 = add_subscription_protocol (announce_protocol S genesis) n0 Configuration_default"

interpretation announce_user: connection_user pf rd wr sl "announce_handler S block_hash announce"
  by unfold_locales (auto simp: announce_handler_def split: announce_action.splits)

section \<open>The basic client\<close>

text \<open>
  \<open>main\<close> of \<open>basic.rs\<close>: one attempt, whose errors are returned; the loop ends well when it is left and
  when the connection ends.
\<close>

definition once_policy :: policy where
  "once_policy = \<lparr>po_dial = None, po_retries = (\<lambda>_. False)\<rparr>"

definition basic_main where
  "basic_main H S block_hash n0 result \<longleftrightarrow>
     (case announce_config S GENESIS_HASH n0 of
        (announce, _, config) \<Rightarrow>
          \<exists>r. attempts H once_policy [(''polkadot-bootnode-0.polkadot.io'', 30333)] config announce (\<lambda>lines. lines)
                (announce_handler S block_hash announce) [] r \<and>
              result = (if r = Inl ClEnded then Inr () else r))"

section \<open>The browser client\<close>

datatype web_error = WeSocket string | WeConnection ConnectionError | WeStream StreamError

text \<open>
  Where \<open>run\<close> is: waiting for the socket, in \<open>config.connect(..).await\<close>, in the loop over the messages,
  or done. The events of the socket change the state that the reader shares with them.
\<close>

datatype ('s, 'c) web =
    WbOpening WsState
  | WbConnecting 's
  | WbRunning "nat option" 'c "string list"
  | WbReturned "web_error + unit"

definition conn_ws_event ::
  "ws_event \<Rightarrow> ((WsState, 't) NoiseReadStream, 'w, 'z) Connection \<Rightarrow> ((WsState, 't) NoiseReadStream, 'w, 'z) Connection" where
  "conn_ws_event e c =
     (let r = ym_reader (cn_yamux c) in conn_set_reader (r\<lparr>nr_reader := snd (ws_on_event e (nr_reader r))\<rparr>) c)"

inductive web_step ::
  "('p, 'z, 'h, 't, 'k, WsState, 'w) Host \<Rightarrow> 'q StateLib \<Rightarrow> (bytes \<Rightarrow> bytes) \<Rightarrow> SubscriptionProtocolId \<Rightarrow> Configuration \<Rightarrow> 'w
     \<Rightarrow> (('t, 'z, 'k) connecting \<times> WsState \<times> 'w, (WsState, 'w, 't, 'z) noise_connection) web
     \<Rightarrow> (('t, 'z, 'k) connecting \<times> WsState \<times> 'w, (WsState, 'w, 't, 'z) noise_connection) web \<Rightarrow> bool"
  for H S block_hash announce config ws where
  wb_event_opening: "web_step H S block_hash announce config ws (WbOpening st) (WbOpening (snd (ws_on_event e st)))"
| wb_opening: "ws_wait_open st = (Pending, st') \<Longrightarrow> web_step H S block_hash announce config ws (WbOpening st) (WbOpening st')"
| wb_no_socket: "ws_wait_open st = (Ready (Inl e), st') \<Longrightarrow>
    web_step H S block_hash announce config ws (WbOpening st) (WbReturned (Inl (WeSocket e)))"
| wb_opened: "ws_wait_open st = (Ready (Inr ()), st') \<Longrightarrow>
    web_step H S block_hash announce config ws (WbOpening st) (WbConnecting (CsNew, st', ws))"
| wb_event_connecting: "web_step H S block_hash announce config ws
    (WbConnecting (s, st, w)) (WbConnecting (s, snd (ws_on_event e st), w))"
| wb_connecting: "connect (ho_platform H) now (ho_snow H) (ho_ed25519 H) ws_read_exact (ho_tcp_write H) (ho_fuel H)
      config s = Some (Suspended s') \<Longrightarrow>
    web_step H S block_hash announce config ws (WbConnecting s) (WbConnecting s')"
| wb_connect_failed: "connect (ho_platform H) now (ho_snow H) (ho_ed25519 H) ws_read_exact (ho_tcp_write H) (ho_fuel H)
      config s = Some (Finished (Inl e)) \<Longrightarrow>
    web_step H S block_hash announce config ws (WbConnecting s) (WbReturned (Inl (WeConnection e)))"
| wb_connected: "connect (ho_platform H) now (ho_snow H) (ho_ed25519 H) ws_read_exact (ho_tcp_write H) (ho_fuel H)
      config s = Some (Finished (Inr c)) \<Longrightarrow> conn_subscribe announce c = Some (Inr (), c') \<Longrightarrow>
    web_step H S block_hash announce config ws (WbConnecting s) (WbRunning None c' [])"
| wb_refused: "connect (ho_platform H) now (ho_snow H) (ho_ed25519 H) ws_read_exact (ho_tcp_write H) (ho_fuel H)
      config s = Some (Finished (Inr c)) \<Longrightarrow> conn_subscribe announce c = Some (Inl e, c') \<Longrightarrow>
    web_step H S block_hash announce config ws (WbConnecting s) (WbReturned (Inl (WeConnection e)))"
| wb_event_running: "web_step H S block_hash announce config ws
    (WbRunning fut c lines) (WbRunning fut (conn_ws_event e c) lines)"
| wb_timer: "web_step H S block_hash announce config ws (WbRunning fut c lines) (WbRunning fut (conn_wake j c) lines)"
| wb_pending: "client_poll (ho_platform H) clk (ho_noise_read H) (ho_noise_write H) (ho_slack H) fuel k n
      (announce_handler S block_hash announce) m fut (c, lines) = Done (Pending, fut', c', lines') \<Longrightarrow>
    web_step H S block_hash announce config ws (WbRunning fut c lines) (WbRunning fut' c' lines')"
| wb_left: "client_poll (ho_platform H) clk (ho_noise_read H) (ho_noise_write H) (ho_slack H) fuel k n
      (announce_handler S block_hash announce) m fut (c, lines) = Done (Ready res, fut', c', lines') \<Longrightarrow>
    res = Inr () \<or> res = Inl ClEnded \<Longrightarrow>
    web_step H S block_hash announce config ws (WbRunning fut c lines) (WbReturned (Inr ()))"
| wb_stream_error: "client_poll (ho_platform H) clk (ho_noise_read H) (ho_noise_write H) (ho_slack H) fuel k n
      (announce_handler S block_hash announce) m fut (c, lines) = Done (Ready (Inl (ClStream e)), fut', c', lines') \<Longrightarrow>
    web_step H S block_hash announce config ws (WbRunning fut c lines) (WbReturned (Inl (WeStream e)))"

definition web_run where
  "web_run H S block_hash n0 ws t \<longleftrightarrow>
     (case announce_config S GENESIS_HASH n0 of
        (announce, _, config) \<Rightarrow>
          (web_step H S block_hash announce config ws)\<^sup>*\<^sup>* (WbOpening ws_new) t)"

text \<open>
  The browser client uses its connection as any client does, and the subscription is never refused.
\<close>

fun web_ok :: "('p, 'z, 'h, 't, 'k, WsState, 'w) Host \<Rightarrow> ('s, (WsState, 'w, 't, 'z) noise_connection) web \<Rightarrow> bool" where
  "web_ok H (WbRunning fut c lines) =
     conn_reached (ho_platform H) (ho_noise_read H) (ho_noise_write H) (ho_slack H) c fut"
| "web_ok H _ = True"

lemma web_step_ok: "web_step H S block_hash announce config ws s t \<Longrightarrow> web_ok H s \<Longrightarrow> web_ok H t"
  by (induction rule: web_step.induct)
     (auto simp: connect_def conn_ws_event_def Let_def
       intro: announce_user.poll_reached reached_subscribe [OF from_stream_fresh]
         reached_step [OF _ cs_wake] reached_step [OF _ cs_transport])

lemma web_run_ok:
  assumes "web_run H S block_hash n0 ws t" shows "web_ok H t"
proof -
  obtain announce n config where "announce_config S GENESIS_HASH n0 = (announce, n, config)" by (metis prod_cases3)
  with assms have "(web_step H S block_hash announce config ws)\<^sup>*\<^sup>* (WbOpening ws_new) t" by (simp add: web_run_def)
  then show ?thesis by (induction rule: rtranclp_induct) (auto dest: web_step_ok)
qed

section \<open>The socket is a stream\<close>

interpretation ws: async_read ws_read_exact "\<lambda>s. length (ws_buffer s)"
  by unfold_locales (auto simp: ws_read_exact_def split: option.splits if_splits)

text \<open>Reads and events in any order, with the bytes that were delivered and those that were read.\<close>

inductive ws_run :: "WsState \<Rightarrow> bytes \<Rightarrow> bytes \<Rightarrow> WsState \<Rightarrow> bool" for st where
  ws_start: "ws_run st [] [] st"
| ws_event: "ws_run st delivered consumed st' \<Longrightarrow> ws_on_event e st' = (woken, st'') \<Longrightarrow>
    ws_run st (delivered @ (case e of WsMessage arr \<Rightarrow> arr | _ \<Rightarrow> [])) consumed st''"
| ws_read: "ws_run st delivered consumed st' \<Longrightarrow> ws_read_exact st' n = (p, st'') \<Longrightarrow>
    ws_run st delivered (consumed @ (case p of Ready (Inr bs) \<Rightarrow> bs | _ \<Rightarrow> [])) st''"

lemma ws_run_bytes: "ws_run st delivered consumed st' \<Longrightarrow> ws_buffer st @ delivered = consumed @ ws_buffer st'"
proof (induction rule: ws_run.induct)
  case (ws_event delivered consumed st' e woken st'')
  then show ?case by (cases e) (auto simp: ws_wake_def)
next
  case (ws_read delivered consumed st' n p st'')
  then show ?case by (auto simp: ws_read_exact_def split: option.splits if_splits)
qed simp



end
