(* ===== verification/CodecTests.thy ===== *)
theory CodecTests
  imports YamuxHeaders FrameBuffer Protobuf Timers "HOL-Library.Code_Target_Nat"
begin

text \<open>
  The unit tests of \<open>utils/varint.rs\<close>, \<open>layers/yamux/header.rs\<close>, \<open>yamux_multistream/frame_buffer.rs\<close>,
  \<open>utils/protobuf.rs\<close> and \<open>utils/timers.rs\<close>, run on the model. Every test is a boolean definition with
  the inputs and the expected values of the source, and the kernel evaluates it to \<open>True\<close>: on these
  inputs the definitions of the development compute what the crate's authors checked of the code.
  A test that drives a stateful object is the list of its calls, each with what the test asserts of
  its result; \<open>unwrap\<close> of a failure, a failed assertion and an unexpected panic make it \<open>False\<close>.
\<close>

section \<open>Varints\<close>

definition KNOWN_ENCODINGS :: "(u64 \<times> bytes) list" where
  "KNOWN_ENCODINGS =
     [(0, [0x00]), (1, [0x01]), (127, [0x7F]), (128, [0x80, 0x01]), (255, [0xFF, 0x01]),
      (300, [0xAC, 0x02]), (16384, [0x80, 0x80, 0x01]),
      (0xFFFFFFFFFFFFFFFF, [0xFF, 0xFF, 0xFF, 0xFF, 0xFF, 0xFF, 0xFF, 0xFF, 0xFF, 0x01])]"

definition test_encode_known_values :: bool where
  "test_encode_known_values = list_all (\<lambda>(val, expected).
     case varint_encode val (replicate 10 0) of
       Some (buf, n) \<Rightarrow> take n buf = expected
     | None \<Rightarrow> False) KNOWN_ENCODINGS"

definition test_decode_known_values :: bool where
  "test_decode_known_values =
     list_all (\<lambda>(expected, bs). varint_decode bs = (Inr expected, [])) KNOWN_ENCODINGS"

definition test_encode_to_vec_matches_encode :: bool where
  "test_encode_to_vec_matches_encode =
     list_all (\<lambda>(val, expected). varint_encode_to_vec val [] = Some expected) KNOWN_ENCODINGS"

definition test_encode_to_vec_appends :: bool where
  "test_encode_to_vec_appends = (varint_encode_to_vec 300 [0xAA, 0xBB] = Some [0xAA, 0xBB, 0xAC, 0x02])"

definition test_encode_returns_correct_length :: bool where
  "test_encode_returns_correct_length = list_all (\<lambda>(val, n).
     map_option snd (varint_encode val (replicate 10 0)) = Some n)
     [(0, 1), (127, 1), (128, 2), (16383, 2), (16384, 3), (0xFFFFFFFFFFFFFFFF, 10)]"

definition test_decode_advances_cursor_past_varint_only :: bool where
  "test_decode_advances_cursor_past_varint_only =
     (varint_decode [0xAC, 0x02, 0xFF, 0xFF] = (Inr 300, [0xFF, 0xFF]))"

definition test_decode_multiple_varints_from_one_slice :: bool where
  "test_decode_multiple_varints_from_one_slice =
     (case Option.bind (varint_encode_to_vec 1 []) (\<lambda>buf. Option.bind (varint_encode_to_vec 300 buf)
        (varint_encode_to_vec 0xFFFFFFFFFFFFFFFF)) of
        None \<Rightarrow> False
      | Some buf \<Rightarrow>
          (let (v1, c1) = varint_decode buf; (v2, c2) = varint_decode c1; (v3, c3) = varint_decode c2
           in v1 = Inr 1 \<and> v2 = Inr 300 \<and> v3 = Inr 0xFFFFFFFFFFFFFFFF \<and> c3 = []))"

definition test_decode_empty_input :: bool where
  "test_decode_empty_input = (fst (varint_decode []) = Inl VUnexpectedEndOfInput)"

definition test_decode_truncated_input :: bool where
  "test_decode_truncated_input = (fst (varint_decode [0x80]) = Inl VUnexpectedEndOfInput)"

definition test_decode_out_of_range :: bool where
  "test_decode_out_of_range = (fst (varint_decode (replicate 11 0x80)) = Inl VOutOfRange)"

fun feed_times :: "nat \<Rightarrow> Decoder \<Rightarrow> Decoder option" where
  "feed_times 0 decoder = Some decoder"
| "feed_times (Suc n) decoder =
     (case Decoder_feed decoder 0x80 of NeedsMoreBytes d \<Rightarrow> feed_times n d | _ \<Rightarrow> None)"

definition test_decoder_overflow_returns_out_of_range :: bool where
  "test_decoder_overflow_returns_out_of_range =
     (case feed_times 10 Decoder_new of
        Some decoder \<Rightarrow> Decoder_feed decoder 0x80 = OutOfRange
      | None \<Rightarrow> False)"

definition test_encode_panics_on_small_buffer :: bool where
  "test_encode_panics_on_small_buffer = (varint_encode 128 [0] = None)"

text \<open>Decoding goes through the round trip for the two tests with ten-byte encodings.\<close>

lemma known_encodings_are_varint_bytes: "list_all (\<lambda>(val, bs). varint_bytes val = bs) KNOWN_ENCODINGS"
  by code_simp

lemma test_decode_known_values_passes: "test_decode_known_values"
  unfolding test_decode_known_values_def
  using known_encodings_are_varint_bytes varint_decode_bytes [of _ "[]"]
  by (auto simp: list_all_iff)

lemma test_decode_multiple_varints_passes: "test_decode_multiple_varints_from_one_slice"
  using varint_decode_bytes [of "0xFFFFFFFFFFFFFFFF" "[]"]
  by (simp add: test_decode_multiple_varints_from_one_slice_def varint_encode_to_vec_eq varint_decode_bytes)

lemma varint_tests_pass:
  "test_encode_known_values" "test_encode_to_vec_matches_encode"
  "test_encode_to_vec_appends" "test_encode_returns_correct_length"
  "test_decode_advances_cursor_past_varint_only"
  "test_decode_empty_input" "test_decode_truncated_input" "test_decode_out_of_range"
  "test_decoder_overflow_returns_out_of_range" "test_encode_panics_on_small_buffer"
  by code_simp+

section \<open>Yamux headers\<close>

definition header_comes_back :: "YamuxHeader \<Rightarrow> bool" where
  "header_comes_back header = (header_decode (header_encode header) = Inr header)"

definition test_roundtrip_headers :: bool where
  "test_roundtrip_headers = list_all header_comes_back
     [hdr_send_data 5 1024, hdr_open_stream 1, hdr_accept_stream 2, hdr_reset_stream 3, hdr_close_stream 3,
      hdr_pong 0 0xDEADBEEF, hdr_window_update 7 65535, hdr_send_data 0xFFFFFFFF 0xFFFFFFFF, hdr_send_data 0 0]"

lemma header_tests_pass: "test_roundtrip_headers"
  by (simp add: test_roundtrip_headers_def header_comes_back_def header_decode_encode hdr_defs)

section \<open>The frame buffer\<close>

datatype fb_call = Feed bytes | Next "(fb_error + bytes) option"

fun fb_test :: "fb_call list \<Rightarrow> MultistreamFrameBuffer \<Rightarrow> bool" where
  "fb_test [] buf = True"
| "fb_test (Feed bs # calls) buf = fb_test calls (fb_feed buf bs)"
| "fb_test (Next expected # calls) buf =
     (let (r, buf') = fb_next buf in r = expected \<and> fb_test calls buf')"

abbreviation frame_is :: "bytes \<Rightarrow> fb_call" where
  "frame_is bs \<equiv> Next (Some (Inr bs))"

abbreviation frame_str :: "string \<Rightarrow> fb_call" where
  "frame_str s \<equiv> Next (Some (Inr (bytes_of s)))"

definition test_decodes_frames :: bool where
  "test_decodes_frames = list_all (\<lambda>input.
     fb_test [Feed (make_frame (bytes_of input)), frame_str input] fb_new) ['''', ''h'', ''hello'']"

definition test_empty_buffer_returns_none :: bool where
  "test_empty_buffer_returns_none = fb_test [Next None] fb_new"

definition test_two_frames_fed_together :: bool where
  "test_two_frames_fed_together = fb_test
     [Feed (make_frame (bytes_of ''abc'') @ make_frame (bytes_of ''defgh'')),
      frame_str ''abc'', frame_str ''defgh'', Next None] fb_new"

definition test_three_frames_fed_together :: bool where
  "test_three_frames_fed_together = fb_test
     [Feed (make_frame (bytes_of ''x'') @ make_frame (bytes_of ''yy'') @ make_frame (bytes_of ''zzz'')),
      frame_str ''x'', frame_str ''yy'', frame_str ''zzz'', Next None] fb_new"

definition test_byte_at_a_time :: bool where
  "test_byte_at_a_time =
     (let frame = make_frame (bytes_of ''hi'') in fb_test
       (concat (map (\<lambda>byte. [Feed [byte], Next None]) (take (length frame - 1) frame)) @
        [Feed (drop (length frame - 1) frame), frame_str ''hi'']) fb_new)"

definition test_partial_length_then_rest :: bool where
  "test_partial_length_then_rest =
     (let payload = replicate 200 0xAB; frame = make_frame payload
      in fb_test [Feed (take 1 frame), Next None, Feed (drop 1 frame), frame_is payload] fb_new)"

definition test_partial_payload_then_rest :: bool where
  "test_partial_payload_then_rest =
     (let frame = make_frame (bytes_of ''hello world''); split = 5
      in fb_test [Feed (take split frame), Next None, Feed (drop split frame), frame_str ''hello world''] fb_new)"

definition test_second_frame_arrives_later :: bool where
  "test_second_frame_arrives_later = fb_test
     [Feed (make_frame (bytes_of ''first'')), frame_str ''first'', Next None,
      Feed (make_frame (bytes_of ''second'')), frame_str ''second'', Next None] fb_new"

definition test_payload_at_varint_boundary_128 :: bool where
  "test_payload_at_varint_boundary_128 =
     (let payload = replicate 128 0xFF; frame = make_frame payload
      in frame ! 0 = 0x80 \<and> frame ! 1 = 0x01 \<and> fb_test [Feed frame, frame_is payload] fb_new)"

definition test_varint_out_of_range_returns_error :: bool where
  "test_varint_out_of_range_returns_error =
     fb_test [Feed (replicate 11 0x80), Next (Some (Inl FbError))] fb_new"

definition test_after_error_always_returns_error :: bool where
  "test_after_error_always_returns_error = fb_test
     [Feed (replicate 11 0x80), Next (Some (Inl FbError)),
      Feed (make_frame (bytes_of ''valid'')), Next (Some (Inl FbError))] fb_new"

definition test_next_returns_exact_size_iterator :: bool where
  "test_next_returns_exact_size_iterator =
     (case fst (fb_next (fb_feed fb_new (make_frame (bytes_of ''size check'')))) of
        Some (Inr it) \<Rightarrow> length it = 10
      | _ \<Rightarrow> False)"

definition test_interleaved_feed_and_next :: bool where
  "test_interleaved_feed_and_next =
     (let frame1 = make_frame (bytes_of ''aaa''); frame2 = make_frame (bytes_of ''bb''); split = 2
      in fb_test [Feed (take split frame1), Next None, Feed (drop split frame1 @ frame2),
           frame_str ''aaa'', frame_str ''bb'', Next None] fb_new)"

definition test_large_payload :: bool where
  "test_large_payload =
     (let frame = make_frame (replicate 16384 0x42)
      in case fst (fb_next (fb_feed fb_new frame)) of
           Some (Inr result) \<Rightarrow> length result = 16384 \<and> list_all (\<lambda>b. b = 0x42) result
         | _ \<Rightarrow> False)"

lemma frame_buffer_tests_pass:
  "test_decodes_frames" "test_empty_buffer_returns_none" "test_two_frames_fed_together"
  "test_three_frames_fed_together" "test_byte_at_a_time" "test_partial_length_then_rest"
  "test_partial_payload_then_rest" "test_second_frame_arrives_later"
  "test_payload_at_varint_boundary_128" "test_varint_out_of_range_returns_error"
  "test_after_error_always_returns_error" "test_next_returns_exact_size_iterator"
  "test_interleaved_feed_and_next"
  by code_simp+

text \<open>The large frame is too long to evaluate; it is a frame, so that the buffer hands it out.\<close>

lemma test_large_payload_passes: "test_large_payload"
proof -
  let ?p = "replicate 16384 (0x42 :: u8)"
  have "fb_rep (fb_feed fb_new (make_frame ?p)) (make_frame ?p)"
    using fb_rep_fresh [of "fb_feed fb_new (make_frame ?p)"] by (simp add: fb_feed_def fb_new_def)
  moreover have "parse_frame (make_frame ?p) = Frame ?p []"
    using parse_make_frame [of ?p "[]"] by simp
  ultimately obtain b where "fb_next (fb_feed fb_new (make_frame ?p)) = (Some (Inr ?p), b)"
    using fb_next_loop_ok [of "fb_feed fb_new (make_frame ?p)" "make_frame ?p"]
    by (auto simp: fb_next_eq_loop fb_step_ok_def)
  then show ?thesis unfolding test_large_payload_def Let_def by (simp add: list_all_iff)
qed

section \<open>Protobuf\<close>

text \<open>The closure given to \<open>encode_to_vec\<close> is the list of the fields it encodes, in order.\<close>

definition pb_encode_to_vec :: "Field list \<Rightarrow> bytes option" where
  "pb_encode_to_vec fs =
     map_option (\<lambda>enc. take (num_encoded enc) (ebuf enc)) (encode_fields (protobuf_encode (replicate 256 0)) fs)"

text \<open>The same without the slice of 256 bytes, for the evaluation.\<close>

lemma pb_encode_to_vec_code [code]:
  "pb_encode_to_vec fs = (let bs = fields_bytes fs in if length bs \<le> 256 then Some bs else None)"
  by (simp add: pb_encode_to_vec_def encode_fields_eq num_encoded_write Let_def)
     (simp add: enc_write_def protobuf_encode_def)

definition test_wire_type_from_u8 :: bool where
  "test_wire_type_from_u8 =
     (map WireType_from_u8 [0, 1, 2, 3, 4, 5, 6, 7] =
      [WVarint, WI64, WData, WDeprecatedGroups 3, WDeprecatedGroups 4, WI32, WUnknown 6, WUnknown 7])"

definition test_wire_type_to_u8_round_trip :: bool where
  "test_wire_type_to_u8_round_trip =
     (map WireType_to_u8 [WVarint, WI64, WData, WDeprecatedGroups 3, WDeprecatedGroups 4, WI32, WUnknown 6] =
      [0, 1, 2, 3, 4, 5, 6])"

definition test_encode_fields :: bool where
  "test_encode_fields = list_all (\<lambda>(f, expected). pb_encode_to_vec [f] = Some expected)
     [((1, FVarint 150), [0x08, 0x96, 0x01]),
      ((1, FVarint 0), [0x08, 0x00]),
      ((2, FData (bytes_of ''hello'')), [0x12, 0x05, 104, 101, 108, 108, 111]),
      ((1, FData []), [0x0A, 0x00]),
      ((1, FI64 [1, 2, 3, 4, 5, 6, 7, 8]), [0x09, 1, 2, 3, 4, 5, 6, 7, 8]),
      ((3, FI32 [0xAA, 0xBB, 0xCC, 0xDD]), [0x1D, 0xAA, 0xBB, 0xCC, 0xDD])]"

definition test_encode_num_encoded_tracks_bytes :: bool where
  "test_encode_num_encoded_tracks_bytes =
     (let enc = protobuf_encode (replicate 64 0) in num_encoded enc = 0 \<and>
      (case encode_varint enc 1 0 of
         None \<Rightarrow> False
       | Some enc \<Rightarrow> num_encoded enc = 2 \<and>
           (case encode_data enc 2 (bytes_of ''ab'') of
              None \<Rightarrow> False
            | Some enc \<Rightarrow> num_encoded enc = 6)))"

definition test_decode_fields :: bool where
  "test_decode_fields = list_all (\<lambda>(bs, f). protobuf_decode collect_visitor bs [] = (Inr (), [], [f]))
     [([0x08, 0x96, 0x01], (1, FVarint 150)),
      ([0x12, 0x05, 104, 101, 108, 108, 111], (2, FData (bytes_of ''hello''))),
      ([0x09, 1, 2, 3, 4, 5, 6, 7, 8], (1, FI64 [1, 2, 3, 4, 5, 6, 7, 8])),
      ([0x1D, 0xAA, 0xBB, 0xCC, 0xDD], (3, FI32 [0xAA, 0xBB, 0xCC, 0xDD]))]"

definition test_decode_empty_input_is_ok :: bool where
  "test_decode_empty_input_is_ok =
     (case protobuf_decode collect_visitor [] [] of (r, _, fs) \<Rightarrow> r = Inr () \<and> fs = [])"

text \<open>The round trip tests decode what they encoded and compare the fields.\<close>

definition pb_round_trip :: "Field list \<Rightarrow> bool" where
  "pb_round_trip fs =
     (case pb_encode_to_vec fs of
        None \<Rightarrow> False
      | Some bs \<Rightarrow> (case protobuf_decode collect_visitor bs [] of (r, _, fs') \<Rightarrow> r = Inr () \<and> fs' = fs))"

definition test_round_trip_fields :: bool where
  "test_round_trip_fields = list_all (\<lambda>f. pb_round_trip [f])
     [(5, FVarint 12345),
      (10, FData (bytes_of ''protobuf test data!'')),
      (7, FI64 [0x08, 0x07, 0x06, 0x05, 0x04, 0x03, 0x02, 0x01]),
      (4, FI32 [0xEF, 0xBE, 0xAD, 0xDE])]"

definition test_round_trip_multiple_fields :: bool where
  "test_round_trip_multiple_fields = pb_round_trip
     [(1, FVarint 42), (2, FData (bytes_of ''abc'')), (3, FI32 [0x01, 0x02, 0x03, 0x04]),
      (4, FI64 [0x10, 0x20, 0x30, 0x40, 0x50, 0x60, 0x70, 0x80]), (5, FVarint 0), (6, FData [])]"

definition test_round_trip_large_numbers :: bool where
  "test_round_trip_large_numbers =
     (pb_round_trip [(1000, FVarint 99)] \<and> pb_round_trip [(1, FVarint 0xFFFFFFFFFFFFFFFF)])"

definition test_decode_truncated :: bool where
  "test_decode_truncated = list_all (\<lambda>(bs, need, got).
     fst (protobuf_decode collect_visitor bs []) = Inl (PUnexpectedEndOfInput need got))
     [([0x09, 0x01, 0x02, 0x03], 8, 3), ([0x0D, 0x01, 0x02], 4, 2), ([0x0A, 0x0A, 0x01, 0x02, 0x03], 10, 3)]"

definition test_decode_invalid_wire_type :: bool where
  "test_decode_invalid_wire_type = list_all (\<lambda>(bs, n).
     fst (protobuf_decode collect_visitor bs []) = Inl (PInvalidWireType n)) [([0x0E], 6), ([0x0F], 7)]"

definition test_decode_deprecated_group_tags_are_skipped :: bool where
  "test_decode_deprecated_group_tags_are_skipped =
     (case protobuf_decode collect_visitor [0x08, 0x2A, 0x13, 0x18, 0x63] [] of
        (r, _, fs) \<Rightarrow> r = Inr () \<and> fs = [(1, FVarint 42), (3, FVarint 99)])"

definition test_decode_bad_varint_propagates_error :: bool where
  "test_decode_bad_varint_propagates_error = list_all (\<lambda>bs.
     case fst (protobuf_decode collect_visitor bs []) of Inl (PVarint _) \<Rightarrow> True | _ \<Rightarrow> False)
     [replicate 11 0x80, 0x08 # replicate 11 0x80]"

definition test_tag_encoding :: bool where
  "test_tag_encoding =
     (list_all (\<lambda>i. map_option length (pb_encode_to_vec [(i, FVarint 0)]) = Some 2)
        [1, 2, 3, 4, 5, 6, 7, 8, 9, 10, 11, 12, 13, 14, 15] \<and>
      map_option length (pb_encode_to_vec [(16, FVarint 0)]) = Some 3)"

text \<open>Encoding is evaluated by rewriting; the round trips follow from the general one.\<close>

lemmas varint_bytes_eval =
  varint_bytes.simps [of "numeral n" for n] varint_bytes.simps [of 0] varint_bytes.simps [of 1]

lemma pb_round_trip_fits:
  assumes "list_all field_ok fs" and "length (fields_bytes fs) \<le> 256"
  shows "pb_round_trip fs"
  using assms(2) protobuf_decode_fields [OF assms(1), of collect_visitor "[]" "[]"]
  by (simp add: pb_round_trip_def pb_encode_to_vec_code fold_collect)

lemmas pb_eval = pb_encode_to_vec_code tag_of_def bytes_of_def varint_bytes_eval pb_round_trip_fits

lemma protobuf_encode_tests_pass:
  "test_encode_fields" "test_tag_encoding" "test_round_trip_fields"
  "test_round_trip_multiple_fields" "test_round_trip_large_numbers"
  by (simp_all add: test_encode_fields_def test_tag_encoding_def test_round_trip_fields_def
      test_round_trip_multiple_fields_def test_round_trip_large_numbers_def pb_eval)

lemma protobuf_tests_pass:
  "test_wire_type_from_u8" "test_wire_type_to_u8_round_trip"
  "test_encode_num_encoded_tracks_bytes" "test_decode_empty_input_is_ok"
  "test_decode_truncated" "test_decode_invalid_wire_type"
  "test_decode_deprecated_group_tags_are_skipped" "test_decode_bad_varint_propagates_error"
  by code_simp+

lemma test_decode_fields_passes: "test_decode_fields"
  by code_simp

section \<open>Timers\<close>

text \<open>
  The tests' platform: \<open>MOCK_SLEEPS\<close> is its state, a sleep is its index there. A sleep polled before
  it is ready stores the waker, which \<open>complete_sleep\<close> takes and calls.
\<close>

record MockSleepInner =
  mock_ready :: bool
  mock_waker :: bool

definition test_platform :: "(MockSleepInner list, nat) PlatformT" where
  "test_platform = \<lparr>fill_with_random_bytes = (\<lambda>_ _. []), pf_sleep = (\<lambda>sleeps _. length sleeps),
     pf_poll = (\<lambda>sleeps i. (if mock_ready (sleeps ! i) then Ready () else Pending, False, i))\<rparr>"

datatype 't timer_call = Add 't | CompleteSleep nat | TryNext "'t option"

text \<open>The sleep polled by \<open>try_next\<close>, if there is one.\<close>

definition polled_sleep :: "('t, nat) Timers \<Rightarrow> nat option" where
  "polled_sleep t = (if poll_next t then (case timers t of [] \<Rightarrow> None | (_, i) # _ \<Rightarrow> Some i) else None)"

definition store_waker :: "('t, nat) Timers \<Rightarrow> MockSleepInner list \<Rightarrow> MockSleepInner list" where
  "store_waker t sleeps =
     (case polled_sleep t of
        None \<Rightarrow> sleeps
      | Some i \<Rightarrow> if mock_ready (sleeps ! i) then sleeps else sleeps[i := (sleeps ! i)\<lparr>mock_waker := True\<rparr>])"

fun timers_test :: "'t timer_call list \<Rightarrow> MockSleepInner list \<Rightarrow> ('t, nat) Timers \<Rightarrow> bool" where
  "timers_test [] sleeps t = True"
| "timers_test (Add item # calls) sleeps t =
     timers_test calls (sleeps @ [\<lparr>mock_ready = False, mock_waker = False\<rparr>]) (timers_add test_platform sleeps item t)"
| "timers_test (CompleteSleep i # calls) sleeps t =
     (i < length sleeps \<and>
      timers_test calls (sleeps[i := \<lparr>mock_ready = True, mock_waker = False\<rparr>])
        (if mock_waker (sleeps ! i) then timers_wake t else t))"
| "timers_test (TryNext expected # calls) sleeps t =
     (let (r, t') = timers_try_next test_platform sleeps t
      in r = expected \<and> timers_test calls (store_waker t sleeps) t')"

definition test_try_next_returns_none_when_empty :: bool where
  "test_try_next_returns_none_when_empty = timers_test [TryNext (None :: nat option)] [] (timers_new 1000000000)"

definition test_returns_item_after_sleep_completes :: bool where
  "test_returns_item_after_sleep_completes = timers_test
     [Add ''hello'', TryNext None, CompleteSleep 0, TryNext (Some ''hello''), TryNext None]
     [] (timers_new 1000000000)"

definition test_fifo_order_when_all_complete :: bool where
  "test_fifo_order_when_all_complete = timers_test
     [Add (1 :: nat), Add 2, Add 3, CompleteSleep 0, CompleteSleep 1, CompleteSleep 2,
      TryNext (Some 1), TryNext (Some 2), TryNext (Some 3), TryNext None] [] (timers_new 1000000000)"

definition test_blocked_until_front_completes :: bool where
  "test_blocked_until_front_completes = timers_test
     [Add (1 :: nat), Add 2, CompleteSleep 1, TryNext None, CompleteSleep 0,
      TryNext (Some 1), TryNext (Some 2)] [] (timers_new 1000000000)"

definition test_add_after_drain_works :: bool where
  "test_add_after_drain_works = timers_test
     [Add (1 :: nat), CompleteSleep 0, TryNext (Some 1), TryNext None,
      Add 2, TryNext None, CompleteSleep 1, TryNext (Some 2)] [] (timers_new 1000000000)"

definition test_interleaved_add_and_drain :: bool where
  "test_interleaved_add_and_drain = timers_test
     [Add (1 :: nat), CompleteSleep 0, TryNext (Some 1), Add 2, Add 3, CompleteSleep 1, TryNext (Some 2),
      Add 4, CompleteSleep 2, CompleteSleep 3, TryNext (Some 3), TryNext (Some 4)] [] (timers_new 1000000000)"

lemma timers_tests_pass:
  "test_try_next_returns_none_when_empty" "test_returns_item_after_sleep_completes"
  "test_fifo_order_when_all_complete" "test_blocked_until_front_completes"
  "test_add_after_drain_works" "test_interleaved_add_and_drain"
  by code_simp+

end
