(* ===== verification/SessionTests.thy ===== *)
theory SessionTests
  imports YamuxSession
begin

text \<open>
  The unit tests of \<open>layers/yamux.rs\<close>, run on the model of the session. A test is the list of what it
  does with the session and with the handle of its mock stream, with the assertions of the source
  in between; \<open>ys_test\<close> runs it and is \<open>False\<close> when an assertion fails, an \<open>unwrap\<close> meets an error or a
  call panics. \<open>block_on\<close> polls a future once and drops it, so that \<open>next\<close> is one step \<open>yamux_next\<close>.

  The handle extends what the session reads and drains what it wrote. The tests give the session two
  clones of one mock stream; only the one half of each is used, as the reader and as the writer.
  The data given to \<open>send_data\<close> is a fresh \<open>VecDeque\<close>, whose bytes are one slice. The fuel of a poll is
  more than the tests need: running out of it would fail the test.

  Every test passes whatever the inbound buffer holds at the start, which includes the zeroes of
  \<open>YamuxSession::new\<close>; its evaluation is by rewriting, with headers read back by their round trip.
\<close>

section \<open>Running a test\<close>

type_synonym test_session = "(MockStream, MockStream) YamuxSession"
type_synonym next_result = "(yamux_error + Output) option poll"

datatype ys_call =
    Extend bytes
  | NextIs "next_result \<Rightarrow> bool"
  | DataIs bytes
  | ReadHeader YamuxHeader
  | Drain nat bytes
  | DrainAll bytes
  | OpenStream YamuxStreamId
  | SendData YamuxStreamId bytes "yamux_error + unit"
  | CloseStream YamuxStreamId
  | CloseStreamImmediately YamuxStreamId

definition test_writer :: "test_session \<Rightarrow> MockStream" where
  "test_writer s = snd (write_fut (read_write_join s))"

definition set_writer :: "MockStream \<Rightarrow> test_session \<Rightarrow> test_session" where
  "set_writer w s = s\<lparr>read_write_join := (read_write_join s)\<lparr>write_fut := (fst (write_fut (read_write_join s)), w)\<rparr>\<rparr>"

definition read_header :: "MockStream \<Rightarrow> (YamuxHeader \<times> MockStream) option" where
  "read_header handle =
     (case mock_drain YAMUX_FRAME_HEADER_SIZE handle of
        None \<Rightarrow> None
      | Some (bs, handle') \<Rightarrow> (case header_decode bs of Inl _ \<Rightarrow> None | Inr h \<Rightarrow> Some (h, handle')))"

definition test_next :: "test_session \<Rightarrow> (next_result \<times> test_session) run" where
  "test_next s = yamux_next mock_read_exact mock_write_all length 64 s"

fun ys_test :: "ys_call list \<Rightarrow> test_session \<Rightarrow> bool" where
  "ys_test [] s = True"
| "ys_test (Extend bs # calls) s =
     ys_test calls (s\<lparr>ys_world := (ys_world s)\<lparr>yw_reader := mock_extend bs (yw_reader (ys_world s))\<rparr>\<rparr>)"
| "ys_test (NextIs P # calls) s =
     (case test_next s of Done (r, s') \<Rightarrow> P r \<and> ys_test calls s' | _ \<Rightarrow> False)"
| "ys_test (DataIs bs # calls) s = (yamux_data s = Some bs \<and> ys_test calls s)"
| "ys_test (ReadHeader h # calls) s =
     (case read_header (test_writer s) of
        None \<Rightarrow> False
      | Some (h', w) \<Rightarrow> h' = h \<and> ys_test calls (set_writer w s))"
| "ys_test (Drain n bs # calls) s =
     (case mock_drain n (test_writer s) of
        None \<Rightarrow> False
      | Some (bs', w) \<Rightarrow> bs' = bs \<and> ys_test calls (set_writer w s))"
| "ys_test (DrainAll bs # calls) s =
     (case mock_drain_all (test_writer s) of (bs', w) \<Rightarrow> bs' = bs \<and> ys_test calls (set_writer w s))"
| "ys_test (OpenStream i # calls) s =
     (case session_open_stream s of None \<Rightarrow> False | Some (i', s') \<Rightarrow> i' = i \<and> ys_test calls s')"
| "ys_test (SendData i bs r # calls) s =
     (case session_send_data i bs s of (r', s') \<Rightarrow> r' = r \<and> ys_test calls s')"
| "ys_test (CloseStream i # calls) s = ys_test calls (on_shared (yamux_close_stream i) s)"
| "ys_test (CloseStreamImmediately i # calls) s =
     ys_test calls (on_shared (yamux_close_stream_immediately i) s)"

text \<open>The assertions the tests make of the result of \<open>next\<close>.\<close>

definition is_output :: "YamuxStreamId \<Rightarrow> OutputState \<Rightarrow> next_result \<Rightarrow> bool" where
  "is_output i st r = (r = Ready (Some (Inr (mk_output i st))))"

definition is_output_state :: "OutputState \<Rightarrow> next_result \<Rightarrow> bool" where
  "is_output_state st r = (case r of Ready (Some (Inr res)) \<Rightarrow> out_state res = st | _ \<Rightarrow> False)"

definition is_some_output :: "next_result \<Rightarrow> bool" where
  "is_some_output r = (case r of Ready (Some (Inr _)) \<Rightarrow> True | _ \<Rightarrow> False)"

definition is_error :: "yamux_error \<Rightarrow> next_result \<Rightarrow> bool" where
  "is_error e r = (r = Ready (Some (Inl e)))"

definition is_pending :: "next_result \<Rightarrow> bool" where
  "is_pending r = (r = Pending)"

definition is_none :: "next_result \<Rightarrow> bool" where
  "is_none r = (r = Ready None)"

abbreviation any_result :: ys_call where
  "any_result \<equiv> NextIs (\<lambda>_. True)"

text \<open>A session with the inbound buffer \<open>buf\<close>; \<open>YamuxSession::new\<close> has one of zeroes.\<close>

definition session_with :: "bytes \<Rightarrow> test_session" where
  "session_with buf = (yamux_new mock_new mock_new)\<lparr>ys_world := (ys_world (yamux_new mock_new mock_new :: test_session))\<lparr>yw_inbound_buf := buf\<rparr>\<rparr>"

lemma session_with_zeroes: "session_with (replicate MAX_FRAME_SIZE 0) = yamux_new mock_new mock_new"
  by (simp add: session_with_def yamux_new_def)

text \<open>The headers of the tests, with \<open>data.len() as u32\<close>, and the usual start of a test.\<close>

definition data_frame :: "FrameFlags \<Rightarrow> string \<Rightarrow> bytes" where
  "data_frame flags data =
     header_encode (mk_header FtData flags 2 (of_nat (length data))) @ bytes_of data"

definition data_on :: "YamuxStreamId \<Rightarrow> string \<Rightarrow> bytes" where
  "data_on i data = header_encode (hdr_send_data i (of_nat (length data))) @ bytes_of data"

definition data_received :: "YamuxStreamId \<Rightarrow> string \<Rightarrow> ys_call list" where
  "data_received i data = [NextIs (is_output i (OData (length data))), DataIs (bytes_of data)]"

definition opened_with_data :: "string \<Rightarrow> ys_call list" where
  "opened_with_data data =
     [Extend (header_encode (hdr_open_stream 2)), Extend (data_on 2 data), any_result, any_result]"

section \<open>Tests\<close>

definition test_new_streams_can_be_opened :: "ys_call list" where
  "test_new_streams_can_be_opened =
     [Extend (header_encode (hdr_open_stream 2)), Extend (data_on 2 ''Hello world''),
      NextIs (is_output 2 OpenedByRemote), ReadHeader (hdr_accept_stream 2)] @
     data_received 2 ''Hello world'' @ [NextIs is_pending]"

definition test_new_streams_can_be_opened_with_data :: "ys_call list" where
  "test_new_streams_can_be_opened_with_data =
     [Extend (data_frame (flags_from Syn) ''Hello world''),
      NextIs (is_output 2 OpenedByRemote), ReadHeader (hdr_accept_stream 2)] @
     data_received 2 ''Hello world'' @ [NextIs is_pending]"

definition test_ping_receives_pong :: "ys_call list" where
  "test_ping_receives_pong =
     [Extend (header_encode (mk_header FtPing flags_empty 0 0xDEADBEEF)), any_result,
      ReadHeader (hdr_pong 0 0xDEADBEEF)]"

definition test_remote_fin_closes_stream :: "ys_call list" where
  "test_remote_fin_closes_stream =
     [Extend (header_encode (hdr_open_stream 2)), Extend (data_frame (flags_from Fin) ''goodbye''),
      NextIs (is_output 2 OpenedByRemote)] @
     data_received 2 ''goodbye'' @ [NextIs (is_output 2 ClosedByRemote)]"

definition test_remote_rst_closes_stream :: "ys_call list" where
  "test_remote_rst_closes_stream =
     [Extend (header_encode (hdr_open_stream 2)), Extend (data_frame (flags_from Rst) ''reset''),
      NextIs (is_output 2 OpenedByRemote)] @
     data_received 2 ''reset'' @ [NextIs (is_output 2 ClosedByRemote)]"

definition test_window_update_with_fin_returns_closed :: "ys_call list" where
  "test_window_update_with_fin_returns_closed =
     [Extend (header_encode (hdr_open_stream 2)), NextIs (is_output 2 OpenedByRemote),
      Extend (header_encode (mk_header FtWindowUpdate (flags_from Fin) 2 0)),
      NextIs (is_output 2 ClosedByRemote)]"

definition test_window_update_with_rst_returns_closed :: "ys_call list" where
  "test_window_update_with_rst_returns_closed = opened_with_data ''x'' @
     [Extend (header_encode (mk_header FtWindowUpdate (flags_from Rst) 2 0)),
      NextIs (is_output 2 ClosedByRemote)]"

definition test_odd_stream_id_from_remote_is_rejected :: "ys_call list" where
  "test_odd_stream_id_from_remote_is_rejected =
     [Extend (header_encode (hdr_open_stream 3)), NextIs (is_error (YInvalidStreamId 3))]"

definition test_session_id_zero_from_remote_is_rejected :: "ys_call list" where
  "test_session_id_zero_from_remote_is_rejected =
     [Extend (header_encode (hdr_open_stream 0)), NextIs (is_error (YInvalidStreamId 0))]"

definition test_duplicate_stream_id_from_remote_is_rejected :: "ys_call list" where
  "test_duplicate_stream_id_from_remote_is_rejected = opened_with_data ''first'' @
     [Extend (header_encode (hdr_open_stream 2)), NextIs (is_error (YDuplicateStreamId 2))]"

text \<open>\<open>GoAwayType\<close> as the codes of the enum: 0, 1 for a protocol error, 2 for an internal one.\<close>

definition goaway_frame :: "u32 \<Rightarrow> ys_call" where
  "goaway_frame code = Extend (header_encode (mk_header FtGoAway flags_empty 0 code))"

definition test_goaway_normal_termination_returns_none :: "ys_call list" where
  "test_goaway_normal_termination_returns_none =
     opened_with_data ''x'' @ [goaway_frame 0, NextIs is_none]"

definition test_goaway_internal_error :: "ys_call list" where
  "test_goaway_internal_error =
     opened_with_data ''x'' @ [goaway_frame 2, NextIs (is_error YServerInternalError)]"

definition test_goaway_protocol_error :: "ys_call list" where
  "test_goaway_protocol_error =
     opened_with_data ''x'' @ [goaway_frame 1, NextIs (is_error YServerProtocolError)]"

definition test_goaway_unknown_error :: "ys_call list" where
  "test_goaway_unknown_error =
     opened_with_data ''x'' @ [goaway_frame 0xFF, NextIs (is_error (YServerUnknownError 0xFF))]"

definition test_data_after_fin_is_error :: "ys_call list" where
  "test_data_after_fin_is_error =
     [Extend (header_encode (hdr_open_stream 2)), Extend (data_frame (flags_from Fin) ''bye''),
      Extend (data_on 2 ''bad''), NextIs (is_output 2 OpenedByRemote)] @
     data_received 2 ''bye'' @
     [NextIs (is_output_state ClosedByRemote), NextIs (is_error (YDataSentAfterFin 2))]"

definition test_frame_too_large_is_error :: "ys_call list" where
  "test_frame_too_large_is_error = opened_with_data ''x'' @
     [Extend (header_encode (hdr_send_data 2 (of_nat (MAX_FRAME_SIZE + 1)))),
      NextIs (is_error (YFrameTooLarge (MAX_FRAME_SIZE + 1)))]"

definition test_none_after_error :: "ys_call list" where
  "test_none_after_error =
     [Extend (header_encode (hdr_open_stream 3)), any_result, NextIs is_none]"

definition test_client_open_stream_sends_syn :: "ys_call list" where
  "test_client_open_stream_sends_syn =
     [OpenStream 1, NextIs is_pending, ReadHeader (hdr_open_stream 1)]"

definition test_client_open_stream_ids_increment :: "ys_call list" where
  "test_client_open_stream_ids_increment = [OpenStream 1, OpenStream 3, OpenStream 5]"

definition test_send_data_on_nonexistent_stream_is_error :: "ys_call list" where
  "test_send_data_on_nonexistent_stream_is_error =
     [SendData 99 (bytes_of ''hello'') (Inl (YStreamNotFound 99))]"

definition test_client_sends_data_on_stream :: "ys_call list" where
  "test_client_sends_data_on_stream =
     [OpenStream 1, SendData 1 (bytes_of ''hello'') (Inr ()), any_result, ReadHeader (hdr_open_stream 1),
      any_result, ReadHeader (hdr_send_data 1 5), Drain 5 (bytes_of ''hello'')]"

definition test_close_stream_sends_fin :: "ys_call list" where
  "test_close_stream_sends_fin =
     [OpenStream 1, CloseStream 1, any_result, ReadHeader (hdr_open_stream 1),
      any_result, ReadHeader (hdr_close_stream 1)]"

definition test_close_stream_immediately_skips_buffered_data :: "ys_call list" where
  "test_close_stream_immediately_skips_buffered_data =
     [OpenStream 1, SendData 1 (bytes_of ''this should be dropped'') (Inr ()), CloseStreamImmediately 1,
      any_result, ReadHeader (hdr_close_stream 1), DrainAll []]"

definition test_multiple_streams_interleave :: "ys_call list" where
  "test_multiple_streams_interleave =
     [Extend (header_encode (hdr_open_stream 2)), Extend (data_on 2 ''stream2''),
      Extend (header_encode (hdr_open_stream 4)), Extend (data_on 4 ''stream4''),
      NextIs (is_output 2 OpenedByRemote)] @ data_received 2 ''stream2'' @
     [NextIs (is_output 4 OpenedByRemote)] @ data_received 4 ''stream4''"

definition test_zero_length_data_frame_is_skipped :: "ys_call list" where
  "test_zero_length_data_frame_is_skipped =
     [Extend (header_encode (hdr_open_stream 2)), Extend (header_encode (hdr_send_data 2 0)),
      Extend (data_on 2 ''real data''), NextIs (is_output 2 OpenedByRemote)] @
     data_received 2 ''real data''"

definition test_window_update_is_processed :: "ys_call list" where
  "test_window_update_is_processed = opened_with_data ''x'' @
     [Extend (header_encode (hdr_window_update 2 4096)), Extend (data_on 2 ''after update'')] @
     data_received 2 ''after update''"

text \<open>Cancellation: the header of a data frame arrives, \<open>next\<close> is dropped, then the body arrives.\<close>

definition test_next_is_cancel_safe_mid_data_read :: "ys_call list" where
  "test_next_is_cancel_safe_mid_data_read =
     (let data = ''cancel safe test'' in
      [Extend (header_encode (hdr_open_stream 2)), NextIs (is_output_state OpenedByRemote),
       Extend (header_encode (hdr_send_data 2 (of_nat (length data)))), NextIs is_pending,
       Extend (bytes_of data)] @ data_received 2 data)"

definition test_next_is_cancel_safe_before_any_bytes :: "ys_call list" where
  "test_next_is_cancel_safe_before_any_bytes =
     (let data = ''hello after cancels'' in
      [NextIs is_pending, NextIs is_pending, NextIs is_pending,
       Extend (header_encode (hdr_open_stream 2)), Extend (data_on 2 data),
       NextIs (is_output_state OpenedByRemote), NextIs (is_output_state (OData (length data))),
       DataIs (bytes_of data)])"

definition test_next_is_cancel_safe_repeated_mid_read_cancellations :: "ys_call list" where
  "test_next_is_cancel_safe_repeated_mid_read_cancellations =
     (let data = ''resilient'' in
      [Extend (header_encode (hdr_open_stream 2)), NextIs is_some_output,
       Extend (header_encode (hdr_send_data 2 (of_nat (length data)))),
       NextIs is_pending, NextIs is_pending, NextIs is_pending, Extend (bytes_of data)] @
      data_received 2 data)"

definition test_next_is_cancel_safe_then_further_frames_work :: "ys_call list" where
  "test_next_is_cancel_safe_then_further_frames_work =
     (let data1 = ''first''; data2 = ''second'' in
      [Extend (header_encode (hdr_open_stream 2)), NextIs is_some_output,
       Extend (header_encode (hdr_send_data 2 (of_nat (length data1)))), NextIs is_pending,
       Extend (bytes_of data1), NextIs (is_output_state (OData (length data1))), DataIs (bytes_of data1),
       Extend (data_on 2 data2), NextIs (is_output_state (OData (length data2))), DataIs (bytes_of data2)])"

section \<open>Results\<close>

lemma mock_extend_eq: "mock_extend bs s = s\<lparr>ms_read_buf := ms_read_buf s @ bs\<rparr>"
  unfolding mock_extend_def by (induction bs arbitrary: s) (simp_all add: mock_push_def)

lemma read_next_numeral:
  "read_next rd (numeral n) f sh =
     (case read_advance rd f sh of
        (RPending, f', sh') \<Rightarrow> Some (Pending, f', sh')
      | (RReturn r, f', sh') \<Rightarrow> Some (Ready r, f', sh')
      | (RLoop, f', sh') \<Rightarrow> read_next rd (pred_numeral n) f' sh')"
  by (simp add: numeral_eq_Suc)

lemma write_next_numeral:
  "write_next sl wr (numeral n) pc w sh =
     (case write_advance sl wr pc w sh of
        (WPending, pc', w', sh') \<Rightarrow> Some (None, pc', w', sh')
      | (WError e, pc', w', sh') \<Rightarrow> Some (Some e, pc', w', sh')
      | (WLoop, pc', w', sh') \<Rightarrow> write_next sl wr (pred_numeral n) pc' w' sh')"
  by (simp add: numeral_eq_Suc)

lemmas session_start_eval =
  session_with_def yamux_new_def ReadWriteJoin_new_def SharedState_new_def mock_new_def sid_first_def

lemmas session_step_eval =
  test_next_def yamux_next_def yamux_next_inner_def join_call_def Let_def
  poll_read_fut_def poll_write_fut_def read_next_numeral write_next_numeral

lemmas read_eval =
  read_advance_def read_at_top_def read_at_header_def read_at_data_def after_handler_def write_front_def
  handle_frame_def handle_data_def handle_window_update_def handle_ping_def handle_goaway_def
  GoAwayType_from_u32_def frame_stream_def negotiate_new_stream_request_def data_bookkeeping_def
  is_open_new_stream_def sid_is_even_def sid_is_session_id_def saturating_add_def usize_max_def

lemmas write_eval =
  write_advance_def gather_def write_loop.simps write_one_def write_data_def write_await_def

lemmas state_eval =
  flush_writes_def get_stream_def set_stream_def push_msg_def StreamState_new_def
  bt_empty_def bt_get_def bt_remove_def bt_len_def on_shared_def session_open_stream_def
  yamux_open_stream_def sid_increment_def session_send_data_def yamux_send_data_def
  yamux_close_stream_def yamux_close_stream_immediately_def yamux_data_def

lemmas wire_eval =
  mock_extend_eq mock_read_exact_def mock_write_all_def mock_drain_def mock_drain_all_def
  read_header_def test_writer_def set_writer_def header_decode_encode hdr_defs mk_header_def
  YAMUX_FRAME_HEADER_SIZE_def YAMUX_VERSION_def MAX_FRAME_SIZE_def DEFAULT_WINDOW_def MAX_STREAMS_def MAX_SEND_SIZE_def

lemmas assertion_eval =
  is_output_def is_output_state_def is_some_output_def is_error_def is_pending_def is_none_def
  data_received_def opened_with_data_def data_on_def data_frame_def goaway_frame_def

lemmas ys_eval =
  session_start_eval session_step_eval read_eval write_eval state_eval wire_eval assertion_eval

lemma incoming_frames_tests_pass:
  "ys_test test_new_streams_can_be_opened (session_with buf)"
  "ys_test test_new_streams_can_be_opened_with_data (session_with buf)"
  "ys_test test_ping_receives_pong (session_with buf)"
  "ys_test test_remote_fin_closes_stream (session_with buf)"
  "ys_test test_remote_rst_closes_stream (session_with buf)"
  by (simp_all add: test_new_streams_can_be_opened_def
    test_new_streams_can_be_opened_with_data_def
    test_ping_receives_pong_def
    test_remote_fin_closes_stream_def
    test_remote_rst_closes_stream_def ys_eval)

lemma window_and_identifier_tests_pass:
  "ys_test test_window_update_with_fin_returns_closed (session_with buf)"
  "ys_test test_window_update_with_rst_returns_closed (session_with buf)"
  "ys_test test_odd_stream_id_from_remote_is_rejected (session_with buf)"
  "ys_test test_session_id_zero_from_remote_is_rejected (session_with buf)"
  "ys_test test_duplicate_stream_id_from_remote_is_rejected (session_with buf)"
  by (simp_all add: test_window_update_with_fin_returns_closed_def
    test_window_update_with_rst_returns_closed_def
    test_odd_stream_id_from_remote_is_rejected_def
    test_session_id_zero_from_remote_is_rejected_def
    test_duplicate_stream_id_from_remote_is_rejected_def ys_eval)

lemma goaway_and_error_tests_pass:
  "ys_test test_goaway_normal_termination_returns_none (session_with buf)"
  "ys_test test_goaway_internal_error (session_with buf)"
  "ys_test test_goaway_protocol_error (session_with buf)"
  "ys_test test_goaway_unknown_error (session_with buf)"
  "ys_test test_data_after_fin_is_error (session_with buf)"
  "ys_test test_frame_too_large_is_error (session_with buf)"
  "ys_test test_none_after_error (session_with buf)"
  by (simp_all add: test_goaway_normal_termination_returns_none_def
    test_goaway_internal_error_def
    test_goaway_protocol_error_def
    test_goaway_unknown_error_def
    test_data_after_fin_is_error_def
    test_frame_too_large_is_error_def
    test_none_after_error_def ys_eval)

lemma client_tests_pass:
  "ys_test test_client_open_stream_sends_syn (session_with buf)"
  "ys_test test_client_open_stream_ids_increment (session_with buf)"
  "ys_test test_send_data_on_nonexistent_stream_is_error (session_with buf)"
  "ys_test test_client_sends_data_on_stream (session_with buf)"
  "ys_test test_close_stream_sends_fin (session_with buf)"
  "ys_test test_close_stream_immediately_skips_buffered_data (session_with buf)"
  by (simp_all add: test_client_open_stream_sends_syn_def
    test_client_open_stream_ids_increment_def
    test_send_data_on_nonexistent_stream_is_error_def
    test_client_sends_data_on_stream_def
    test_close_stream_sends_fin_def
    test_close_stream_immediately_skips_buffered_data_def ys_eval)

lemma stream_tests_pass:
  "ys_test test_multiple_streams_interleave (session_with buf)"
  "ys_test test_zero_length_data_frame_is_skipped (session_with buf)"
  "ys_test test_window_update_is_processed (session_with buf)"
  by (simp_all add: test_multiple_streams_interleave_def
    test_zero_length_data_frame_is_skipped_def
    test_window_update_is_processed_def ys_eval)

lemma cancel_safety_tests_pass:
  "ys_test test_next_is_cancel_safe_mid_data_read (session_with buf)"
  "ys_test test_next_is_cancel_safe_before_any_bytes (session_with buf)"
  "ys_test test_next_is_cancel_safe_repeated_mid_read_cancellations (session_with buf)"
  "ys_test test_next_is_cancel_safe_then_further_frames_work (session_with buf)"
  by (simp_all add: test_next_is_cancel_safe_mid_data_read_def
    test_next_is_cancel_safe_before_any_bytes_def
    test_next_is_cancel_safe_repeated_mid_read_cancellations_def
    test_next_is_cancel_safe_then_further_frames_work_def ys_eval)

text \<open>
  Two tests call \<open>next\<close> twice and say that it sends one queued message per stream and call. It sends
  everything that the window allows: here one call writes both frames.
\<close>

lemma one_next_sends_everything:
  "ys_test [OpenStream 1, SendData 1 (bytes_of ''hello'') (Inr ()), any_result,
     DrainAll (header_encode (hdr_open_stream 1) @ header_encode (hdr_send_data 1 5) @ bytes_of ''hello'')]
     (session_with buf)"
  by (simp add: ys_eval)

end
