(* ===== verification/MultistreamTests.thy ===== *)
theory MultistreamTests
  imports SessionTests YamuxMultistream
begin

text \<open>
  The unit tests of \<open>layers/yamux_multistream.rs\<close> on negotiation and the bound of the buffers, run on the
  model like those of the session (\<open>SessionTests\<close>). \<open>block_on\<close> polls \<open>next\<close> once and drops it, so that
  every poll starts with no units of work done. The two tests that push ten megabytes through a
  stream are instances of the theorems on reassembly and on the write future, and are not run.
\<close>

section \<open>Running a test\<close>

type_synonym test_multistream = "(MockStream, MockStream) YamuxMultistream"
type_synonym ms_result = "(ms_error + MsOutput) option poll"

datatype ym_call =
    Remote bytes
  | ExpectOutput MsOutput
  | NextReturns "ms_result \<Rightarrow> bool"
  | AcceptProtocol YamuxStreamId nat
  | RejectProtocol YamuxStreamId
  | Frames "bytes list"
  | NextYamuxHeader "YamuxHeader \<Rightarrow> bool"

text \<open>The frames the tests' remote sends: every message with its varint length, in one data frame.\<close>

definition remote_opens :: "u32 \<Rightarrow> ym_call" where
  "remote_opens n = Remote (header_encode (hdr_open_stream n))"

definition remote_sends :: "u32 \<Rightarrow> bytes list \<Rightarrow> ym_call" where
  "remote_sends n messages =
     (let data = concat (map make_frame messages)
      in Remote (header_encode (hdr_send_data n (of_nat (length data))) @ data))"

definition ms_poll :: "test_multistream \<Rightarrow> (ms_result \<times> nat \<times> test_multistream) run" where
  "ms_poll m = ym_next mock_read_exact mock_write_all length 64 130 0 m"

text \<open>\<open>next_expecting_output\<close>: poll up to \<open>n\<close> times until there is an output.\<close>

fun poll_until :: "nat \<Rightarrow> test_multistream \<Rightarrow> (MsOutput \<times> test_multistream) option" where
  "poll_until 0 m = None"
| "poll_until (Suc n) m =
     (case ms_poll m of
        Done (Pending, _, m') \<Rightarrow> poll_until n m'
      | Done (Ready (Some (Inr res)), _, m') \<Rightarrow> Some (res, m')
      | _ \<Rightarrow> None)"

text \<open>
  \<open>next_multistream_frames\<close> on the bytes the session wrote: skip frames that carry no data, then split
  the data; \<open>None\<close> where the helper panics.
\<close>

function next_multistream_frames :: "bytes \<Rightarrow> (bytes list \<times> bytes) option" where
  "next_multistream_frames bs =
     (if length bs < YAMUX_FRAME_HEADER_SIZE then None
      else case header_decode (take YAMUX_FRAME_HEADER_SIZE bs) of
        Inl _ \<Rightarrow> None
      | Inr h \<Rightarrow>
          (let rest = drop YAMUX_FRAME_HEADER_SIZE bs; n = unat (hlength h)
           in if hframe_type h \<noteq> FtData then next_multistream_frames rest
              else if length rest < n then None
              else case frames_of (take n rest) of
                (frames, left) \<Rightarrow> if left = [] then Some (frames, drop n rest) else None))"
  by pat_completeness auto
termination
  by (relation "measure length") (auto simp: YAMUX_FRAME_HEADER_SIZE_def)

declare next_multistream_frames.simps [simp del]

definition ms_writer :: "test_multistream \<Rightarrow> MockStream" where
  "ms_writer m = test_writer (ym_inner m)"

definition set_ms_writer :: "MockStream \<Rightarrow> test_multistream \<Rightarrow> test_multistream" where
  "set_ms_writer w m = m\<lparr>ym_inner := set_writer w (ym_inner m)\<rparr>"

fun ym_test :: "ym_call list \<Rightarrow> test_multistream \<Rightarrow> bool" where
  "ym_test [] m = True"
| "ym_test (Remote bs # calls) m =
     ym_test calls (m\<lparr>ym_inner := (ym_inner m)\<lparr>ys_world := (ys_world (ym_inner m))
       \<lparr>yw_reader := mock_extend bs (yw_reader (ys_world (ym_inner m)))\<rparr>\<rparr>\<rparr>)"
| "ym_test (ExpectOutput out # calls) m =
     (case poll_until 10000 m of None \<Rightarrow> False | Some (out', m') \<Rightarrow> out' = out \<and> ym_test calls m')"
| "ym_test (NextReturns P # calls) m =
     (case ms_poll m of Done (r, _, m') \<Rightarrow> P r \<and> ym_test calls m' | _ \<Rightarrow> False)"
| "ym_test (AcceptProtocol i max_size # calls) m =
     (case ym_accept_protocol i max_size m of Some (Inr _, m') \<Rightarrow> ym_test calls m' | _ \<Rightarrow> False)"
| "ym_test (RejectProtocol i # calls) m =
     (case ym_reject_protocol i m of Some (Inr _, m') \<Rightarrow> ym_test calls m' | _ \<Rightarrow> False)"
| "ym_test (Frames expected # calls) m =
     (case next_multistream_frames (ms_write_buf (ms_writer m)) of
        None \<Rightarrow> False
      | Some (frames, rest) \<Rightarrow>
          frames = expected \<and> ym_test calls (set_ms_writer ((ms_writer m)\<lparr>ms_write_buf := rest\<rparr>) m))"
| "ym_test (NextYamuxHeader P # calls) m =
     (case read_header (ms_writer m) of
        None \<Rightarrow> False
      | Some (h, w) \<Rightarrow> P h \<and> ym_test calls (set_ms_writer w m))"

text \<open>A string literal with a final newline.\<close>

definition line_of :: "string \<Rightarrow> bytes" where
  "line_of s = bytes_of s @ [10]"

section \<open>Tests\<close>

definition test_accept_new_stream :: "ym_call list" where
  "test_accept_new_stream =
     [remote_opens 2, remote_sends 2 [line_of ''/multistream/1.0.0'', line_of ''/foo/bar''],
      ExpectOutput (ms_out 2 (IncomingProtocol (bytes_of ''/foo/bar''))),
      AcceptProtocol 2 usize_max, NextReturns (\<lambda>_. True),
      Frames [line_of ''/multistream/1.0.0'', line_of ''/foo/bar''],
      remote_sends 2 [bytes_of ''hello world'', bytes_of ''and more''],
      ExpectOutput (ms_out 2 (MsData (bytes_of ''hello world''))),
      ExpectOutput (ms_out 2 (MsData (bytes_of ''and more'')))]"

definition test_reject_new_stream_and_then_accept_next_proposal :: "ym_call list" where
  "test_reject_new_stream_and_then_accept_next_proposal =
     [remote_opens 2, remote_sends 2 [line_of ''/multistream/1.0.0'', line_of ''/foo/bar''],
      ExpectOutput (ms_out 2 (IncomingProtocol (bytes_of ''/foo/bar''))),
      RejectProtocol 2, NextReturns (\<lambda>_. True),
      Frames [line_of ''/multistream/1.0.0'', line_of ''na''],
      remote_sends 2 [line_of ''/foo/wibble''],
      ExpectOutput (ms_out 2 (IncomingProtocol (bytes_of ''/foo/wibble''))),
      AcceptProtocol 2 usize_max, NextReturns (\<lambda>_. True),
      Frames [line_of ''/foo/wibble'']]"

definition test_reject_invalid_multistream_header :: "ym_call list" where
  "test_reject_invalid_multistream_header =
     [remote_opens 2, remote_sends 2 [line_of ''/multistream/z.z.z'', line_of ''/foo/bar''],
      NextReturns (\<lambda>r. r = Pending),
      NextYamuxHeader (\<lambda>h. h = hdr_accept_stream 2), NextYamuxHeader (\<lambda>_. True),
      NextYamuxHeader (\<lambda>h. h = hdr_reset_stream 2)]"

definition test_max_buffer_len_is_honoured_for_protocol_agreeing :: "ym_call list" where
  "test_max_buffer_len_is_honoured_for_protocol_agreeing =
     [remote_opens 2, remote_sends 2 [line_of ''/multistream/1.0.0'', replicate 1002 97 @ [10]],
      ExpectOutput (ms_out 2 (MsClosed IncomingMessageTooLarge))]"

section \<open>Results\<close>

lemma Decoder_feed_single:
  "byte AND 128 = 0 \<Longrightarrow> Decoder_feed Decoder_new byte = DValue (ucast (byte AND 127))"
  by (simp add: Decoder_feed_def Decoder_new_def decode_valid_bytes_def numeral_eq_Suc)

lemma poll_until_numeral:
  "poll_until (numeral n) m =
     (case ms_poll m of
        Done (Pending, _, m') \<Rightarrow> poll_until (pred_numeral n) m'
      | Done (Ready (Some (Inr res)), _, m') \<Rightarrow> Some (res, m')
      | _ \<Rightarrow> None)"
  by (simp add: numeral_eq_Suc)

lemma ym_next_inner_numeral:
  "ym_next_inner rd wr sl fuel (numeral k) work_units m =
     (if WORK_UNITS_BEFORE_YIELD \<le> work_units then Done (Pending, 0, m)
      else case ym_iter rd wr sl fuel work_units m of
        (MsContinue, u, m') \<Rightarrow> ym_next_inner rd wr sl fuel (pred_numeral k) u m'
      | (MsReturn r, u, m') \<Rightarrow> Done (Ready r, 0, m')
      | (MsPending, u, m') \<Rightarrow> Done (Pending, u, m')
      | (MsPanic, u, m') \<Rightarrow> Panic
      | (MsOutOfFuel, u, m') \<Rightarrow> OutOfFuel)"
  by (simp add: numeral_eq_Suc)

lemmas varint_eval =
  varint_bytes.simps [of "numeral n" for n] varint_bytes.simps [of 0] varint_bytes.simps [of 1]
  varint_encode_eq varint_decode_def Decoder_feed_single

lemmas ms_step_eval =
  ms_poll_def poll_until_numeral ym_next_def ym_next_inner_numeral ym_iter_def ym_pull_def ym_drain_def
  ym_yamux_output_def ym_message_def ms_after_send_def result_transpose_def WORK_UNITS_BEFORE_YIELD_def

lemmas ms_state_eval =
  ym_new_def ym_get_def ym_set_def ms_new_incoming_def ym_reset_stream_immediately_def
  yamux_reset_stream_immediately_def reset_stream_immediately_with_shared_state_def
  ym_accept_protocol_def ym_reject_protocol_def send_multistream_data_def
  send_multistream_data_with_newline_def send_chunks_def MULTISTREAM_PROTOCOL_MAX_LEN_def
  MULTISTREAM_PROTOCOL_NAME_WITH_NEWLINE_def bytes_equal_iter_def from_utf8_def in_range_def

lemmas ms_wire_eval =
  remote_opens_def remote_sends_def make_frame_def line_of_def bytes_of_def ms_writer_def set_ms_writer_def
  next_multistream_frames.simps frames_of.simps parse_frame_def
  fb_new_def fb_feed_def fb_len_def fb_next_def fb_next_loop.simps

lemmas ym_eval = ys_eval varint_eval ms_step_eval ms_state_eval ms_wire_eval

lemma negotiation_tests_pass:
  "ym_test test_accept_new_stream (ym_new (session_with buf))"
  "ym_test test_reject_new_stream_and_then_accept_next_proposal (ym_new (session_with buf))"
  "ym_test test_reject_invalid_multistream_header (ym_new (session_with buf))"
  by (simp_all add: test_accept_new_stream_def
    test_reject_new_stream_and_then_accept_next_proposal_def
    test_reject_invalid_multistream_header_def ym_eval)

lemma buffer_bound_test_passes:
  "ym_test test_max_buffer_len_is_honoured_for_protocol_agreeing (ym_new (session_with buf))"
  by (simp add: test_max_buffer_len_is_honoured_for_protocol_agreeing_def ym_eval)

end
