(* ===== verification/NoiseTests.thy ===== *)
theory NoiseTests
  imports Noise
begin

text \<open>
  The unit tests of the encrypted streams in \<open>layers/noise.rs\<close>: what was written through one stream is
  handed to a read stream of the other side and read back in the given pieces. \<open>snow\<close> is a parameter,
  so that the tests are shown to pass for every pair of transport states for which decryption undoes
  encryption. \<open>encrypted_bytes_differ_from_plaintext\<close> is about the cipher and has no counterpart.
\<close>

section \<open>Running a test\<close>

type_synonym 't transport_op = "'t \<Rightarrow> bytes \<Rightarrow> (snow_error + bytes) \<times> 't"

text \<open>Every \<open>block_on(...).unwrap()\<close> must be ready and succeed. \<open>read_exact\<close> fills a slice of the length
  of the expected bytes.\<close>

fun write_messages ::
  "'t transport_op \<Rightarrow> bytes list \<Rightarrow> (MockStream, 't) NoiseWriteStream \<Rightarrow> (MockStream, 't) NoiseWriteStream option" where
  "write_messages wm [] s = Some s"
| "write_messages wm (data # rest) s =
     (case noise_write_all mock_write_all wm data s of
        Some (Ready (Inr _), s') \<Rightarrow> write_messages wm rest s'
      | _ \<Rightarrow> None)"

fun read_messages :: "'u transport_op \<Rightarrow> bytes list \<Rightarrow> (MockStream, 'u) NoiseReadStream \<Rightarrow> bool" where
  "read_messages rm [] s = True"
| "read_messages rm (expected # rest) s =
     (case noise_read_exact mock_read_exact rm (2 * length expected + 2) (length expected) [] s of
        Some (Ready (Inr out), s') \<Rightarrow> out = expected \<and> read_messages rm rest s'
      | _ \<Rightarrow> False)"

definition noise_test ::
  "'t transport_op \<Rightarrow> 'u transport_op \<Rightarrow> 't \<Rightarrow> 'u \<Rightarrow> bytes list \<times> bytes list \<Rightarrow> bool" where
  "noise_test wm rm ti tr test =
     (case write_messages wm (fst test) (NoiseWriteStream_new mock_new ti) of
        None \<Rightarrow> False
      | Some writer \<Rightarrow>
          (let wire = fst (mock_drain_all (nw_writer writer))
           in read_messages rm (snd test) (NoiseReadStream_new (mock_extend wire mock_new) tr)))"

section \<open>Tests\<close>

text \<open>What is written, and the pieces expected of the reads.\<close>

definition test_round_trip_small_message :: "bytes list \<times> bytes list" where
  "test_round_trip_small_message = ([bytes_of ''hello, noise!''], [bytes_of ''hello, noise!''])"

definition counting_bytes :: "nat \<Rightarrow> bytes" where
  "counting_bytes n = map (\<lambda>i. of_nat (i mod 256)) [0..<n]"

definition test_round_trip_exact_max_plaintext :: "bytes list \<times> bytes list" where
  "test_round_trip_exact_max_plaintext = ([counting_bytes MAX_PLAINTEXT], [counting_bytes MAX_PLAINTEXT])"

definition test_round_trip_spans_multiple_frames :: "bytes list \<times> bytes list" where
  "test_round_trip_spans_multiple_frames =
     ([counting_bytes (MAX_PLAINTEXT + 100)], [counting_bytes (MAX_PLAINTEXT + 100)])"

definition test_partial_reads_drain_buffer_correctly :: "bytes list \<times> bytes list" where
  "test_partial_reads_drain_buffer_correctly =
     ([bytes_of ''abcdefghij''], [bytes_of ''abcd'', bytes_of ''efghij''])"

definition test_multiple_writes_then_single_read :: "bytes list \<times> bytes list" where
  "test_multiple_writes_then_single_read =
     ([bytes_of ''first'', bytes_of ''second'', bytes_of ''third''], [bytes_of ''firstsecondthird''])"

definition test_read_spanning_frame_boundary :: "bytes list \<times> bytes list" where
  "test_read_spanning_frame_boundary =
     ([bytes_of ''AAA'', bytes_of ''BBBBB''], [bytes_of ''AAABB'', bytes_of ''BBB''])"

definition test_empty_write_produces_no_output :: "'t transport_op \<Rightarrow> 't \<Rightarrow> bool" where
  "test_empty_write_produces_no_output wm ti =
     (case write_messages wm [[]] (NoiseWriteStream_new mock_new ti) of
        None \<Rightarrow> False
      | Some writer \<Rightarrow> fst (mock_drain_all (nw_writer writer)) = [])"

section \<open>Results\<close>

lemma write_messages_ok:
  assumes "snow_paired wm rm P" and "P (nw_transport s) u"
  shows "\<exists>s' cts pts. write_messages wm msgs s = Some s' \<and>
    ms_write_buf (nw_writer s') = ms_write_buf (nw_writer s) @ concat (map noise_frame cts) \<and>
    decrypts rm u cts pts \<and> concat pts = concat msgs"
  using assms(2)
proof (induction msgs arbitrary: s u)
  case Nil
  show ?case by (intro exI [of _ s] exI [of _ "[]"]) simp
next
  case (Cons msg msgs)
  obtain s1 cts pts where w: "noise_write_all mock_write_all wm msg s = Some (Ready (Inr ()), s1)"
    "ms_write_buf (nw_writer s1) = ms_write_buf (nw_writer s) @ concat (map noise_frame cts)"
    "decrypts rm u cts pts" "concat pts = msg" "P (nw_transport s1) (after_reading rm cts u)"
    using noise_write_all_ok [OF assms(1) Cons.prems] by blast
  obtain s' cts' pts' where "write_messages wm msgs s1 = Some s'"
    "ms_write_buf (nw_writer s') = ms_write_buf (nw_writer s1) @ concat (map noise_frame cts')"
    "decrypts rm (after_reading rm cts u) cts' pts'" "concat pts' = concat msgs"
    using Cons.IH [OF w(5)] by blast
  with w show ?case
    by (intro exI [of _ s'] exI [of _ "cts @ cts'"] exI [of _ "pts @ pts'"]) (simp add: decrypts_append)
qed

lemma read_messages_ok:
  "noise_source rm ms_read_buf s (concat msgs @ rest) \<Longrightarrow> read_messages rm msgs s"
proof (induction msgs arbitrary: s)
  case (Cons msg msgs)
  obtain s' where "noise_read_exact mock_read_exact rm (2 * length msg + 2) (length msg) [] s =
      Some (Ready (Inr msg), s')" "noise_source rm ms_read_buf s' (concat msgs @ rest)"
    using mock.noise_read_exact_ok [OF Cons.prems, of "length msg" "[]" "2 * length msg + 2"]
    by (cases "nr_read_buf s = []") (auto simp del: noise_read_exact.simps)
  with Cons.IH show ?case by simp
qed simp

text \<open>Whatever was written can be read, in pieces of any sizes.\<close>

lemma noise_test_passes:
  assumes "snow_paired wm rm P" and "P ti tr" and "concat writes = concat reads @ rest"
  shows "noise_test wm rm ti tr (writes, reads)"
proof -
  obtain s cts pts where "write_messages wm writes (NoiseWriteStream_new mock_new ti) = Some s"
    "ms_write_buf (nw_writer s) = concat (map noise_frame cts)" "decrypts rm tr cts pts" "concat pts = concat writes"
    using write_messages_ok [OF assms(1), of "NoiseWriteStream_new mock_new ti" tr writes] assms(2)
    by (auto simp: NoiseWriteStream_new_def mock_new_def)
  moreover from this have "noise_source rm ms_read_buf
      (NoiseReadStream_new (mock_extend (ms_write_buf (nw_writer s)) mock_new) tr) (concat reads @ rest)"
    using assms(3) unfolding noise_source_def NoiseReadStream_new_def
    by (intro exI [of _ cts] exI [of _ pts]) (simp add: mock_new_def)
  ultimately show ?thesis
    by (simp add: noise_test_def mock_drain_all_def read_messages_ok)
qed

lemma noise_stream_tests_pass:
  assumes "snow_paired wm rm P" and "P ti tr"
  shows "noise_test wm rm ti tr test_round_trip_small_message"
    and "noise_test wm rm ti tr test_round_trip_exact_max_plaintext"
    and "noise_test wm rm ti tr test_round_trip_spans_multiple_frames"
    and "noise_test wm rm ti tr test_partial_reads_drain_buffer_correctly"
    and "noise_test wm rm ti tr test_multiple_writes_then_single_read"
    and "noise_test wm rm ti tr test_read_spanning_frame_boundary"
    and "test_empty_write_produces_no_output wm ti"
  unfolding test_round_trip_small_message_def test_round_trip_exact_max_plaintext_def
    test_round_trip_spans_multiple_frames_def test_partial_reads_drain_buffer_correctly_def
    test_multiple_writes_then_single_read_def test_read_spanning_frame_boundary_def
  by (rule noise_test_passes [OF assms, of _ _ "[]"], simp add: bytes_of_def)+
     (simp add: test_empty_write_produces_no_output_def noise_write_all.simps NoiseWriteStream_new_def
        mock_drain_all_def mock_new_def)

end
