(* ===== verification/Spec2Isabelle.thy ===== *)
theory Spec2Isabelle
  imports EndToEnd Connecting NoPanic Programs WebBridge CodecTests MultistreamTests NoiseTests
begin

text \<open>
  Verification of \<open>polkadot-p2p-connect\<close>, a \<open>no_std\<close> Rust library that talks to one peer of the
  Polkadot network, with the \<open>warp-sync\<close> crate and the light clients built on it.

  \<^bold>\<open>The program.\<close> A user configures protocols (\<open>configuration.rs\<close>, \<open>protocol.rs\<close>) and connects over any
  byte stream (\<open>utils/async_stream.rs\<close>). \<open>Connection::from_stream\<close> negotiates \<open>/noise\<close>
  (\<open>layers/multistream.rs\<close>), shakes hands and authenticates the peer (\<open>layers/noise.rs\<close>,
  \<open>utils/peer_id.rs\<close>), negotiates \<open>/yamux/1.0.0\<close> on the encrypted streams and starts a session
  (\<open>layers/yamux.rs\<close>, \<open>layers/yamux/header.rs\<close>) under a per-stream protocol negotiation and
  framing (\<open>layers/yamux_multistream.rs\<close>, \<open>frame_buffer.rs\<close>). \<open>Connection::next\<close> drives all of it and
  turns what arrives into responses, requests and notifications (\<open>connection.rs\<close>), with timeouts
  from \<open>utils/timers.rs\<close>. On top, \<open>warp-sync\<close> follows GRANDPA finality from a checkpoint, and the
  examples read storage proofs of the finalised state.

  \<^bold>\<open>The theories\<close>, in the order of the layers.

  \<^item> \<open>Prelude\<close>: machine words, polls, strings, big-endian codecs, shared lemmas and \<open>wire_simps\<close>.
  \<^item> \<open>AsyncStream\<close>: the stream traits as the locales \<open>async_read\<close> and \<open>byte_source\<close>, interpreted on
    the mock stream, on the encrypted stream (\<open>Connecting\<close>) and on the WebSocket (\<open>WebBridge\<close>).
  \<^item> \<open>Varint\<close>, \<open>Protobuf\<close>: \<open>utils/varint.rs\<close>, \<open>utils/protobuf.rs\<close>; round trips, exact error conditions,
    agreement of the slice, cursor and stream variants.
  \<^item> \<open>YamuxHeaders\<close>: the header codec. \<open>FrameBuffer\<close>: the reassembly buffer, as an implementation of the
    locale \<open>frame_source\<close>: any chopping of a byte sequence gives the same frames.
  \<^item> \<open>BTree\<close>: the tables of the crate (locale \<open>ordered_map\<close>, interpreted on sorted lists).
  \<^item> \<open>Yamux\<close>, \<open>YamuxWrite\<close>, \<open>YamuxSession\<close>: the session. The read and write futures of \<open>read_next\<close> and
    \<open>write_next\<close> are state machines over their await points (\<open>read_pc\<close>, \<open>write_pc\<close>), \<open>join_call\<close> is
    \<open>ReadWriteJoin::call\<close>, and reachable sessions keep an invariant. Flow control, ordering and
    exhaustiveness of a write round, termination of every poll, finality of errors.
  \<^item> \<open>YamuxMultistream\<close>: negotiation and framing; bounded buffers, termination of a poll including the
    cooperative yield, the answers to a proposed protocol. \<open>EndToEnd\<close>: messages sent on a stream come
    out of the other side's buffer as they went in.
  \<^item> \<open>MultistreamDialer\<close>, \<open>PeerIds\<close>, \<open>Noise\<close>: negotiation on the raw stream, peer identifiers, the
    handshake and the encrypted streams, each as one run of its future.
  \<^item> \<open>Futures\<close>, \<open>Handshakes\<close>: \<open>async\<close> functions as resumable computations over reads and writes; the
    negotiation, the handshake and the noise streams in this form, shown equal to the runs above.
    Resuming a future after any number of pauses gives what one run on all the input gives, and a
    program over the noise streams does on their plaintext what it does on plain streams.
  \<^item> \<open>Timers\<close>, \<open>Protocols\<close>, \<open>Connection\<close>: timers, configuration, and the connection with its whole \<open>next\<close>.
  \<^item> \<open>FromStream\<close>: \<open>Connection::from_stream\<close> as a future with its three timed phases, suspended and resumed.
  \<^item> \<open>SessionEffects\<close>, \<open>EventEffects\<close>: locales for what a layer does to the layer below it; a relation
    that the operations below keep is kept by the whole layer.
  \<^item> \<open>ConnectionRuns\<close>: runs of a connection as traces of a labelled step relation; the locale \<open>ledger\<close>
    gives the accounting argument behind one response per request. \<open>Subscriptions\<close>: the
    notifications of a subscription follow a monitor that the table refines. \<open>Connecting\<close>: what
    \<open>connect\<close> returns, how a connection ends, and behaviours of \<open>next\<close> worth knowing. \<open>Progress\<close>: a
    potential on the connection that pays for every round of the loop of \<open>next\<close>. \<open>NoPanic\<close>: in the
    runs of a connection no layer panics, so that \<open>next\<close> returns.
  \<^item> \<open>WarpSync\<close>, \<open>WarpSyncTrust\<close>: \<open>grandpa.rs\<close>, \<open>substrate.rs\<close>, \<open>checkpoint.rs\<close>; justifications are
    supermajorities, and finality moves along chains of them (\<open>trusted_chain\<close>).
  \<^item> \<open>StateCodec\<close>, \<open>LightClient\<close>, \<open>LightClientTrust\<close>: the asset hub examples and the demo of
    \<open>warp-sync\<close>; the locale \<open>message_handler\<close> carries an invariant through every loop over \<open>next\<close>.
  \<^item> \<open>Programs\<close>: the mains of the asset hub examples and of the demo, with their constants, boot nodes,
    retries and output. Every run refines a run of \<open>LightClient\<close> and uses each connection as
    \<open>ConnectionRuns\<close> allows.
  \<^item> \<open>WebBridge\<close>: the WebSocket stream and timers of the browser example, the basic example and their
    mains.
  \<^item> \<open>CodecTests\<close>, \<open>SessionTests\<close>, \<open>MultistreamTests\<close>, \<open>NoiseTests\<close>: the unit tests of the crate, with the
    inputs and expectations of the source, run on the definitions of the development.
  \<^item> This theory: the property of the whole light client, which spans all of them.

  \<^bold>\<open>Conventions.\<close> \<open>Result<T, E>\<close> is the sum \<open>'e + 'a\<close>. A panic is \<open>None\<close>, or \<open>Panic\<close> of the type \<open>run\<close>.
  An asynchronous operation is modelled by one poll: its outcome (\<open>Pending\<close> or \<open>Ready\<close>) and the state
  of the suspended future next to the object it borrows; dropping a future forgets that state.
  Where a function only reads and writes its streams (the negotiation, the handshake, \<open>from_stream\<close>)
  the suspended state is the rest of the computation (\<open>Futures\<close>). Mutation is state passing. \<open>BTreeMap\<close> is a sorted
  association list, \<open>VecDeque\<close> a list; \<open>sl\<close> says where the two slices of a \<open>VecDeque\<close> meet, and the
  theorems hold for every \<open>sl\<close>. \<open>clk\<close> gives the platform's state for each iteration of a loop.
  Integers keep their width where they are on the wire or are computed with (\<open>u8\<close> to \<open>u64\<close>, \<open>u128\<close>);
  arithmetic wraps as in the release profile. \<open>usize\<close> is \<open>nat\<close> and 64 bits where it is cast.

  \<^bold>\<open>Fuel.\<close> Loops that could run forever on some stream take a bound and say \<open>OutOfFuel\<close>. It is shown
  to be enough for \<open>read_next\<close> (the bytes left plus 4), \<open>write_next\<close> (11), \<open>yamux_next\<close> (the bytes left
  plus 11) and \<open>ym_next\<close> (130 iterations, because it yields after 128 units of work). \<open>noise_read_exact\<close>
  needs two steps per byte. \<open>conn_next\<close> takes the number of iterations as an argument; more than the
  potential \<open>ym_pot\<close> is enough. \<open>client_poll\<close> takes the number of messages, and its theorems hold for
  every bound; the mains are step relations and need none.

  \<^bold>\<open>Parameters.\<close> Code outside the repository: \<open>snow\<close> (\<open>Snow\<close>), \<open>ed25519_dalek\<close> and \<open>bs58\<close> (\<open>PeerIds\<close>), the
  platform (\<open>PlatformT\<close>), the SCALE codec, \<open>blake2\<close> and the signature check of \<open>warp-sync\<close> (\<open>WarpLib\<close>),
  \<open>serde_json\<close> (\<open>Json\<close>), \<open>sp_trie\<close> and \<open>sp_state_machine\<close> (\<open>StateLib\<close>), and what \<open>tokio\<close> and the file
  system do for the programs (\<open>Host\<close>). What a theorem needs of them is a
  named hypothesis, and its witness instantiates it.

  \<^bold>\<open>Not modelled.\<close> Formatting of errors and identifiers (\<open>Display\<close>, \<open>Debug\<close>, \<open>debug_ignore.rs\<close>), messages on
  standard error and logging, \<open>CryptoResolver\<close> of \<open>noise.rs\<close> (it hands the platform's randomness to
  \<open>snow\<close>, and the choice of the keys is inside the parameter \<open>Snow\<close>), the executor, the calls into \<open>tokio\<close> and \<open>web_sys\<close>
  themselves, and of the unit tests those about the cipher, the base58 decoder, the signature scheme,
  the size of the stack and \<open>Send\<close>, and two that push ten megabytes through a stream.
\<close>



end
